(* ===== verification/Prelude.thy ===== *)
theory Prelude
  imports Main "HOL-Library.Word" "HOL-Library.Signed_Division"
begin

text \<open>
  The shared vocabulary of the development.

  \<^item> Casts between C's integer types, with the wrap-around written out
    (\<open>c_int\<close> is a conversion to the 32-bit \<open>int\<close>, \<open>c_size_t\<close> to the
    64-bit \<open>size_t\<close>).
  \<^item> Computations: a step of C++ code is a function from the state to an
    outcome and the new state. An outcome is a returned value, a C++ exception,
    a fault (an assertion that fires or behaviour that C++ leaves undefined) or
    the end of the process by \<open>exit\<close>. \<open>bind\<close> is sequencing, \<open>with_dtor\<close> runs
    a destructor on return and on exception, \<open>catch_with\<close> is a catch-all.
  \<^item> The C++ library routines that the sources use: decimal output of
    integers, \<open>atoi\<close>, \<open>strtok\<close>, C strings.
\<close>

unbundle bit_operations_syntax

named_theorems comp_simps \<open>unfolding the computation combinators\<close>
named_theorems keeps_intros \<open>a computation keeps a state predicate\<close>
named_theorems cast_simps \<open>casts that do not wrap\<close>

section \<open>C integers\<close>

type_synonym u32 = "32 word"

definition c_int :: "int \<Rightarrow> int" where
  "c_int x = signed_take_bit 31 x"

definition c_uint :: "int \<Rightarrow> int" where
  "c_uint x = take_bit 32 x"

definition c_size_t :: "int \<Rightarrow> int" where
  "c_size_t x = take_bit 64 x"

definition c_off_t :: "int \<Rightarrow> int" where
  "c_off_t x = signed_take_bit 63 x"

definition c_uint16 :: "int \<Rightarrow> int" where
  "c_uint16 x = take_bit 16 x"

lemma c_int_id [cast_simps]: "- (2 ^ 31) \<le> x \<Longrightarrow> x < 2 ^ 31 \<Longrightarrow> c_int x = x"
  by (simp add: c_int_def signed_take_bit_int_eq_self)

lemma c_uint_id [cast_simps]: "0 \<le> x \<Longrightarrow> x < 2 ^ 32 \<Longrightarrow> c_uint x = x"
  by (simp add: c_uint_def take_bit_int_eq_self)

lemma c_size_t_id [cast_simps]: "0 \<le> x \<Longrightarrow> x < 2 ^ 64 \<Longrightarrow> c_size_t x = x"
  by (simp add: c_size_t_def take_bit_int_eq_self)

lemma c_off_t_id [cast_simps]: "- (2 ^ 63) \<le> x \<Longrightarrow> x < 2 ^ 63 \<Longrightarrow> c_off_t x = x"
  by (simp add: c_off_t_def signed_take_bit_int_eq_self)

lemma c_uint16_id [cast_simps]: "0 \<le> x \<Longrightarrow> x < 2 ^ 16 \<Longrightarrow> c_uint16 x = x"
  by (simp add: c_uint16_def take_bit_int_eq_self)

lemma c_uint16_range: "0 \<le> c_uint16 x" "c_uint16 x < 2 ^ 16"
  using take_bit_int_less_exp [of 16 x] by (simp_all add: c_uint16_def)

lemma c_int_range: "- (2 ^ 31) \<le> c_int x" "c_int x < 2 ^ 31"
  using signed_take_bit_int_greater_eq_minus_exp [of 31 x]
    signed_take_bit_int_less_exp [of 31 x]
  by (simp_all add: c_int_def)

lemma word_of_c_int: "(word_of_int (c_int x) :: u32) = word_of_int x"
proof (rule bit_word_eqI)
  fix n assume "n < LENGTH(32)"
  then have "n < 31 \<or> n = 31" by auto
  then show "bit (word_of_int (c_int x) :: u32) n \<longleftrightarrow> bit (word_of_int x :: u32) n"
    by (auto simp: c_int_def bit_word_of_int_iff bit_signed_take_bit_iff min_def)
qed

section \<open>Outcomes and computations\<close>

datatype exn = UserException string | StdException string | UnknownException

datatype fault =
    AssertFailed
  | NullDeref
  | UseAfterFree
  | BadPointer
  | OutOfBounds
  | Uninitialised
  | ArithmeticFault
  | Deadlock
  | NoFuel

datatype 'a outcome = Ret 'a | Throw exn | Fault fault | Exit int

type_synonym ('s, 'a) comp = "'s \<Rightarrow> 'a outcome \<times> 's"

definition ret :: "'a \<Rightarrow> ('s, 'a) comp" where
  "ret a = (\<lambda>s. (Ret a, s))"

definition throw :: "exn \<Rightarrow> ('s, 'a) comp" where
  "throw e = (\<lambda>s. (Throw e, s))"

definition fault :: "fault \<Rightarrow> ('s, 'a) comp" where
  "fault x = (\<lambda>s. (Fault x, s))"

definition exit_process :: "int \<Rightarrow> ('s, 'a) comp" where
  "exit_process n = (\<lambda>s. (Exit n, s))"

definition bind :: "('s, 'a) comp \<Rightarrow> ('a \<Rightarrow> ('s, 'b) comp) \<Rightarrow> ('s, 'b) comp" where
  "bind m f = (\<lambda>s. case m s of
     (Ret a, s') \<Rightarrow> f a s'
   | (Throw e, s') \<Rightarrow> (Throw e, s')
   | (Fault x, s') \<Rightarrow> (Fault x, s')
   | (Exit n, s') \<Rightarrow> (Exit n, s'))"

definition get_state :: "('s, 's) comp" where
  "get_state = (\<lambda>s. (Ret s, s))"

definition modify :: "('s \<Rightarrow> 's) \<Rightarrow> ('s, unit) comp" where
  "modify f = (\<lambda>s. (Ret (), f s))"

text \<open>Lifts a pure outcome, such as the result of a parser, into a computation.\<close>

definition of_outcome :: "'a outcome \<Rightarrow> ('s, 'a) comp" where
  "of_outcome r = (\<lambda>s. (r, s))"

text \<open>
  A destructor \<open>d\<close> of a scope: it runs when the scope is left by a return or by an
  exception. After a fault nothing more is said of the process, and \<open>exit\<close> does not
  unwind the stack.
\<close>

definition with_dtor :: "('s, 'a) comp \<Rightarrow> ('s \<Rightarrow> 's) \<Rightarrow> ('s, 'a) comp" where
  "with_dtor m d = (\<lambda>s. case m s of
     (Ret a, s') \<Rightarrow> (Ret a, d s')
   | (Throw e, s') \<Rightarrow> (Throw e, d s')
   | (Fault x, s') \<Rightarrow> (Fault x, s')
   | (Exit n, s') \<Rightarrow> (Exit n, s'))"

text \<open>A clean-up that runs only when an exception leaves the scope.\<close>

definition on_throw :: "('s, 'a) comp \<Rightarrow> ('s \<Rightarrow> 's) \<Rightarrow> ('s, 'a) comp" where
  "on_throw m d = (\<lambda>s. case m s of (Throw e, s') \<Rightarrow> (Throw e, d s') | r \<Rightarrow> r)"

text \<open>A try block whose handlers catch every exception and answer \<open>a\<close>.\<close>

definition catch_with :: "('s, 'a) comp \<Rightarrow> 'a \<Rightarrow> ('s, 'a) comp" where
  "catch_with m a = (\<lambda>s. case m s of (Throw e, s') \<Rightarrow> (Ret a, s') | r \<Rightarrow> r)"

text \<open>
  \<open>assert\<close>: the condition is an expression of the program, evaluated only where
  \<open>NDEBUG\<close> is not defined. \<open>assert_that nd c\<close> is \<open>assert(c)\<close> in a build with
  \<open>NDEBUG\<close> set to \<open>nd\<close>.
\<close>

definition assert_that :: "bool \<Rightarrow> ('s, bool) comp \<Rightarrow> ('s, unit) comp" where
  "assert_that nd c =
     (if nd then ret () else bind c (\<lambda>b. if b then ret () else fault AssertFailed))"

lemma comp_run [comp_simps]:
  "ret a s = (Ret a, s)"
  "throw e s = (Throw e, s)"
  "fault x s = (Fault x, s)"
  "exit_process n s = (Exit n, s)"
  "get_state s = (Ret s, s)"
  "modify f s = (Ret (), f s)"
  "of_outcome r s = (r, s)"
  by (simp_all add: ret_def throw_def fault_def exit_process_def get_state_def modify_def
      of_outcome_def)

lemma bind_run:
  "bind m f s = (case m s of
     (Ret a, s') \<Rightarrow> f a s'
   | (Throw e, s') \<Rightarrow> (Throw e, s')
   | (Fault x, s') \<Rightarrow> (Fault x, s')
   | (Exit n, s') \<Rightarrow> (Exit n, s'))"
  by (simp add: bind_def)

lemma bind_Ret: "m s = (Ret a, s') \<Longrightarrow> bind m f s = f a s'"
  by (simp add: bind_def)

lemma bind_Throw: "m s = (Throw e, s') \<Longrightarrow> bind m f s = (Throw e, s')"
  by (simp add: bind_def)

lemma bind_Fault: "m s = (Fault x, s') \<Longrightarrow> bind m f s = (Fault x, s')"
  by (simp add: bind_def)

lemma bind_ret [comp_simps]: "bind (ret a) f = f a"
  by (simp add: bind_def ret_def fun_eq_iff)

lemma bind_throw [comp_simps]: "bind (throw e) f = throw e"
  by (simp add: bind_def throw_def fun_eq_iff)

lemma bind_fault [comp_simps]: "bind (fault x) f = fault x"
  by (simp add: bind_def fault_def fun_eq_iff)

lemma bind_assoc: "bind (bind m f) g = bind m (\<lambda>a. bind (f a) g)"
  by (auto simp: bind_def fun_eq_iff split: prod.split outcome.split)

lemma assert_that_ndebug [comp_simps]: "assert_that True c = ret ()"
  by (simp add: assert_that_def)

lemma assert_that_debug [comp_simps]:
  "assert_that False c = bind c (\<lambda>b. if b then ret () else fault AssertFailed)"
  by (simp add: assert_that_def)

lemma assert_that_true [comp_simps]: "assert_that nd (ret True) = ret ()"
  by (simp add: assert_that_def bind_ret)

lemma catch_with_cases:
  obtains a s' where "m s = (Ret a, s')" "catch_with m d s = (Ret a, s')"
  | e s' where "m s = (Throw e, s')" "catch_with m d s = (Ret d, s')"
  | x s' where "m s = (Fault x, s')" "catch_with m d s = (Fault x, s')"
  | n s' where "m s = (Exit n, s')" "catch_with m d s = (Exit n, s')"
  by (cases "m s"; cases "fst (m s)") (auto simp: catch_with_def)

lemma catch_with_never_throws: "fst (catch_with m d s) \<noteq> Throw e"
  by (rule catch_with_cases [of m s d]) auto

lemma catch_with_Ret: "m s = (Ret a, s') \<Longrightarrow> catch_with m d s = (Ret a, s')"
  by (simp add: catch_with_def)

lemma catch_with_Throw: "m s = (Throw e, s') \<Longrightarrow> catch_with m d s = (Ret d, s')"
  by (simp add: catch_with_def)

lemma catch_with_Fault: "m s = (Fault x, s') \<Longrightarrow> catch_with m d s = (Fault x, s')"
  by (simp add: catch_with_def)

lemma with_dtor_Ret: "m s = (Ret a, s') \<Longrightarrow> with_dtor m d s = (Ret a, d s')"
  by (simp add: with_dtor_def)

lemma with_dtor_Throw: "m s = (Throw e, s') \<Longrightarrow> with_dtor m d s = (Throw e, d s')"
  by (simp add: with_dtor_def)

lemma with_dtor_Fault: "m s = (Fault x, s') \<Longrightarrow> with_dtor m d s = (Fault x, s')"
  by (simp add: with_dtor_def)

lemma on_throw_Ret: "m s = (Ret a, s') \<Longrightarrow> on_throw m d s = (Ret a, s')"
  by (simp add: on_throw_def)

lemmas comp_steps =
  bind_Ret bind_Throw bind_Fault with_dtor_Ret with_dtor_Throw with_dtor_Fault
  catch_with_Ret catch_with_Throw catch_with_Fault on_throw_Ret

text \<open>A list of operations, one after the other.\<close>

fun perform_all :: "('op \<Rightarrow> ('s, 'r) comp) \<Rightarrow> 'op list \<Rightarrow> ('s, 'r list) comp" where
  "perform_all perform [] = ret []"
| "perform_all perform (op # ops) =
     bind (perform op) (\<lambda>r. bind (perform_all perform ops) (\<lambda>rs. ret (r # rs)))"

text \<open>Where a result came from.\<close>

lemma catch_with_result: "catch_with m d s = (Ret r, s') \<Longrightarrow> m s = (Ret r, s') \<or> r = d"
  by (rule catch_with_cases [of m s d]) auto

lemma bind_result: "bind m f s = (Ret r, s') \<Longrightarrow> \<exists>a t. m s = (Ret a, t) \<and> f a t = (Ret r, s')"
  by (auto simp: bind_def split: prod.splits outcome.splits)

section \<open>Predicates that a computation keeps\<close>

text \<open>The process goes on after a return and after an exception.\<close>

fun goes_on :: "'a outcome \<Rightarrow> bool" where
  "goes_on (Ret a) = True"
| "goes_on (Throw e) = True"
| "goes_on (Fault x) = False"
| "goes_on (Exit n) = False"

text \<open>
  \<open>moves P m Q\<close>: from a state where \<open>P\<close> holds, \<open>m\<close> ends in one where \<open>Q\<close> holds,
  by a return or by an exception. \<open>keeps P m\<close> is the case of an invariant.
\<close>

definition moves :: "('s \<Rightarrow> bool) \<Rightarrow> ('s, 'a) comp \<Rightarrow> ('s \<Rightarrow> bool) \<Rightarrow> bool" where
  "moves P m Q \<longleftrightarrow> (\<forall>s r s'. P s \<longrightarrow> m s = (r, s') \<longrightarrow> goes_on r \<longrightarrow> Q s')"

definition keeps :: "('s \<Rightarrow> bool) \<Rightarrow> ('s, 'a) comp \<Rightarrow> bool" where
  "keeps P m \<longleftrightarrow> moves P m P"

lemma movesI: "(\<And>s r s'. P s \<Longrightarrow> m s = (r, s') \<Longrightarrow> goes_on r \<Longrightarrow> Q s') \<Longrightarrow> moves P m Q"
  by (auto simp: moves_def)

lemma movesD: "moves P m Q \<Longrightarrow> P s \<Longrightarrow> m s = (r, s') \<Longrightarrow> goes_on r \<Longrightarrow> Q s'"
  by (auto simp: moves_def)

lemma keepsI: "(\<And>s r s'. P s \<Longrightarrow> m s = (r, s') \<Longrightarrow> goes_on r \<Longrightarrow> P s') \<Longrightarrow> keeps P m"
  by (auto simp: keeps_def moves_def)

lemma keepsD: "keeps P m \<Longrightarrow> P s \<Longrightarrow> m s = (r, s') \<Longrightarrow> goes_on r \<Longrightarrow> P s'"
  by (auto simp: keeps_def moves_def)

lemma keeps_ret [keeps_intros]: "keeps P (ret a)"
  by (simp add: keeps_def moves_def ret_def)

lemma keeps_throw [keeps_intros]: "keeps P (throw e)"
  by (simp add: keeps_def moves_def throw_def)

lemma keeps_fault [keeps_intros]: "keeps P (fault x)"
  by (simp add: keeps_def moves_def fault_def)

lemma keeps_exit [keeps_intros]: "keeps P (exit_process n)"
  by (simp add: keeps_def moves_def exit_process_def)

lemma keeps_of_outcome [keeps_intros]: "keeps P (of_outcome r)"
  by (simp add: keeps_def moves_def of_outcome_def)

lemma keeps_get_state [keeps_intros]: "keeps P get_state"
  by (simp add: keeps_def moves_def get_state_def)

lemma keeps_modify: "(\<And>s. P s \<Longrightarrow> P (f s)) \<Longrightarrow> keeps P (modify f)"
  by (simp add: keeps_def moves_def modify_def)

lemma keeps_bind [keeps_intros]:
  assumes "keeps P m" and "\<And>a. keeps P (f a)"
  shows "keeps P (bind m f)"
proof (rule keepsI)
  fix s r s' assume P: "P s" and run: "bind m f s = (r, s')" and nf: "goes_on r"
  obtain q t where m: "m s = (q, t)" by (cases "m s")
  show "P s'"
  proof (cases q)
    case (Ret a)
    with m P have "P t" using keepsD [OF assms(1) P m] by auto
    moreover from run m Ret have "f a t = (r, s')" by (simp add: bind_def)
    ultimately show ?thesis using keepsD [OF assms(2)] nf by blast
  next
    case (Throw e)
    with run m show ?thesis using keepsD [OF assms(1) P m] by (auto simp: bind_def)
  next
    case (Fault x)
    with run m nf show ?thesis by (auto simp: bind_def)
  next
    case (Exit n)
    with run m nf show ?thesis by (auto simp: bind_def)
  qed
qed

lemma keeps_if [keeps_intros]:
  "keeps P m \<Longrightarrow> keeps P m' \<Longrightarrow> keeps P (if b then m else m')"
  by simp

lemma keeps_assert [keeps_intros]: "keeps P c \<Longrightarrow> keeps P (assert_that nd c)"
  unfolding assert_that_def by (intro keeps_intros)

lemma keeps_catch [keeps_intros]: "keeps P m \<Longrightarrow> keeps P (catch_with m a)"
  unfolding keeps_def moves_def catch_with_def
  by (fastforce split: prod.splits outcome.splits)

lemma moves_with_dtor: "moves P m Q \<Longrightarrow> (\<And>s. Q s \<Longrightarrow> R (d s)) \<Longrightarrow> moves P (with_dtor m d) R"
  unfolding moves_def with_dtor_def
  by (fastforce split: prod.splits outcome.splits)

lemma keeps_with_dtor: "keeps P m \<Longrightarrow> (\<And>s. P s \<Longrightarrow> P (d s)) \<Longrightarrow> keeps P (with_dtor m d)"
  unfolding keeps_def by (rule moves_with_dtor)

text \<open>A computation that raises no exception.\<close>

definition no_throw :: "('s, 'a) comp \<Rightarrow> bool" where
  "no_throw m \<longleftrightarrow> (\<forall>s e. fst (m s) \<noteq> Throw e)"

lemma no_throwD: "no_throw m \<Longrightarrow> m s \<noteq> (Throw e, s')"
  by (metis fst_conv no_throw_def)

lemma no_throw_catch: "no_throw (catch_with m a)"
  by (simp add: no_throw_def catch_with_never_throws)

lemma no_throw_ret: "no_throw (ret a)"
  by (simp add: no_throw_def ret_def)

lemma no_throw_fault: "no_throw (fault x)"
  by (simp add: no_throw_def fault_def)

lemma no_throw_modify: "no_throw (modify f)"
  by (simp add: no_throw_def modify_def)

lemma no_throw_bind: "no_throw m \<Longrightarrow> (\<And>a. no_throw (f a)) \<Longrightarrow> no_throw (bind m f)"
  unfolding no_throw_def bind_def
  by (auto split: prod.split outcome.split) (metis fst_conv)+

lemma no_throw_if: "no_throw m \<Longrightarrow> no_throw m' \<Longrightarrow> no_throw (if b then m else m')"
  by simp

lemma no_throw_assert: "no_throw c \<Longrightarrow> no_throw (assert_that nd c)"
  unfolding assert_that_def by (intro no_throw_if no_throw_bind no_throw_ret no_throw_fault)

lemma no_throw_with_dtor: "no_throw m \<Longrightarrow> no_throw (with_dtor m d)"
  unfolding no_throw_def with_dtor_def
  by (auto split: prod.split outcome.split) (metis fst_conv)+

lemmas no_throw_intros =
  no_throw_catch no_throw_ret no_throw_fault no_throw_modify no_throw_bind no_throw_if
  no_throw_assert no_throw_with_dtor

section \<open>Objects: a computation over an object and the rest of the state\<close>

text \<open>
  A member function runs over a pair: the object's fields and the state outside the
  object. \<open>this_get\<close> and \<open>this_set\<close> read and write the object, \<open>outside\<close> runs a
  computation that does not touch it.
\<close>

definition this_get :: "('o \<times> 's, 'o) comp" where
  "this_get = (\<lambda>(ob, s). (Ret ob, (ob, s)))"

definition this_set :: "('o \<Rightarrow> 'o) \<Rightarrow> ('o \<times> 's, unit) comp" where
  "this_set f = (\<lambda>(ob, s). (Ret (), (f ob, s)))"

definition outside :: "('s, 'a) comp \<Rightarrow> ('o \<times> 's, 'a) comp" where
  "outside m = (\<lambda>(ob, s). case m s of (r, s') \<Rightarrow> (r, (ob, s')))"

lemma this_run [comp_simps]:
  "this_get (ob, s) = (Ret ob, (ob, s))"
  "this_set f (ob, s) = (Ret (), (f ob, s))"
  "outside m (ob, s) = (case m s of (r, s') \<Rightarrow> (r, (ob, s')))"
  by (simp_all add: this_get_def this_set_def outside_def)

lemma outside_Ret: "m s = (Ret a, s') \<Longrightarrow> outside m (ob, s) = (Ret a, (ob, s'))"
  by (simp add: outside_def)

text \<open>
  A lifetime: a constructor makes the object, \<open>body\<close> runs member functions on it, and
  the object is destroyed (\<open>dtor\<close>) when an exception leaves the body; otherwise \<open>k\<close>
  decides what becomes of it.
\<close>

definition lifetime ::
  "('s, 'o) comp \<Rightarrow> ('o \<times> 's, 'a) comp \<Rightarrow> ('s \<Rightarrow> 's) \<Rightarrow> ('a \<Rightarrow> 'o \<Rightarrow> ('s, 'b) comp)
    \<Rightarrow> ('s, 'b) comp" where
  "lifetime ctor body dtor k = bind ctor (\<lambda>ob s. case body (ob, s) of
     (Ret a, (ob', s')) \<Rightarrow> k a ob' s'
   | (Throw e, (ob', s')) \<Rightarrow> (Throw e, dtor s')
   | (Fault x, (ob', s')) \<Rightarrow> (Fault x, s')
   | (Exit n, (ob', s')) \<Rightarrow> (Exit n, s'))"

text \<open>A local object of a block: destroyed at the end of the block.\<close>

definition local_object ::
  "('s, 'o) comp \<Rightarrow> ('s \<Rightarrow> 's) \<Rightarrow> ('o \<times> 's, 'a) comp \<Rightarrow> ('s, 'a) comp" where
  "local_object ctor dtor body = lifetime ctor body dtor (\<lambda>a _ s. (Ret a, dtor s))"

lemma lifetime_Ret:
  "ctor s = (Ret ob, s1) \<Longrightarrow> body (ob, s1) = (Ret a, (ob', s2)) \<Longrightarrow>
   lifetime ctor body dtor k s = k a ob' s2"
  by (simp add: lifetime_def bind_def)

lemma lifetime_Throw:
  "ctor s = (Ret ob, s1) \<Longrightarrow> body (ob, s1) = (Throw e, (ob', s2)) \<Longrightarrow>
   lifetime ctor body dtor k s = (Throw e, dtor s2)"
  by (simp add: lifetime_def bind_def)

lemma lifetime_Fault:
  "ctor s = (Ret ob, s1) \<Longrightarrow> body (ob, s1) = (Fault x, (ob', s2)) \<Longrightarrow>
   lifetime ctor body dtor k s = (Fault x, s2)"
  by (simp add: lifetime_def bind_def)

lemma local_object_Ret:
  "ctor s = (Ret ob, s1) \<Longrightarrow> body (ob, s1) = (Ret a, (ob', s2)) \<Longrightarrow>
   local_object ctor dtor body s = (Ret a, dtor s2)"
  by (simp add: local_object_def lifetime_def bind_def)

lemma local_object_Throw:
  "ctor s = (Ret ob, s1) \<Longrightarrow> body (ob, s1) = (Throw e, (ob', s2)) \<Longrightarrow>
   local_object ctor dtor body s = (Throw e, dtor s2)"
  by (simp add: local_object_def lifetime_def bind_def)

end
