(* ===== verification/CLib.thy ===== *)
theory CLib
  imports Prelude
begin

text \<open>
  The routines of the C and C++ standard libraries that the sources call on text:
  decimal output of integers by \<open>operator<<\<close> and \<open>sprintf\<close>, \<open>atoi\<close> (as \<open>strtol\<close> in
  base ten followed by a conversion to \<open>int\<close>, the way the GNU library computes it),
  \<open>strtok\<close> with its two delimiter characters, and the end of a C string at its first
  NUL byte. A byte is a \<open>char\<close>; a \<open>std::string\<close> is a list of bytes.
\<close>

section \<open>Decimal output\<close>

definition digit_char :: "nat \<Rightarrow> char" where
  "digit_char d = char_of (48 + d)"

fun dec :: "nat \<Rightarrow> string" where
  "dec n = (if n < 10 then [digit_char n] else dec (n div 10) @ [digit_char (n mod 10)])"

declare dec.simps [simp del]

definition dec_int :: "int \<Rightarrow> string" where
  "dec_int i = (if i < 0 then CHR ''-'' # dec (nat (- i)) else dec (nat i))"

section \<open>Decimal input\<close>

definition is_digit :: "char \<Rightarrow> bool" where
  "is_digit c \<longleftrightarrow> 48 \<le> (of_char c :: nat) \<and> (of_char c :: nat) \<le> 57"

definition is_space :: "char \<Rightarrow> bool" where
  "is_space c \<longleftrightarrow> (of_char c :: nat) = 32 \<or> (9 \<le> (of_char c :: nat) \<and> (of_char c :: nat) \<le> 13)"

fun digits_value :: "int \<Rightarrow> string \<Rightarrow> int" where
  "digits_value acc [] = acc"
| "digits_value acc (c # cs) =
     (if is_digit c then digits_value (acc * 10 + (int (of_char c) - 48)) cs else acc)"

definition strtol :: "string \<Rightarrow> int" where
  "strtol s =
     (let t = dropWhile is_space s;
          v = (case t of
                 [] \<Rightarrow> 0
               | c # cs \<Rightarrow>
                   if c = CHR ''-'' then - digits_value 0 cs
                   else if c = CHR ''+'' then digits_value 0 cs
                   else digits_value 0 t)
      in max (- (2 ^ 63)) (min v (2 ^ 63 - 1)))"

definition atoi :: "string \<Rightarrow> int" where
  "atoi s = c_int (strtol s)"

section \<open>C strings and tokens\<close>

definition c_str :: "string \<Rightarrow> string" where
  "c_str s = takeWhile (\<lambda>c. c \<noteq> CHR 0x00) s"

text \<open>
  One call of \<open>strtok\<close>: the text that is left goes in, the next token and the text
  after its delimiter come out; \<open>None\<close> is the null pointer.
\<close>

definition strtok :: "char list \<Rightarrow> string \<Rightarrow> (string \<times> string) option" where
  "strtok ds s =
     (let t = dropWhile (\<lambda>c. c \<in> set ds) s
      in if t = [] then None
         else Some (takeWhile (\<lambda>c. c \<notin> set ds) t, drop 1 (dropWhile (\<lambda>c. c \<notin> set ds) t)))"

lemma strtok_shorter: "strtok ds s = Some (t, r) \<Longrightarrow> length r < length s"
proof -
  assume *: "strtok ds s = Some (t, r)"
  let ?u = "dropWhile (\<lambda>c. c \<in> set ds) s"
  from * have u: "?u \<noteq> []" and r: "r = drop 1 (dropWhile (\<lambda>c. c \<notin> set ds) ?u)"
    by (auto simp: strtok_def Let_def split: if_splits)
  have "length (dropWhile (\<lambda>c. c \<notin> set ds) ?u) \<le> length ?u"
    by (rule length_dropWhile_le)
  moreover have "0 < length ?u" using u by blast
  moreover have "length r = length (dropWhile (\<lambda>c. c \<notin> set ds) ?u) - 1"
    unfolding r by (rule length_drop)
  ultimately have "length r < length ?u" by linarith
  also have "\<dots> \<le> length s" by (rule length_dropWhile_le)
  finally show ?thesis .
qed

lemma strtok_token_nonempty: "strtok ds s = Some (t, r) \<Longrightarrow> t \<noteq> []"
  using hd_dropWhile [of "\<lambda>c. c \<in> set ds" s]
  by (auto simp: strtok_def Let_def takeWhile_eq_Nil_iff simp del: dropWhile_eq_Nil_conv
      split: if_splits)

lemma strtok_token_clean: "strtok ds s = Some (t, r) \<Longrightarrow> c \<in> set t \<Longrightarrow> c \<notin> set ds"
  by (auto simp: strtok_def Let_def dest: set_takeWhileD split: if_splits)

lemma strtok_delimited:
  assumes "t \<noteq> []" "\<forall>c \<in> set t. c \<notin> set ds" "d \<in> set ds"
  shows "strtok ds (t @ d # r) = Some (t, r)"
proof -
  obtain c t' where t: "t = c # t'" using assms(1) by (cases t) auto
  have "dropWhile (\<lambda>c. c \<in> set ds) (t @ d # r) = t @ d # r"
    using assms(2) by (simp add: t)
  moreover have "takeWhile (\<lambda>c. c \<notin> set ds) (t @ d # r) = t"
    using assms(2,3) by (subst takeWhile_append2) auto
  moreover have "dropWhile (\<lambda>c. c \<notin> set ds) (t @ d # r) = d # r"
    using assms(2,3) by (subst dropWhile_append2) auto
  ultimately show ?thesis using assms(1) by (simp add: strtok_def)
qed

lemma strtok_last:
  assumes "t \<noteq> []" "\<forall>c \<in> set t. c \<notin> set ds"
  shows "strtok ds t = Some (t, [])"
proof -
  obtain c t' where t: "t = c # t'" using assms(1) by (cases t) auto
  have "dropWhile (\<lambda>c. c \<in> set ds) t = t"
    using assms(2) by (simp add: t)
  moreover have "takeWhile (\<lambda>c. c \<notin> set ds) t = t" "dropWhile (\<lambda>c. c \<notin> set ds) t = []"
    using assms(2) by auto
  ultimately show ?thesis using assms(1) by (simp only: strtok_def Let_def) simp
qed

lemma strtok_empty [simp]: "strtok ds [] = None"
  by (simp add: strtok_def)

section \<open>Output followed by input\<close>

lemma digit_chars:
  "digit_char 0 = CHR ''0''" "digit_char (Suc 0) = CHR ''1''" "digit_char 2 = CHR ''2''"
  "digit_char 3 = CHR ''3''" "digit_char 4 = CHR ''4''" "digit_char 5 = CHR ''5''"
  "digit_char 6 = CHR ''6''" "digit_char 7 = CHR ''7''" "digit_char 8 = CHR ''8''"
  "digit_char 9 = CHR ''9''"
  by (simp_all add: digit_char_def char_of_def bit_iff_odd)

lemma of_digit_char: "d < 10 \<Longrightarrow> (of_char (digit_char d) :: nat) = 48 + d"
  by (simp add: digit_char_def)

lemma is_digit_digit_char: "d < 10 \<Longrightarrow> is_digit (digit_char d)"
  by (simp add: is_digit_def of_digit_char)

lemma dec_digits: "\<forall>c \<in> set (dec n). is_digit c"
proof (induction n rule: dec.induct)
  case (1 n)
  then show ?case
    by (subst dec.simps) (auto simp: is_digit_digit_char)
qed

lemma dec_nonempty [simp]: "dec n \<noteq> []"
  by (subst dec.simps) simp

lemma digits_value_append:
  "\<forall>c \<in> set xs. is_digit c \<Longrightarrow> digits_value acc (xs @ ys) = digits_value (digits_value acc xs) ys"
  by (induction xs arbitrary: acc) auto

lemma digits_value_dec: "digits_value 0 (dec n) = int n"
proof (induction n rule: dec.induct)
  case (1 n)
  show ?case
  proof (cases "n < 10")
    case True
    then have "dec n = [digit_char n]" by (subst dec.simps) simp
    with True show ?thesis by (simp add: is_digit_digit_char of_digit_char)
  next
    case False
    then have "dec n = dec (n div 10) @ [digit_char (n mod 10)]" by (subst dec.simps) simp
    moreover have "digits_value 0 (dec (n div 10)) = int (n div 10)" using 1 False by simp
    ultimately have "digits_value 0 (dec n) = int (n div 10) * 10 + int (n mod 10)"
      by (simp add: digits_value_append dec_digits is_digit_digit_char of_digit_char)
    then show ?thesis by presburger
  qed
qed

lemma digit_classes:
  assumes "is_digit c"
  shows "\<not> is_space c" "c \<noteq> CHR ''-''" "c \<noteq> CHR ''+''" "c \<noteq> CHR '':''" "c \<noteq> CHR ''|''"
    "c \<noteq> CHR 0x00"
  using assms by (auto simp: is_digit_def is_space_def)

lemma dec_head: obtains c cs where "dec n = c # cs" "is_digit c"
  using dec_digits [of n] by (cases "dec n") auto

lemma strtol_dec: "int n < 2 ^ 63 \<Longrightarrow> strtol (dec n) = int n"
  by (rule dec_head [of n])
    (use digits_value_dec [of n] in \<open>simp add: strtol_def Let_def digit_classes\<close>)

lemma strtol_dec_int: "- (2 ^ 63) \<le> i \<Longrightarrow> i < 2 ^ 63 \<Longrightarrow> strtol (dec_int i) = i"
  using strtol_dec [of "nat i"]
  by (simp add: dec_int_def) (simp add: strtol_def is_space_def digits_value_dec)

lemma atoi_dec: "int n < 2 ^ 63 \<Longrightarrow> atoi (dec n) = c_int (int n)"
  by (simp add: atoi_def strtol_dec)

lemma atoi_dec_int: "- (2 ^ 63) \<le> i \<Longrightarrow> i < 2 ^ 63 \<Longrightarrow> atoi (dec_int i) = c_int i"
  by (simp add: atoi_def strtol_dec_int)

lemma atoi_dec_u32: "(word_of_int (atoi (dec (unat w))) :: u32) = w" for w :: u32
proof -
  have "uint w < 2 ^ 32" using unsigned_less [of w] by simp
  then have "int (unat w) < 2 ^ 63" by simp
  then have "atoi (dec (unat w)) = c_int (uint w)" by (simp only: atoi_dec) simp
  then show ?thesis by (simp add: word_of_c_int)
qed

lemma dec_no_separator: "c \<in> set (dec n) \<Longrightarrow> c \<noteq> CHR '':'' \<and> c \<noteq> CHR ''|''"
  using dec_digits [of n] digit_classes(4,5) by metis

lemma dec_int_no_separator: "c \<in> set (dec_int i) \<Longrightarrow> c \<noteq> CHR '':'' \<and> c \<noteq> CHR ''|''"
proof (cases "i < 0")
  case True
  moreover assume "c \<in> set (dec_int i)"
  ultimately have "c = CHR ''-'' \<or> c \<in> set (dec (nat (- i)))" by (simp add: dec_int_def)
  then show ?thesis using dec_no_separator by auto
next
  case False
  moreover assume "c \<in> set (dec_int i)"
  ultimately have "c \<in> set (dec (nat i))" by (simp add: dec_int_def)
  then show ?thesis by (rule dec_no_separator)
qed

lemma dec_int_nonempty [simp]: "dec_int i \<noteq> []"
  by (simp add: dec_int_def)

lemma not_digit_NUL: "\<not> is_digit (CHR 0x00)"
  by (simp add: is_digit_def)

lemma dec_no_NUL: "CHR 0x00 \<notin> set (dec n)"
  using dec_digits [of n] not_digit_NUL by blast

lemma dec_int_no_NUL: "CHR 0x00 \<notin> set (dec_int i)"
  by (simp add: dec_int_def dec_no_NUL)

lemma c_str_id: "CHR 0x00 \<notin> set s \<Longrightarrow> c_str s = s"
  by (auto simp: c_str_def takeWhile_eq_all_conv)

lemma c_str_idem [simp]: "c_str (c_str s) = c_str s"
  by (auto simp: c_str_def takeWhile_eq_all_conv dest: set_takeWhileD)

end
