(* ===== verification/Externals.thy ===== *)
theory Externals
  imports CLib
begin

text \<open>
  The code that is not part of the repository, as parameters: the MongoDB driver with its
  GridFS classes, libmemcached, the kernel's clock and memory mappings. The record \<open>env\<close>
  holds one function per call the sources make, over a state \<open>'w\<close> of which nothing is
  known; what the sources rely on is stated as laws in theory Backend. The record also
  holds the configuration \<open>FUSE.config\<close> and whether the build defines \<open>NDEBUG\<close> (the
  default build type of CMakeLists.txt is Release, which does).

  Plain data of the interfaces: \<open>struct stat\<close>, mode bits, errno values, what the getters
  of a \<open>mongo::GridFile\<close> answer.
\<close>

section \<open>Data of the interfaces\<close>

type_synonym bytes = "char list"
type_synonym oid = nat

definition S_IFREG :: u32 where "S_IFREG = 0x8000"
definition S_IFDIR :: u32 where "S_IFDIR = 0x4000"
definition S_IFLNK :: u32 where "S_IFLNK = 0xA000"

definition ENOENT :: int where "ENOENT = 2"
definition EIO :: int where "EIO = 5"
definition EEXIST :: int where "EEXIST = 17"
definition ENAMETOOLONG :: int where "ENAMETOOLONG = 36"
definition ENOTEMPTY :: int where "ENOTEMPTY = 39"

lemmas errno_defs = ENOENT_def EIO_def EEXIST_def ENAMETOOLONG_def ENOTEMPTY_def
lemmas mode_defs = S_IFREG_def S_IFDIR_def S_IFLNK_def

text \<open>
  \<open>struct stat\<close>, the fields the sources write. A time is \<open>None\<close> where the code copies an
  uninitialised variable into it.
\<close>

record stat_buf =
  st_mode :: u32
  st_nlink :: int
  st_uid :: u32
  st_gid :: u32
  st_size :: int
  st_atime :: "int option"
  st_mtime :: "int option"
  st_ctime :: "int option"

text \<open>\<open>memset(stbuf, 0, sizeof(struct stat))\<close>\<close>

definition zero_stat :: stat_buf where
  "zero_stat = \<lparr>st_mode = 0, st_nlink = 0, st_uid = 0, st_gid = 0, st_size = 0,
     st_atime = Some 0, st_mtime = Some 0, st_ctime = Some 0\<rparr>"

text \<open>What the getters of a \<open>mongo::GridFile\<close> answer: a value, or the exception they raise.\<close>

record gridfile =
  gf_exists :: bool
  gf_id :: "exn + oid"
  gf_content_type :: "exn + string"
  gf_content_length :: "exn + int"
  gf_chunk_size :: "exn + int"

text \<open>
  A cursor: the \<open>filename\<close> fields that \<open>next\<close> delivers in turn, and the exception that
  ends the iteration early, if one does.
\<close>

record cursor =
  cur_names :: "string list"
  cur_failure :: "exn option"

datatype err_field = ErrMissing | ErrNull | ErrValue string

text \<open>The two updates the sources send: \<open>$set\<close> of the content type or of the length.\<close>

datatype set_field = SetContentType string | SetLength int

text \<open>
  A value found in memcached under an attribute key: the bytes of a \<open>struct stat\<close>, or bytes
  that some other program stored there.
\<close>

datatype cached_value = StatBytes stat_buf | ForeignBytes

section \<open>The configuration\<close>

record gridfs_config =
  mongo_conn_string :: string
  mongo_user :: string
  mongo_password :: string
  mongo_db :: string
  mongo_collection_prefix :: string
  path_prefix :: string
  log_level :: "string option"
  log_file :: string
  default_uid :: u32
  default_gid :: u32
  mongo_chunk_size :: int

section \<open>The environment\<close>

record 'w env =
  config :: gridfs_config
  ndebug :: bool
  conn_string_valid :: "string \<Rightarrow> bool"
  scoped_connection :: "'w \<Rightarrow> (exn + unit) \<times> 'w"
  open_gridfs :: "string \<Rightarrow> string \<Rightarrow> 'w \<Rightarrow> (exn + unit) \<times> 'w"
  find_file :: "string \<Rightarrow> 'w \<Rightarrow> (exn + gridfile) \<times> 'w"
  get_chunk :: "gridfile \<Rightarrow> int \<Rightarrow> 'w \<Rightarrow> (exn + bytes) \<times> 'w"
  stream_file :: "gridfile \<Rightarrow> 'w \<Rightarrow> (exn + bytes) \<times> 'w"
  store_file :: "bytes \<Rightarrow> string \<Rightarrow> string \<Rightarrow> 'w \<Rightarrow> (exn + unit) \<times> 'w"
  remove_file :: "string \<Rightarrow> 'w \<Rightarrow> (exn + unit) \<times> 'w"
  list_files :: "string \<Rightarrow> 'w \<Rightarrow> (exn + cursor option) \<times> 'w"
  update_file :: "string \<Rightarrow> oid \<Rightarrow> set_field \<Rightarrow> 'w \<Rightarrow> (exn + unit) \<times> 'w"
  last_error :: "'w \<Rightarrow> (exn + err_field) \<times> 'w"
  clock :: "'w \<Rightarrow> int \<times> 'w"
  map_memory :: "int \<Rightarrow> 'w \<Rightarrow> bool \<times> 'w"
  remap_memory :: "int \<Rightarrow> int \<Rightarrow> 'w \<Rightarrow> bool \<times> 'w"
  mc_lookup :: "string \<Rightarrow> 'w \<Rightarrow> cached_value option \<times> 'w"
  mc_store :: "string \<Rightarrow> stat_buf \<Rightarrow> 'w \<Rightarrow> 'w"
  mc_delete :: "string \<Rightarrow> 'w \<Rightarrow> 'w"
  server_count :: "'w \<Rightarrow> nat"
  server_name :: "nat \<Rightarrow> 'w \<Rightarrow> string"
  server_port :: "nat \<Rightarrow> 'w \<Rightarrow> int"
  server_add :: "string \<Rightarrow> int \<Rightarrow> 'w \<Rightarrow> 'w"

text \<open>
  The process: the outside world, the number of pooled database connections that objects
  of the process hold, and the number of \<open>memcached_st\<close> handles taken from their pool.
  Later theories extend the record.
\<close>

record 'w process =
  world :: 'w
  conns :: nat
  caches :: nat

section \<open>Calls\<close>

definition call :: "('w \<Rightarrow> (exn + 'a) \<times> 'w) \<Rightarrow> (('w, 'x) process_scheme, 'a) comp" where
  "call f = (\<lambda>s. case f (world s) of
     (Inl e, w) \<Rightarrow> (Throw e, s\<lparr>world := w\<rparr>)
   | (Inr a, w) \<Rightarrow> (Ret a, s\<lparr>world := w\<rparr>))"

text \<open>A C function, which raises nothing.\<close>

definition c_call :: "('w \<Rightarrow> 'a \<times> 'w) \<Rightarrow> (('w, 'x) process_scheme, 'a) comp" where
  "c_call f = (\<lambda>s. case f (world s) of (a, w) \<Rightarrow> (Ret a, s\<lparr>world := w\<rparr>))"

definition getter :: "exn + 'a \<Rightarrow> ('s, 'a) comp" where
  "getter v = (case v of Inl e \<Rightarrow> throw e | Inr a \<Rightarrow> ret a)"

lemma getter_simps [comp_simps]: "getter (Inr a) = ret a" "getter (Inl e) = throw e"
  by (simp_all add: getter_def)

lemma call_Inr: "f (world s) = (Inr a, w) \<Longrightarrow> call f s = (Ret a, s\<lparr>world := w\<rparr>)"
  by (simp add: call_def)

lemma call_Inl: "f (world s) = (Inl e, w) \<Longrightarrow> call f s = (Throw e, s\<lparr>world := w\<rparr>)"
  by (simp add: call_def)

lemma c_call_run: "f (world s) = (a, w) \<Longrightarrow> c_call f s = (Ret a, s\<lparr>world := w\<rparr>)"
  by (simp add: c_call_def)

text \<open>A predicate that does not look at the outside world survives every call.\<close>

definition world_free :: "(('w, 'x) process_scheme \<Rightarrow> bool) \<Rightarrow> bool" where
  "world_free P \<longleftrightarrow> (\<forall>s w. P (s\<lparr>world := w\<rparr>) = P s)"

lemma keeps_call [keeps_intros]: "world_free P \<Longrightarrow> keeps P (call f)"
  by (auto simp: keeps_def moves_def call_def world_free_def split: prod.splits sum.splits)

lemma keeps_c_call [keeps_intros]: "world_free P \<Longrightarrow> keeps P (c_call f)"
  by (auto simp: keeps_def moves_def c_call_def world_free_def split: prod.splits)

lemma keeps_getter [keeps_intros]: "keeps P (getter v)"
  by (cases v) (auto simp: getter_def intro: keeps_intros)

text \<open>Member functions: the predicate speaks of the state outside the object.\<close>

definition away :: "('s \<Rightarrow> bool) \<Rightarrow> 'o \<times> 's \<Rightarrow> bool" where
  "away P = (\<lambda>(ob, s). P s)"

lemma away_iff [simp]: "away P (ob, s) = P s"
  by (simp add: away_def)

lemma keeps_this_get [keeps_intros]: "keeps P this_get"
  by (auto simp: keeps_def moves_def this_get_def)

lemma keeps_this_set [keeps_intros]: "keeps (away P) (this_set f)"
  by (auto simp: keeps_def moves_def this_set_def)

lemma keeps_outside [keeps_intros]: "keeps P m \<Longrightarrow> keeps (away P) (outside m)"
  by (fastforce simp: keeps_def moves_def outside_def split: prod.splits)

end
