(* ===== verification/Content_Type.thy ===== *)
theory Content_Type
  imports Externals
begin

text \<open>
  The content type of a GridFS document carries the attributes of the entry, as in
  \<open>m:16877|u:0|g:0|t:1321927291\<close>. Written by \<open>FilesystemEntry::create\<close> and
  \<open>updateContentType\<close>, read by the private \<open>FilesystemEntry::stat\<close> with \<open>strtok\<close> and
  \<open>atoi\<close>. The pair is an instance of the locale \<open>attribute_codec\<close>.
\<close>

section \<open>Attributes\<close>

text \<open>The time is \<open>None\<close> while the caller's variable is uninitialised.\<close>

record attrs =
  at_mode :: u32
  at_uid :: u32
  at_gid :: u32
  at_time :: "int option"

text \<open>\<open>"m:" << mode << "|u:" << uid << "|g:" << gid << "|t:" << time\<close>\<close>

definition print_content_type :: "u32 \<Rightarrow> u32 \<Rightarrow> u32 \<Rightarrow> int \<Rightarrow> string" where
  "print_content_type mode uid gid time =
     ''m:'' @ dec (unat mode) @ ''|u:'' @ dec (unat uid) @ ''|g:'' @ dec (unat gid) @
     ''|t:'' @ dec_int time"

definition separators :: "char list" where
  "separators = '':|''"

text \<open>The text left after a call of \<open>strtok\<close>: less in each turn of the loop below.\<close>

definition text_left :: "(string \<times> string) option \<Rightarrow> nat" where
  "text_left t = (case t of None \<Rightarrow> 0 | Some (_, rest) \<Rightarrow> Suc (length rest))"

lemma text_left_strtok: "text_left (strtok ds rest) < Suc (length rest)"
  by (cases "strtok ds rest") (auto simp: text_left_def dest: strtok_shorter)

lemma text_left_strtok2:
  "strtok ds rest = Some (v, rest') \<Longrightarrow> text_left (strtok ds rest') < Suc (length rest)"
  using text_left_strtok [of ds rest'] strtok_shorter [of ds rest v rest'] by linarith

text \<open>
  The loop over the tokens: the argument is the last call of \<open>strtok\<close>, its token and the
  text left. A letter is followed by its value; \<open>atoi\<close> of the null pointer that
  \<open>strtok\<close> gives when no value follows is a fault.
\<close>

definition to_u32 :: "int \<Rightarrow> u32" where
  "to_u32 i = word_of_int i"

function parse_loop :: "attrs \<Rightarrow> (string \<times> string) option \<Rightarrow> attrs outcome" where
  "parse_loop a None = Ret a"
| "parse_loop a (Some (tok, rest)) =
     (if hd tok = CHR ''m'' then
        (case strtok separators rest of
           None \<Rightarrow> Fault NullDeref
         | Some (v, rest') \<Rightarrow> parse_loop (a\<lparr>at_mode := to_u32 (atoi v)\<rparr>) (strtok separators rest'))
      else if hd tok = CHR ''u'' then
        (case strtok separators rest of
           None \<Rightarrow> Fault NullDeref
         | Some (v, rest') \<Rightarrow> parse_loop (a\<lparr>at_uid := to_u32 (atoi v)\<rparr>) (strtok separators rest'))
      else if hd tok = CHR ''g'' then
        (case strtok separators rest of
           None \<Rightarrow> Fault NullDeref
         | Some (v, rest') \<Rightarrow> parse_loop (a\<lparr>at_gid := to_u32 (atoi v)\<rparr>) (strtok separators rest'))
      else if hd tok = CHR ''t'' then
        (case strtok separators rest of
           None \<Rightarrow> Fault NullDeref
         | Some (v, rest') \<Rightarrow> parse_loop (a\<lparr>at_time := Some (atoi v)\<rparr>) (strtok separators rest'))
      else parse_loop a (strtok separators rest))"
  by pat_completeness auto

termination
proof (relation "measure (text_left \<circ> snd)", goal_cases)
  case 1
  show ?case by simp
next
  case (2 a tok rest x v rest')
  then show ?case using text_left_strtok2 [of separators rest v rest'] by (simp add: text_left_def)
next
  case (3 a tok rest x v rest')
  then show ?case using text_left_strtok2 [of separators rest v rest'] by (simp add: text_left_def)
next
  case (4 a tok rest x v rest')
  then show ?case using text_left_strtok2 [of separators rest v rest'] by (simp add: text_left_def)
next
  case (5 a tok rest x v rest')
  then show ?case using text_left_strtok2 [of separators rest v rest'] by (simp add: text_left_def)
next
  case (6 a tok rest)
  then show ?case using text_left_strtok [of separators rest] by (simp add: text_left_def)
qed

declare parse_loop.simps(2) [simp del]

definition default_attrs :: "gridfs_config \<Rightarrow> attrs" where
  "default_attrs c = \<lparr>at_mode = S_IFREG OR 0x1A4, at_uid = default_uid c, at_gid = default_gid c,
     at_time = None\<rparr>"

definition parse_content_type :: "gridfs_config \<Rightarrow> string \<Rightarrow> attrs outcome" where
  "parse_content_type c ct = parse_loop (default_attrs c) (strtok separators (c_str ct))"

section \<open>One turn of the loop\<close>

lemma parse_loop_value:
  assumes "strtok separators rest = Some (v, rest')"
  shows
    "parse_loop a (Some (''m'', rest)) =
       parse_loop (a\<lparr>at_mode := to_u32 (atoi v)\<rparr>) (strtok separators rest')"
    "parse_loop a (Some (''u'', rest)) =
       parse_loop (a\<lparr>at_uid := to_u32 (atoi v)\<rparr>) (strtok separators rest')"
    "parse_loop a (Some (''g'', rest)) =
       parse_loop (a\<lparr>at_gid := to_u32 (atoi v)\<rparr>) (strtok separators rest')"
    "parse_loop a (Some (''t'', rest)) =
       parse_loop (a\<lparr>at_time := Some (atoi v)\<rparr>) (strtok separators rest')"
  using assms by (simp_all add: parse_loop.simps(2))

definition attr_letter :: "char \<Rightarrow> bool" where
  "attr_letter c \<longleftrightarrow> c = CHR ''m'' \<or> c = CHR ''u'' \<or> c = CHR ''g'' \<or> c = CHR ''t''"

lemma parse_loop_skip:
  "\<not> attr_letter (hd tok) \<Longrightarrow>
   parse_loop a (Some (tok, rest)) = parse_loop a (strtok separators rest)"
  by (simp add: parse_loop.simps(2) attr_letter_def)

lemma strtok_letter:
  "c \<noteq> CHR '':'' \<Longrightarrow> c \<noteq> CHR ''|'' \<Longrightarrow>
   strtok separators (c # CHR '':'' # r) = Some ([c], r)"
  using strtok_delimited [of "[c]" separators "CHR '':''" r] by (simp add: separators_def)

lemma strtok_number:
  "strtok separators (dec n @ CHR ''|'' # r) = Some (dec n, r)"
  using dec_no_separator [of _ n] by (intro strtok_delimited) (auto simp: separators_def)

lemma strtok_time: "strtok separators (dec_int i) = Some (dec_int i, [])"
  using dec_int_no_separator [of _ i] by (intro strtok_last) (auto simp: separators_def)

lemma print_no_NUL: "CHR 0x00 \<notin> set (print_content_type mode uid gid time)"
  by (simp add: print_content_type_def dec_no_NUL dec_int_no_NUL)

text \<open>Reading what was written, whatever the attributes before.\<close>

lemma parse_printed:
  assumes "- (2 ^ 63) \<le> time" "time < 2 ^ 63"
  shows "parse_loop a (strtok separators (print_content_type mode uid gid time)) =
    Ret (a\<lparr>at_mode := mode, at_uid := uid, at_gid := gid, at_time := Some (c_int time)\<rparr>)"
proof -
  have "print_content_type mode uid gid time =
      CHR ''m'' # CHR '':'' # dec (unat mode) @ CHR ''|'' # CHR ''u'' # CHR '':'' # dec (unat uid) @
      CHR ''|'' # CHR ''g'' # CHR '':'' # dec (unat gid) @ CHR ''|'' # CHR ''t'' # CHR '':'' #
      dec_int time"
    by (simp add: print_content_type_def)
  then show ?thesis
    using assms
    by (simp add: strtok_letter strtok_number strtok_time parse_loop_value to_u32_def atoi_dec_u32
        atoi_dec_int)
qed

lemma parse_print_content_type:
  assumes "- (2 ^ 63) \<le> time" "time < 2 ^ 63"
  shows "parse_content_type c (print_content_type mode uid gid time) =
    Ret \<lparr>at_mode = mode, at_uid = uid, at_gid = gid, at_time = Some (c_int time)\<rparr>"
  using assms
  by (simp add: parse_content_type_def c_str_id print_no_NUL parse_printed default_attrs_def)

section \<open>Content types of other programs\<close>

text \<open>The tokens that \<open>strtok\<close> finds in a text, in order.\<close>

function tokens :: "(string \<times> string) option \<Rightarrow> string list" where
  "tokens None = []"
| "tokens (Some (t, rest)) = t # tokens (strtok separators rest)"
  by pat_completeness auto
termination
proof (relation "measure text_left", goal_cases)
  case 1
  show ?case by simp
next
  case (2 t rest)
  then show ?case using text_left_strtok [of separators rest] by (simp add: text_left_def)
qed

definition content_tokens :: "string \<Rightarrow> string list" where
  "content_tokens ct = tokens (strtok separators (c_str ct))"

lemma parse_loop_foreign:
  "\<forall>t \<in> set (tokens x). \<not> attr_letter (hd t) \<Longrightarrow> parse_loop a x = Ret a"
proof (induction x rule: tokens.induct)
  case 1
  then show ?case by simp
next
  case (2 t rest)
  then show ?case by (simp add: parse_loop_skip)
qed

text \<open>
  Each token that begins with the letter of an attribute takes the next one as its value; \<open>unpaired\<close>
  says that the last token is such a letter and no value is left for it.
\<close>

fun unpaired :: "string list \<Rightarrow> bool" where
  "unpaired [] \<longleftrightarrow> False"
| "unpaired [t] \<longleftrightarrow> attr_letter (hd t)"
| "unpaired (t # v # ts) \<longleftrightarrow> (if attr_letter (hd t) then unpaired ts else unpaired (v # ts))"

lemma unpaired_skip: "\<not> attr_letter (hd t) \<Longrightarrow> unpaired (t # ts) = unpaired ts"
  by (cases ts) simp_all

lemma tokens_strtok: "tokens x = (case x of None \<Rightarrow> [] | Some (t, rest) \<Rightarrow> t # tokens (strtok separators rest))"
  by (cases x) auto

text \<open>The loop reads through a null pointer in this case, and only in this one.\<close>

lemma parse_loop_value_missing:
  "if unpaired (tokens x) then parse_loop a x = Fault NullDeref else \<exists>b. parse_loop a x = Ret b"
proof (induction a x rule: parse_loop.induct)
  case (2 a tok rest)
  show ?case
  proof (cases "attr_letter (hd tok)")
    case True
    then show ?thesis
    proof (cases "strtok separators rest")
      case (Some p)
      obtain v rest' where p: "p = (v, rest')" by fastforce
      then show ?thesis using "2.IH" Some True
        by (auto simp: parse_loop.simps(2) attr_letter_def)
    qed (auto simp: parse_loop.simps(2) attr_letter_def)
  next
    case False
    then show ?thesis using "2.IH"(5) by (simp add: parse_loop_skip unpaired_skip attr_letter_def)
  qed
qed simp

section \<open>The interface of the codec\<close>

locale attribute_codec =
  fixes encode :: "u32 \<Rightarrow> u32 \<Rightarrow> u32 \<Rightarrow> int \<Rightarrow> string"
    and decode :: "string \<Rightarrow> attrs outcome"
    and representable :: "int \<Rightarrow> bool"
  assumes decode_encode: "representable t \<Longrightarrow> decode (encode m u g t) =
      Ret \<lparr>at_mode = m, at_uid = u, at_gid = g, at_time = Some t\<rparr>"
begin

text \<open>Rewriting attributes: read them, change some, write them back.\<close>

definition rewritten :: "(attrs \<Rightarrow> attrs) \<Rightarrow> string \<Rightarrow> string option" where
  "rewritten f ct = (case decode ct of
     Ret a \<Rightarrow> (case at_time (f a) of
        Some t \<Rightarrow> Some (encode (at_mode (f a)) (at_uid (f a)) (at_gid (f a)) t) | None \<Rightarrow> None)
   | _ \<Rightarrow> None)"

lemma decode_rewritten:
  assumes "decode ct = Ret a" "at_time (f a) = Some t" "representable t"
  shows "\<exists>ct'. rewritten f ct = Some ct' \<and> decode ct' = Ret (f a)"
proof -
  let ?ct = "encode (at_mode (f a)) (at_uid (f a)) (at_gid (f a)) t"
  have "rewritten f ct = Some ?ct" using assms(1,2) by (simp add: rewritten_def)
  moreover have "decode ?ct = Ret (f a)"
    using assms(2) unfolding decode_encode [OF assms(3)] by simp
  ultimately show ?thesis by blast
qed

lemma encode_inj:
  assumes "representable t" "representable t'" "encode m u g t = encode m' u' g' t'"
  shows "m = m' \<and> u = u' \<and> g = g' \<and> t = t'"
  using decode_encode [OF assms(2), of m' u' g']
  unfolding assms(3) [symmetric] decode_encode [OF assms(1)] by simp

end

text \<open>A 32-bit time survives the round trip through \<open>atoi\<close>.\<close>

definition time_fits :: "int \<Rightarrow> bool" where
  "time_fits t \<longleftrightarrow> - (2 ^ 31) \<le> t \<and> t < 2 ^ 31"

interpretation content_type: attribute_codec print_content_type "parse_content_type c" time_fits
  for c
proof unfold_locales
  fix t :: int and m u g :: u32
  assume "time_fits t"
  then have "- (2 ^ 63) \<le> t" "t < 2 ^ 63" "c_int t = t"
    by (simp_all add: time_fits_def c_int_id)
  then show "parse_content_type c (print_content_type m u g t) =
      Ret \<lparr>at_mode = m, at_uid = u, at_gid = g, at_time = Some t\<rparr>"
    by (simp add: parse_print_content_type)
qed

end
