(* ===== verification/Pcre.thy ===== *)
theory Pcre
  imports Prelude
begin

text \<open>
  The database matches \<open>$regex\<close> queries with Perl compatible regular expressions. The
  directory listing relies on a small part of that language, written down here from its
  documentation so that the law about listing queries can be stated: a pattern that is
  anchored at the start, a sequence of items, and an optional anchor at the end. An item is
  a plain character, a quoted one or a class that excludes one character, followed by an
  optional quantifier: \<open>*\<close>, \<open>{n}\<close>, \<open>{n,}\<close> or \<open>{n,m}\<close>. A brace that does not open a
  quantifier is a plain character. A pattern outside this part has no reading here
  (\<open>parse_pcre\<close> answers \<open>None\<close>), and the law says nothing of it.
\<close>

datatype atom = Lit char | Except char

fun atom_ok :: "atom \<Rightarrow> char \<Rightarrow> bool" where
  "atom_ok (Lit c) d = (d = c)"
| "atom_ok (Except c) d = (d \<noteq> c)"

text \<open>An atom with the least number of its repetitions and the greatest, if there is one.\<close>

type_synonym item = "atom \<times> nat \<times> nat option"

definition meta_chars :: string where
  "meta_chars = ''.^$|()[]*+?'' @ [CHR 0x5C]"

definition decimal_digit :: "char \<Rightarrow> bool" where
  "decimal_digit c \<longleftrightarrow> c \<in> set ''0123456789''"

fun decimal_value :: "nat \<Rightarrow> string \<Rightarrow> nat" where
  "decimal_value n [] = n"
| "decimal_value n (c # cs) = decimal_value (10 * n + (of_char c - 48)) cs"

text \<open>The quantifier at the head of a text, if there is one, and the text after it.\<close>

definition parse_braces :: "string \<Rightarrow> ((nat \<times> nat option) \<times> string) option" where
  "parse_braces s =
     (let ds = takeWhile decimal_digit s; r = dropWhile decimal_digit s
      in if ds = [] then None
         else case r of
           [] \<Rightarrow> None
         | c # r' \<Rightarrow>
             if c = CHR ''}'' then Some ((decimal_value 0 ds, Some (decimal_value 0 ds)), r')
             else if c = CHR '','' then
               (let es = takeWhile decimal_digit r'; q = dropWhile decimal_digit r'
                in case q of
                  [] \<Rightarrow> None
                | d # q' \<Rightarrow>
                    if d = CHR ''}'' then
                      Some ((decimal_value 0 ds,
                             if es = [] then None else Some (decimal_value 0 es)), q')
                    else None)
             else None)"

definition parse_quantifier :: "string \<Rightarrow> (nat \<times> nat option) \<times> string" where
  "parse_quantifier s =
     (case s of
        [] \<Rightarrow> ((1, Some 1), s)
      | c # r \<Rightarrow>
          if c = CHR ''*'' then ((0, None), r)
          else if c = CHR ''{'' then
            (case parse_braces r of None \<Rightarrow> ((1, Some 1), s) | Some qr \<Rightarrow> qr)
          else ((1, Some 1), s))"

definition parse_atom :: "string \<Rightarrow> (atom \<times> string) option" where
  "parse_atom s =
     (case s of
        [] \<Rightarrow> None
      | c # r \<Rightarrow>
          if c = CHR 0x5C then
            (case r of d # r' \<Rightarrow> if d \<in> set meta_chars then Some (Lit d, r') else None | [] \<Rightarrow> None)
          else if c = CHR ''['' then
            (case r of
               a # d # b # r' \<Rightarrow>
                 if a = CHR ''^'' \<and> d \<notin> set meta_chars \<and> b = CHR '']'' then Some (Except d, r')
                 else None
             | _ \<Rightarrow> None)
          else if c \<in> set meta_chars then None
          else Some (Lit c, r))"

lemma parse_quantifier_shorter: "length (snd (parse_quantifier s)) \<le> length s"
proof -
  have braces: "parse_braces r = Some (q, t) \<Longrightarrow> length t \<le> length r" for r q t
  proof -
    assume *: "parse_braces r = Some (q, t)"
    let ?d = "dropWhile decimal_digit r"
    have 1: "length ?d \<le> length r" by (rule length_dropWhile_le)
    from * obtain c r' where r: "?d = c # r'"
      by (auto simp: parse_braces_def Let_def split: if_splits list.splits)
    have 2: "length (dropWhile decimal_digit r') \<le> length r'" by (rule length_dropWhile_le)
    from * r have "t = r' \<or> (\<exists>d. dropWhile decimal_digit r' = d # t)"
      by (auto simp: parse_braces_def Let_def split: if_splits list.splits)
    with 1 2 r show ?thesis by auto
  qed
  show ?thesis
    by (cases s) (auto simp: parse_quantifier_def split: option.splits dest!: braces)
qed

lemma parse_atom_shorter: "parse_atom s = Some (a, r) \<Longrightarrow> length r < length s"
  by (auto simp: parse_atom_def split: list.splits if_splits)

text \<open>The items up to the end of the pattern, and whether the end is anchored.\<close>

function parse_items :: "string \<Rightarrow> (item list \<times> bool) option" where
  "parse_items s =
     (if s = [] then Some ([], False)
      else if s = ''$'' then Some ([], True)
      else case parse_atom s of
        None \<Rightarrow> None
      | Some (a, r) \<Rightarrow>
          (case parse_items (snd (parse_quantifier r)) of
             None \<Rightarrow> None
           | Some (items, e) \<Rightarrow> Some ((a, fst (parse_quantifier r)) # items, e)))"
  by pat_completeness auto
termination
proof (relation "measure length", goal_cases)
  case 1
  show ?case by simp
next
  case (2 s x a r)
  then have "parse_atom s = Some (a, r)" by simp
  then have "length r < length s" by (rule parse_atom_shorter)
  then show ?case using parse_quantifier_shorter [of r] by simp
qed

declare parse_items.simps [simp del]

definition parse_pcre :: "string \<Rightarrow> (item list \<times> bool) option" where
  "parse_pcre s = (case s of c # r \<Rightarrow> if c = CHR ''^'' then parse_items r else None | [] \<Rightarrow> None)"

text \<open>
  Matching, from the start of the subject. An anchor at the end also matches before a final
  line feed.
\<close>

fun match_items :: "item list \<Rightarrow> bool \<Rightarrow> string \<Rightarrow> bool" where
  "match_items [] e s = (e \<longrightarrow> s = [] \<or> s = [CHR 0x0A])"
| "match_items ((a, lo, hi) # items) e s =
     ((lo = 0 \<and> match_items items e s) \<or>
      (case s of
         [] \<Rightarrow> False
       | c # cs \<Rightarrow> hi \<noteq> Some 0 \<and> atom_ok a c \<and>
           match_items ((a, lo - 1, map_option (\<lambda>n. n - 1) hi) # items) e cs))"

declare match_items.simps(2) [simp del]

definition pcre_match :: "item list \<times> bool \<Rightarrow> string \<Rightarrow> bool" where
  "pcre_match p s = match_items (fst p) (snd p) s"

section \<open>Reading and matching the plain items\<close>

lemma match_once:
  "match_items ((a, 1, Some 1) # items) e s \<longleftrightarrow>
   (\<exists>c cs. s = c # cs \<and> atom_ok a c \<and> match_items items e cs)"
  by (cases s) (auto simp: match_items.simps split: list.splits)

lemma match_literals:
  "match_items (map (\<lambda>c. (Lit c, 1, Some 1)) cs @ items) e s \<longleftrightarrow>
   (\<exists>r. s = cs @ r \<and> match_items items e r)"
proof (induction cs arbitrary: s)
  case Nil
  then show ?case by simp
next
  case (Cons c cs)
  show ?case by (auto simp: match_once [simplified] Cons.IH [simplified])
qed

lemma match_star_end:
  assumes "\<And>c. c = CHR 0x0A \<Longrightarrow> atom_ok a c"
  shows "match_items [(a, 0, None)] True s \<longleftrightarrow> (\<forall>c \<in> set s. atom_ok a c)"
proof (induction s)
  case Nil
  then show ?case by (simp add: match_items.simps)
next
  case (Cons c cs)
  show ?case
    using assms by (auto simp: match_items.simps(2) [of a 0 None "[]" True "c # cs"] Cons.IH)
qed

lemma parse_plain_atom:
  "c \<notin> set meta_chars \<Longrightarrow> parse_atom (c # r) = Some (Lit c, r)"
  by (auto simp: parse_atom_def meta_chars_def)

lemma parse_quoted_atom:
  "c \<in> set meta_chars \<Longrightarrow> parse_atom (CHR 0x5C # c # r) = Some (Lit c, r)"
  by (simp add: parse_atom_def)

lemma parse_no_quantifier:
  "r \<noteq> [] \<Longrightarrow> hd r \<noteq> CHR ''*'' \<Longrightarrow> hd r \<noteq> CHR ''{'' \<Longrightarrow> parse_quantifier r = ((1, Some 1), r)"
  by (cases r) (auto simp: parse_quantifier_def)

lemma parse_items_Cons:
  assumes "parse_atom s = Some (a, r)" "s \<noteq> ''$''" "parse_quantifier r = (q, t)"
    and "parse_items t = Some (items, e)"
  shows "parse_items s = Some ((a, q) # items, e)"
proof -
  have "s \<noteq> []" using assms(1) by (auto simp: parse_atom_def)
  then show ?thesis by (subst parse_items.simps) (simp add: assms)
qed

end
