(* ===== verification/Backend.thy ===== *)
theory Backend
  imports Externals Pcre "HOL-Library.Multiset"
begin

text \<open>
  What the sources rely on in the code they call, as laws over two observations of the
  outside world: \<open>docs\<close>, the documents of the GridFS collection, oldest first, and
  \<open>cached\<close>, what memcached would answer for each key. The laws describe servers that
  answer: storing adds a document and never replaces one of the same name, finding gives
  the newest document of a name, removing deletes all of a name, a cursor delivers the
  names that match the expression, in any order; a cache may lose entries at any time but
  never invents one. Claims about failing servers do not use the laws: they hold for every
  \<open>env\<close>.
\<close>

section \<open>The GridFS collection\<close>

record doc =
  d_id :: oid
  d_name :: string
  d_type :: string
  d_length :: int
  d_chunk :: int
  d_data :: bytes

definition newest :: "string \<Rightarrow> doc list \<Rightarrow> doc option" where
  "newest p ds = find (\<lambda>d. d_name d = p) (rev ds)"

definition shows_doc :: "gridfile \<Rightarrow> doc option \<Rightarrow> bool" where
  "shows_doc g od = (case od of
     None \<Rightarrow> \<not> gf_exists g
   | Some d \<Rightarrow> gf_exists g \<and> gf_id g = Inr (d_id d) \<and> gf_content_type g = Inr (d_type d) \<and>
       gf_content_length g = Inr (d_length d) \<and> gf_chunk_size g = Inr (d_chunk d))"

definition apply_set :: "set_field \<Rightarrow> doc \<Rightarrow> doc" where
  "apply_set f d = (case f of
     SetContentType t \<Rightarrow> d\<lparr>d_type := t\<rparr>
   | SetLength n \<Rightarrow> d\<lparr>d_length := n\<rparr>)"

definition update_docs :: "oid \<Rightarrow> set_field \<Rightarrow> doc list \<Rightarrow> doc list" where
  "update_docs i f ds = map (\<lambda>d. if d_id d = i then apply_set f d else d) ds"

definition chunk_of :: "doc \<Rightarrow> int \<Rightarrow> bytes" where
  "chunk_of d n = take (nat (d_chunk d)) (drop (nat (n * d_chunk d)) (d_data d))"

text \<open>
  Truncating sets the length of a document and leaves its chunks: the content is what the
  length covers.
\<close>

definition sound_length :: "doc \<Rightarrow> bool" where
  "sound_length d \<longleftrightarrow> 0 \<le> d_length d \<and> d_length d \<le> int (length (d_data d))"

definition doc_content :: "doc \<Rightarrow> bytes" where
  "doc_content d = take (nat (d_length d)) (d_data d)"

lemma doc_content_full: "d_length d = int (length (d_data d)) \<Longrightarrow> doc_content d = d_data d"
  by (simp add: doc_content_def)

text \<open>What the database keeps true of its documents: unique ids, a usable chunk size.\<close>

definition wf_docs :: "doc list \<Rightarrow> bool" where
  "wf_docs ds \<longleftrightarrow> distinct (map d_id ds) \<and> (\<forall>d \<in> set ds. 0 < d_chunk d \<and> d_chunk d < 2 ^ 31)"

lemma newest_empty [simp]: "newest p [] = None"
  by (simp add: newest_def)

lemma newest_snoc: "newest p (ds @ [d]) = (if d_name d = p then Some d else newest p ds)"
  by (simp add: newest_def)

lemma newest_in: "newest p ds = Some d \<Longrightarrow> d \<in> set ds \<and> d_name d = p"
  by (induction ds rule: rev_induct) (auto simp: newest_snoc split: if_splits)

lemma newest_None_iff: "newest p ds = None \<longleftrightarrow> (\<forall>d \<in> set ds. d_name d \<noteq> p)"
  by (induction ds rule: rev_induct) (auto simp: newest_snoc)

lemma newest_remove: "newest p (filter (\<lambda>d. d_name d \<noteq> q) ds) = (if p = q then None else newest p ds)"
  by (induction ds rule: rev_induct) (auto simp: newest_snoc)

lemma apply_set_keeps [simp]:
  "d_id (apply_set f d) = d_id d" "d_name (apply_set f d) = d_name d"
  "d_chunk (apply_set f d) = d_chunk d" "d_data (apply_set f d) = d_data d"
  by (cases f; simp add: apply_set_def)+

lemma newest_update:
  "newest p (update_docs i f ds) =
   map_option (\<lambda>d. if d_id d = i then apply_set f d else d) (newest p ds)"
  by (induction ds rule: rev_induct) (auto simp: update_docs_def newest_snoc)

lemma wf_docs_update: "wf_docs ds \<Longrightarrow> wf_docs (update_docs i f ds)"
proof -
  have ids: "map d_id (update_docs i f ds) = map d_id ds" by (simp add: update_docs_def)
  show "wf_docs ds \<Longrightarrow> wf_docs (update_docs i f ds)"
    unfolding wf_docs_def ids by (auto simp: update_docs_def)
qed

lemma wf_docs_filter: "wf_docs ds \<Longrightarrow> wf_docs (filter P ds)"
  by (auto simp: wf_docs_def distinct_map_filter)

lemma wf_docs_snoc:
  "wf_docs ds \<Longrightarrow> d_id d \<notin> d_id ` set ds \<Longrightarrow> 0 < d_chunk d \<Longrightarrow> d_chunk d < 2 ^ 31 \<Longrightarrow>
   wf_docs (ds @ [d])"
  by (auto simp: wf_docs_def)

lemma same_id_same_doc:
  "wf_docs ds \<Longrightarrow> d \<in> set ds \<Longrightarrow> e \<in> set ds \<Longrightarrow> d_id d = d_id e \<Longrightarrow> d = e"
  by (auto simp: wf_docs_def distinct_map inj_on_def)

text \<open>Updating the newest document of a name changes what is found under that name only.\<close>

lemma newest_update_own:
  assumes "wf_docs ds" "newest p ds = Some d"
  shows "newest q (update_docs (d_id d) f ds) =
    (if q = p then Some (apply_set f d) else newest q ds)"
proof (cases "newest q ds")
  case None
  with assms(2) show ?thesis by (auto simp: newest_update)
next
  case (Some e)
  then have e: "e \<in> set ds" "d_name e = q" by (simp_all add: newest_in)
  have d: "d \<in> set ds" "d_name d = p" using newest_in [OF assms(2)] by simp_all
  show ?thesis
  proof (cases "q = p")
    case True
    with Some assms(2) show ?thesis by (simp add: newest_update)
  next
    case False
    with e d have "d_id e \<noteq> d_id d" using same_id_same_doc [OF assms(1) e(1) d(1)] by blast
    with False Some show ?thesis by (simp add: newest_update)
  qed
qed

section \<open>The laws\<close>

locale mongo_server =
  fixes E :: "'w env" and docs :: "'w \<Rightarrow> doc list"
  assumes conn_string_ok: "conn_string_valid E (mongo_conn_string (config E))"
    and scoped_connection_ok:
      "\<exists>w'. scoped_connection E w = (Inr (), w') \<and> docs w' = docs w"
    and open_gridfs_ok:
      "\<exists>w'. open_gridfs E db pre w = (Inr (), w') \<and> docs w' = docs w"
    and find_file_ok:
      "\<exists>g w'. find_file E p w = (Inr g, w') \<and> shows_doc g (newest p (docs w)) \<and> docs w' = docs w"
    and get_chunk_ok:
      "shows_doc g (Some d) \<Longrightarrow> d \<in> set (docs w) \<Longrightarrow> 0 \<le> n \<Longrightarrow>
       n * d_chunk d < int (length (d_data d)) \<Longrightarrow>
       \<exists>w'. get_chunk E g n w = (Inr (chunk_of d n), w') \<and> docs w' = docs w"
    and stream_file_ok:
      "shows_doc g (Some d) \<Longrightarrow> d \<in> set (docs w) \<Longrightarrow> d_length d = int (length (d_data d)) \<Longrightarrow>
       \<exists>w'. stream_file E g w = (Inr (d_data d), w') \<and> docs w' = docs w"
    and store_file_ok:
      "\<exists>i cs w'. store_file E data p ct w = (Inr (), w') \<and>
         docs w' = docs w @ [\<lparr>d_id = i, d_name = p, d_type = ct,
           d_length = int (length data), d_chunk = cs, d_data = data\<rparr>] \<and>
         i \<notin> d_id ` set (docs w) \<and> 0 < cs \<and> cs < 2 ^ 31"
    and remove_file_ok:
      "\<exists>w'. remove_file E p w = (Inr (), w') \<and> docs w' = filter (\<lambda>d. d_name d \<noteq> p) (docs w)"
    and list_files_ok:
      "parse_pcre re = Some pat \<Longrightarrow>
       \<exists>ns w'. list_files E re w = (Inr (Some \<lparr>cur_names = ns, cur_failure = None\<rparr>), w') \<and>
         mset ns = mset (map d_name (filter (\<lambda>d. pcre_match pat (d_name d)) (docs w))) \<and>
         docs w' = docs w"
    and update_file_ok:
      "\<exists>w'. update_file E (mongo_db (config E) @ ''.'' @ mongo_collection_prefix (config E) @
           ''.files'') i f w = (Inr (), w') \<and> docs w' = update_docs i f (docs w)"
    and last_error_ok:
      "\<exists>w'. last_error E w = (Inr ErrNull, w') \<and> docs w' = docs w"

text \<open>
  The two servers and the kernel together: no call to one changes what the others show,
  except that a cache entry may disappear at any time.
\<close>

locale backend = mongo_server E docs
  for E :: "'w env" and docs :: "'w \<Rightarrow> doc list" +
  fixes cached :: "'w \<Rightarrow> string \<rightharpoonup> cached_value"
  assumes mongo_keeps_cache:
      "cached (snd (scoped_connection E w)) \<subseteq>\<^sub>m cached w"
      "cached (snd (open_gridfs E db pre w)) \<subseteq>\<^sub>m cached w"
      "cached (snd (find_file E p w)) \<subseteq>\<^sub>m cached w"
      "cached (snd (get_chunk E g n w)) \<subseteq>\<^sub>m cached w"
      "cached (snd (stream_file E g w)) \<subseteq>\<^sub>m cached w"
      "cached (snd (store_file E data p ct w)) \<subseteq>\<^sub>m cached w"
      "cached (snd (remove_file E p w)) \<subseteq>\<^sub>m cached w"
      "cached (snd (list_files E re w)) \<subseteq>\<^sub>m cached w"
      "cached (snd (update_file E ns i f w)) \<subseteq>\<^sub>m cached w"
      "cached (snd (last_error E w)) \<subseteq>\<^sub>m cached w"
    and clock_keeps:
      "docs (snd (clock E w)) = docs w" "cached (snd (clock E w)) \<subseteq>\<^sub>m cached w"
    and clock_range: "- (2 ^ 63) \<le> fst (clock E w)" "fst (clock E w) < 2 ^ 63"
    and memory_ok:
      "0 < n \<Longrightarrow> \<exists>w'. map_memory E n w = (True, w') \<and> docs w' = docs w \<and> cached w' \<subseteq>\<^sub>m cached w"
      "0 < n' \<Longrightarrow> \<exists>w'. remap_memory E n n' w = (True, w') \<and> docs w' = docs w \<and> cached w' \<subseteq>\<^sub>m cached w"
    and mc_lookup_ok:
      "\<exists>w'. mc_lookup E k w = (cached w k, w') \<and> docs w' = docs w \<and> cached w' \<subseteq>\<^sub>m cached w"
    and mc_store_ok:
      "docs (mc_store E k st w) = docs w"
      "cached (mc_store E k st w) \<subseteq>\<^sub>m (cached w)(k \<mapsto> StatBytes st)"
    and mc_delete_ok:
      "docs (mc_delete E k w) = docs w"
      "cached (mc_delete E k w) \<subseteq>\<^sub>m (cached w)(k := None)"

section \<open>Evolution of the process under the laws\<close>

text \<open>
  \<open>evolves docs cached s ds s'\<close>: from \<open>s\<close> the process reached \<open>s'\<close>, where the documents are
  \<open>ds\<close>, the cache has at most lost entries, and nothing but the outside world changed.
\<close>

definition evolves ::
  "('w \<Rightarrow> doc list) \<Rightarrow> ('w \<Rightarrow> string \<rightharpoonup> cached_value) \<Rightarrow> ('w, 'x) process_scheme \<Rightarrow> doc list
    \<Rightarrow> ('w, 'x) process_scheme \<Rightarrow> bool" where
  "evolves docs cached s ds s' \<longleftrightarrow>
     docs (world s') = ds \<and> cached (world s') \<subseteq>\<^sub>m cached (world s) \<and> s' = s\<lparr>world := world s'\<rparr>"

lemma evolves_refl [simp]: "evolves docs cached s (docs (world s)) s"
  by (simp add: evolves_def)

lemma evolves_trans:
  "evolves docs cached s ds s' \<Longrightarrow> evolves docs cached s' ds' s'' \<Longrightarrow>
   evolves docs cached s ds' s''"
  unfolding evolves_def
proof (elim conjE, intro conjI)
  assume "s' = s\<lparr>world := world s'\<rparr>" "s'' = s'\<lparr>world := world s''\<rparr>"
  then have "s'' = (s\<lparr>world := world s'\<rparr>)\<lparr>world := world s''\<rparr>" by simp
  then show "s'' = s\<lparr>world := world s''\<rparr>" by simp
qed (auto intro: map_le_trans)

lemma evolves_docs: "evolves docs cached s ds s' \<Longrightarrow> docs (world s') = ds"
  by (simp add: evolves_def)

lemma evolves_cached: "evolves docs cached s ds s' \<Longrightarrow> cached (world s') \<subseteq>\<^sub>m cached (world s)"
  by (simp add: evolves_def)

lemma evolves_same:
  assumes "evolves docs cached s ds s'"
  shows "conns s' = conns s" "caches s' = caches s" "process.more s' = process.more s"
proof -
  from assms have "s' = s\<lparr>world := world s'\<rparr>" by (simp add: evolves_def)
  then show "conns s' = conns s" "caches s' = caches s" "process.more s' = process.more s"
    by (metis process.select_convs process.surjective process.update_convs(1))+
qed

lemma evolvesI:
  "docs w' = ds \<Longrightarrow> cached w' \<subseteq>\<^sub>m cached (world s) \<Longrightarrow>
   evolves docs cached s ds (s\<lparr>world := w'\<rparr>)"
  by (simp add: evolves_def)

context backend
begin

lemma call_evolves:
  assumes "f (world s) = (Inr a, w')" "docs w' = ds" "cached w' \<subseteq>\<^sub>m cached (world s)"
  shows "\<exists>s'. call f s = (Ret a, s') \<and> evolves docs cached s ds s'"
  using assms by (auto simp: call_def intro: evolvesI)

lemma scoped_connection_evolves:
  "\<exists>s'. call (scoped_connection E) s = (Ret (), s') \<and>
     evolves docs cached s (docs (world s)) s'"
  using scoped_connection_ok [of "world s"] mongo_keeps_cache(1) [of "world s"]
  by (auto intro!: call_evolves)

lemma open_gridfs_evolves:
  "\<exists>s'. call (open_gridfs E db pre) s = (Ret (), s') \<and>
     evolves docs cached s (docs (world s)) s'"
  using open_gridfs_ok [of db pre "world s"] mongo_keeps_cache(2) [of db pre "world s"]
  by (auto intro!: call_evolves)

lemma find_file_evolves:
  "\<exists>g s'. call (find_file E p) s = (Ret g, s') \<and> shows_doc g (newest p (docs (world s))) \<and>
     evolves docs cached s (docs (world s)) s'"
proof -
  obtain g w' where f: "find_file E p (world s) = (Inr g, w')"
    and g: "shows_doc g (newest p (docs (world s)))" and d: "docs w' = docs (world s)"
    using find_file_ok by blast
  from f have "cached w' \<subseteq>\<^sub>m cached (world s)" using mongo_keeps_cache(3) [of p "world s"] by simp
  from call_evolves [of "find_file E p", OF f d this] g show ?thesis by blast
qed

lemma get_chunk_evolves:
  assumes "shows_doc g (Some d)" "d \<in> set (docs (world s))" "0 \<le> n"
    and "n * d_chunk d < int (length (d_data d))"
  shows "\<exists>s'. call (get_chunk E g n) s = (Ret (chunk_of d n), s') \<and>
     evolves docs cached s (docs (world s)) s'"
proof -
  obtain w' where f: "get_chunk E g n (world s) = (Inr (chunk_of d n), w')"
    and d: "docs w' = docs (world s)"
    using get_chunk_ok [OF assms] by blast
  from f have "cached w' \<subseteq>\<^sub>m cached (world s)" using mongo_keeps_cache(4) [of g n "world s"] by simp
  from call_evolves [of "get_chunk E g n", OF f d this] show ?thesis .
qed

lemma stream_file_evolves:
  assumes "shows_doc g (Some d)" "d \<in> set (docs (world s))" "d_length d = int (length (d_data d))"
  shows "\<exists>s'. call (stream_file E g) s = (Ret (d_data d), s') \<and>
     evolves docs cached s (docs (world s)) s'"
proof -
  obtain w' where f: "stream_file E g (world s) = (Inr (d_data d), w')"
    and d: "docs w' = docs (world s)"
    using stream_file_ok [OF assms] by blast
  from f have "cached w' \<subseteq>\<^sub>m cached (world s)" using mongo_keeps_cache(5) [of g "world s"] by simp
  from call_evolves [of "stream_file E g", OF f d this] show ?thesis .
qed

lemma store_file_evolves:
  "\<exists>i cs s'. call (store_file E data p ct) s = (Ret (), s') \<and>
     evolves docs cached s (docs (world s) @ [\<lparr>d_id = i, d_name = p, d_type = ct,
       d_length = int (length data), d_chunk = cs, d_data = data\<rparr>]) s' \<and>
     i \<notin> d_id ` set (docs (world s)) \<and> 0 < cs \<and> cs < 2 ^ 31"
proof -
  obtain i cs w' where f: "store_file E data p ct (world s) = (Inr (), w')"
    and d: "docs w' = docs (world s) @ [\<lparr>d_id = i, d_name = p, d_type = ct,
       d_length = int (length data), d_chunk = cs, d_data = data\<rparr>]"
    and i: "i \<notin> d_id ` set (docs (world s))" "0 < cs" "cs < 2 ^ 31"
    using store_file_ok by blast
  from f have "cached w' \<subseteq>\<^sub>m cached (world s)"
    using mongo_keeps_cache(6) [of data p ct "world s"] by simp
  from call_evolves [of "store_file E data p ct", OF f d this] i show ?thesis by blast
qed

lemma remove_file_evolves:
  "\<exists>s'. call (remove_file E p) s = (Ret (), s') \<and>
     evolves docs cached s (filter (\<lambda>d. d_name d \<noteq> p) (docs (world s))) s'"
  using remove_file_ok [of p "world s"] mongo_keeps_cache(7) [of p "world s"]
  by (auto intro!: call_evolves)

lemma list_files_evolves:
  assumes "parse_pcre re = Some pat"
  shows "\<exists>ns s'. call (list_files E re) s = (Ret (Some \<lparr>cur_names = ns, cur_failure = None\<rparr>), s') \<and>
     mset ns = mset (map d_name (filter (\<lambda>d. pcre_match pat (d_name d)) (docs (world s)))) \<and>
     evolves docs cached s (docs (world s)) s'"
proof -
  obtain ns w' where
    f: "list_files E re (world s) = (Inr (Some \<lparr>cur_names = ns, cur_failure = None\<rparr>), w')"
    and n: "mset ns = mset (map d_name (filter (\<lambda>d. pcre_match pat (d_name d)) (docs (world s))))"
    and d: "docs w' = docs (world s)"
    using list_files_ok [OF assms] by blast
  from f have "cached w' \<subseteq>\<^sub>m cached (world s)" using mongo_keeps_cache(8) [of re "world s"] by simp
  from call_evolves [of "list_files E re", OF f d this] n show ?thesis by blast
qed

lemma update_file_evolves:
  "\<exists>s'. call (update_file E (mongo_db (config E) @ ''.'' @ mongo_collection_prefix (config E) @
       ''.files'') i f) s = (Ret (), s') \<and>
     evolves docs cached s (update_docs i f (docs (world s))) s'"
  using update_file_ok [of i f "world s"] mongo_keeps_cache(9) [of _ i f "world s"]
  by (metis (no_types, lifting) call_evolves snd_conv)

lemma last_error_evolves:
  "\<exists>s'. call (last_error E) s = (Ret ErrNull, s') \<and>
     evolves docs cached s (docs (world s)) s'"
  using last_error_ok [of "world s"] mongo_keeps_cache(10) [of "world s"]
  by (auto intro!: call_evolves)

lemma clock_evolves:
  "\<exists>t s'. c_call (clock E) s = (Ret t, s') \<and> evolves docs cached s (docs (world s)) s'"
  using clock_keeps [of "world s"]
  by (cases "clock E (world s)") (auto simp: c_call_def intro: evolvesI)

lemma map_memory_evolves:
  "0 < n \<Longrightarrow> \<exists>s'. c_call (map_memory E n) s = (Ret True, s') \<and> evolves docs cached s (docs (world s)) s'"
  using memory_ok(1) [of n "world s"] by (auto simp: c_call_def intro: evolvesI)

lemma remap_memory_evolves:
  "0 < n' \<Longrightarrow> \<exists>s'. c_call (remap_memory E n n') s = (Ret True, s') \<and>
     evolves docs cached s (docs (world s)) s'"
  using memory_ok(2) [of n' n "world s"] by (auto simp: c_call_def intro: evolvesI)

end

end
