(* ===== verification/Filesystem_Entry.thy ===== *)
theory Filesystem_Entry
  imports Content_Type Backend
begin

text \<open>
  The class \<open>FilesystemEntry\<close> of src/filesystem_entry.cpp, the base of files, directories
  and symbolic links. An object is its path and the lazily fetched \<open>mongo::GridFile\<close>; the
  derived classes extend the record, so the member functions here apply to them too. The
  scoped connection of an object is counted in the process state: the constructor takes one
  from the pool and the destructor gives it back.
\<close>

record entry =
  thePath :: string
  theGridFile :: "gridfile option"

type_synonym ('y, 'w, 'x, 'a) entry_comp =
  "('y entry_scheme \<times> ('w, 'x) process_scheme, 'a) comp"

section \<open>Construction and destruction\<close>

definition connection_string :: "'w env \<Rightarrow> ('s, unit) comp" where
  "connection_string E =
     (if conn_string_valid E (mongo_conn_string (config E)) then ret ()
      else throw (StdException ''invalid connection string: ''))"

definition take_connection :: "('w, 'x) process_scheme \<Rightarrow> ('w, 'x) process_scheme" where
  "take_connection s = s\<lparr>conns := Suc (conns s)\<rparr>"

definition drop_connection :: "('w, 'x) process_scheme \<Rightarrow> ('w, 'x) process_scheme" where
  "drop_connection s = s\<lparr>conns := conns s - 1\<rparr>"

definition new_entry :: "'w env \<Rightarrow> string \<Rightarrow> (('w, 'x) process_scheme, entry) comp" where
  "new_entry E path =
     bind (connection_string E) (\<lambda>_.
     bind (call (scoped_connection E)) (\<lambda>_.
     bind (modify take_connection) (\<lambda>_.
     bind (on_throw
        (call (open_gridfs E (mongo_db (config E)) (mongo_collection_prefix (config E))))
        drop_connection) (\<lambda>_.
     ret \<lparr>thePath = path, theGridFile = None\<rparr>))))"

section \<open>Member functions\<close>

definition gridfile :: "'w env \<Rightarrow> ('y, 'w, 'x, gridfile) entry_comp" where
  "gridfile E =
     bind this_get (\<lambda>e.
       case theGridFile e of
         Some g \<Rightarrow> ret g
       | None \<Rightarrow>
           bind (outside (call (find_file E (thePath e)))) (\<lambda>g.
           bind (this_set (\<lambda>e. e\<lparr>theGridFile := Some g\<rparr>)) (\<lambda>_.
           ret g)))"

definition entry_exists :: "'w env \<Rightarrow> ('y, 'w, 'x, bool) entry_comp" where
  "entry_exists E = bind (gridfile E) (\<lambda>g. ret (gf_exists g))"

definition stat_attrs :: "'w env \<Rightarrow> gridfile \<Rightarrow> ('s, attrs) comp" where
  "stat_attrs E g =
     bind (getter (gf_content_type g)) (\<lambda>ct. of_outcome (parse_content_type (config E) ct))"

definition stat_gridfile :: "'w env \<Rightarrow> gridfile \<Rightarrow> ('s, stat_buf) comp" where
  "stat_gridfile E g =
     bind (assert_that (ndebug E) (ret (gf_exists g))) (\<lambda>_.
     bind (stat_attrs E g) (\<lambda>a.
       let st = zero_stat\<lparr>st_mode := at_mode a, st_uid := at_uid a, st_gid := at_gid a,
           st_mtime := at_time a, st_atime := at_time a, st_ctime := at_time a\<rparr>;
         st' = (if st_mode st AND S_IFDIR \<noteq> 0 then st\<lparr>st_nlink := 2\<rparr> else st\<lparr>st_nlink := 1\<rparr>)
       in if st_mode st' AND S_IFDIR \<noteq> 0 then ret (st'\<lparr>st_size := 4096\<rparr>)
          else bind (getter (gf_content_length g)) (\<lambda>n. ret (st'\<lparr>st_size := c_off_t n\<rparr>))))"

definition entry_stat :: "'w env \<Rightarrow> ('y, 'w, 'x, stat_buf) entry_comp" where
  "entry_stat E = bind (gridfile E) (stat_gridfile E)"

definition force_reload :: "('y, 'w, 'x, unit) entry_comp" where
  "force_reload = this_set (\<lambda>e. e\<lparr>theGridFile := None\<rparr>)"

definition filesCollection :: "gridfs_config \<Rightarrow> string" where
  "filesCollection c = mongo_db c @ ''.'' @ mongo_collection_prefix c @ ''.files''"

definition synchonizeUpdate :: "'w env \<Rightarrow> (('w, 'x) process_scheme, unit) comp" where
  "synchonizeUpdate E =
     bind (call (last_error E)) (\<lambda>err.
       case err of
         ErrValue m \<Rightarrow> throw (StdException (''An update operation failed: '' @ m))
       | _ \<Rightarrow> ret ())"

definition entry_create ::
  "'w env \<Rightarrow> u32 \<Rightarrow> u32 \<Rightarrow> u32 \<Rightarrow> bytes \<Rightarrow> ('y, 'w, 'x, unit) entry_comp" where
  "entry_create E mode uid gid content =
     bind (outside (c_call (clock E))) (\<lambda>t.
     bind this_get (\<lambda>e.
     bind (outside (call (store_file E content (thePath e) (print_content_type mode uid gid t)))) (\<lambda>_.
     bind (outside (synchonizeUpdate E)) (\<lambda>_.
     force_reload))))"

definition entry_remove :: "'w env \<Rightarrow> ('y, 'w, 'x, unit) entry_comp" where
  "entry_remove E =
     bind this_get (\<lambda>e.
     bind (outside (call (remove_file E (thePath e)))) (\<lambda>_.
     outside (synchonizeUpdate E)))"

text \<open>Printing an uninitialised time is a fault.\<close>

definition updateContentType ::
  "'w env \<Rightarrow> gridfile \<Rightarrow> u32 \<Rightarrow> u32 \<Rightarrow> u32 \<Rightarrow> int option \<Rightarrow> ('y, 'w, 'x, unit) entry_comp" where
  "updateContentType E g mode uid gid time =
     (case time of
        None \<Rightarrow> fault Uninitialised
      | Some t \<Rightarrow>
          bind (getter (gf_id g)) (\<lambda>i.
          bind (outside (call (update_file E (filesCollection (config E)) i
            (SetContentType (print_content_type mode uid gid t))))) (\<lambda>_.
          outside (synchonizeUpdate E))))"

definition entry_chown :: "'w env \<Rightarrow> u32 \<Rightarrow> u32 \<Rightarrow> ('y, 'w, 'x, unit) entry_comp" where
  "entry_chown E uid gid =
     bind (gridfile E) (\<lambda>g.
     bind (stat_attrs E g) (\<lambda>a.
     bind (gridfile E) (\<lambda>g.
     updateContentType E g (at_mode a) uid gid (at_time a))))"

definition entry_chmod :: "'w env \<Rightarrow> u32 \<Rightarrow> ('y, 'w, 'x, unit) entry_comp" where
  "entry_chmod E mode =
     bind (gridfile E) (\<lambda>g.
     bind (stat_attrs E g) (\<lambda>a.
     bind (gridfile E) (\<lambda>g.
     updateContentType E g mode (at_uid a) (at_gid a) (at_time a))))"

definition entry_utimes :: "'w env \<Rightarrow> int \<Rightarrow> ('y, 'w, 'x, unit) entry_comp" where
  "entry_utimes E time =
     bind (gridfile E) (\<lambda>g.
     bind (stat_attrs E g) (\<lambda>a.
     bind (gridfile E) (\<lambda>g.
     updateContentType E g (at_mode a) (at_uid a) (at_gid a) (Some time))))"

section \<open>Resources: only construction and destruction move connections\<close>

lemma keeps_gridfile [keeps_intros]: "world_free P \<Longrightarrow> keeps (away P) (gridfile E)"
  unfolding gridfile_def by (auto intro!: keeps_intros split: option.split)

lemma keeps_entry_exists [keeps_intros]: "world_free P \<Longrightarrow> keeps (away P) (entry_exists E)"
  unfolding entry_exists_def by (intro keeps_intros)

lemma keeps_stat_attrs [keeps_intros]: "keeps P (stat_attrs E g)"
  unfolding stat_attrs_def by (intro keeps_intros)

lemma keeps_stat_gridfile [keeps_intros]: "keeps P (stat_gridfile E g)"
  unfolding stat_gridfile_def Let_def by (intro keeps_intros)

lemma keeps_entry_stat [keeps_intros]: "world_free P \<Longrightarrow> keeps (away P) (entry_stat E)"
  unfolding entry_stat_def by (intro keeps_intros)

lemma keeps_force_reload [keeps_intros]: "keeps (away P) force_reload"
  unfolding force_reload_def by (intro keeps_intros)

lemma keeps_synchonizeUpdate [keeps_intros]: "world_free P \<Longrightarrow> keeps P (synchonizeUpdate E)"
  unfolding synchonizeUpdate_def by (auto intro!: keeps_intros split: err_field.split)

lemma keeps_entry_create [keeps_intros]:
  "world_free P \<Longrightarrow> keeps (away P) (entry_create E mode uid gid content)"
  unfolding entry_create_def by (intro keeps_intros)

lemma keeps_entry_remove [keeps_intros]: "world_free P \<Longrightarrow> keeps (away P) (entry_remove E)"
  unfolding entry_remove_def by (intro keeps_intros)

lemma keeps_updateContentType [keeps_intros]:
  "world_free P \<Longrightarrow> keeps (away P) (updateContentType E g mode uid gid time)"
  unfolding updateContentType_def by (auto intro!: keeps_intros split: option.split)

lemma keeps_entry_chown [keeps_intros]: "world_free P \<Longrightarrow> keeps (away P) (entry_chown E uid gid)"
  unfolding entry_chown_def by (intro keeps_intros)

lemma keeps_entry_chmod [keeps_intros]: "world_free P \<Longrightarrow> keeps (away P) (entry_chmod E mode)"
  unfolding entry_chmod_def by (intro keeps_intros)

lemma keeps_entry_utimes [keeps_intros]: "world_free P \<Longrightarrow> keeps (away P) (entry_utimes E time)"
  unfolding entry_utimes_def by (intro keeps_intros)

section \<open>Attributes of a document\<close>

text \<open>What \<open>stat\<close> answers for a document of the collection.\<close>

definition stat_of_doc :: "gridfs_config \<Rightarrow> doc \<Rightarrow> stat_buf outcome" where
  "stat_of_doc c d = (case parse_content_type c (d_type d) of
     Ret a \<Rightarrow>
       Ret \<lparr>st_mode = at_mode a, st_nlink = (if at_mode a AND S_IFDIR \<noteq> 0 then 2 else 1),
         st_uid = at_uid a, st_gid = at_gid a,
         st_size = (if at_mode a AND S_IFDIR \<noteq> 0 then 4096 else c_off_t (d_length d)),
         st_atime = at_time a, st_mtime = at_time a, st_ctime = at_time a\<rparr>
   | Throw e \<Rightarrow> Throw e
   | Fault x \<Rightarrow> Fault x
   | Exit n \<Rightarrow> Exit n)"

lemma parse_loop_outcomes: "(\<exists>a'. parse_loop a x = Ret a') \<or> parse_loop a x = Fault NullDeref"
proof (induction a x rule: parse_loop.induct)
  case (1 a)
  then show ?case by simp
next
  case (2 a tok rest)
  then show ?case
    by (subst (1 2) parse_loop.simps(2)) (auto split: option.split)
qed

lemma parse_content_type_outcomes:
  "(\<exists>a. parse_content_type c ct = Ret a) \<or> parse_content_type c ct = Fault NullDeref"
  unfolding parse_content_type_def by (rule parse_loop_outcomes)

lemma stat_attrs_run:
  assumes "shows_doc g (Some d)"
  shows "stat_attrs E g s = (parse_content_type (config E) (d_type d), s)"
  using assms by (simp add: stat_attrs_def shows_doc_def comp_simps)

lemma stat_gridfile_run:
  assumes "shows_doc g (Some d)"
  shows "stat_gridfile E g s = (stat_of_doc (config E) d, s)"
proof -
  have ex: "gf_exists g" "gf_content_length g = Inr (d_length d)"
    using assms by (simp_all add: shows_doc_def)
  have a: "assert_that (ndebug E) (ret (gf_exists g)) = ret ()"
    by (simp add: ex comp_simps)
  show ?thesis
    using parse_content_type_outcomes [of "config E" "d_type d"]
    by (auto simp: stat_gridfile_def a comp_simps ex bind_def stat_attrs_run [OF assms]
        stat_of_doc_def zero_stat_def Let_def)
qed

section \<open>The member functions under the laws\<close>

text \<open>The fetched document is the one that the collection has under the path.\<close>

definition current :: "doc list \<Rightarrow> 'y entry_scheme \<Rightarrow> bool" where
  "current ds e \<longleftrightarrow> (\<forall>g. theGridFile e = Some g \<longrightarrow> shows_doc g (newest (thePath e) ds))"

definition fetched :: "doc list \<Rightarrow> 'y entry_scheme \<Rightarrow> 'y entry_scheme \<Rightarrow> bool" where
  "fetched ds e e' \<longleftrightarrow>
     (\<exists>g. e' = e\<lparr>theGridFile := Some g\<rparr> \<and> shows_doc g (newest (thePath e) ds))"

lemma fetched_current: "fetched ds e e' \<Longrightarrow> current ds e' \<and> thePath e' = thePath e"
  by (auto simp: fetched_def current_def)

lemma fetched_trans: "fetched ds e e' \<Longrightarrow> fetched ds e' e'' \<Longrightarrow> fetched ds e e''"
  by (auto simp: fetched_def)

context backend
begin

lemma new_entry_run:
  "\<exists>s'. new_entry E path s = (Ret \<lparr>thePath = path, theGridFile = None\<rparr>, take_connection s') \<and>
     evolves docs cached s (docs (world s)) s'"
proof -
  let ?db = "mongo_db (config E)" and ?pre = "mongo_collection_prefix (config E)"
  obtain s1 where 1: "call (scoped_connection E) s = (Ret (), s1)"
    "evolves docs cached s (docs (world s)) s1"
    using scoped_connection_evolves by blast
  obtain s2 where 2: "call (open_gridfs E ?db ?pre) (take_connection s1) = (Ret (), s2)"
    "evolves docs cached (take_connection s1) (docs (world (take_connection s1))) s2"
    using open_gridfs_evolves by blast
  have "docs (world (take_connection s1)) = docs (world s)"
    using evolves_docs [OF 1(2)] by (simp add: take_connection_def)
  then have "evolves docs cached s1 (docs (world s)) (s1\<lparr>world := world s2\<rparr>)"
    using 2(2) by (simp add: evolves_def take_connection_def)
  moreover have "s2 = take_connection (s1\<lparr>world := world s2\<rparr>)"
  proof -
    have "s2 = (take_connection s1)\<lparr>world := world s2\<rparr>" using 2(2) by (simp only: evolves_def)
    also have "\<dots> = take_connection (s1\<lparr>world := world s2\<rparr>)" by (simp add: take_connection_def)
    finally show ?thesis .
  qed
  moreover from calculation(1) have "evolves docs cached s (docs (world s)) (s1\<lparr>world := world s2\<rparr>)"
    using evolves_trans [OF 1(2)] by blast
  moreover have "new_entry E path s = (Ret \<lparr>thePath = path, theGridFile = None\<rparr>, s2)"
    using 1(1) 2(1)
    by (simp add: new_entry_def connection_string_def conn_string_ok comp_simps bind_def on_throw_def)
  ultimately show ?thesis by metis
qed

lemma gridfile_run:
  assumes "current (docs (world s)) e"
  shows "\<exists>g e' s'. gridfile E (e, s) = (Ret g, (e', s')) \<and>
     shows_doc g (newest (thePath e) (docs (world s))) \<and> theGridFile e' = Some g \<and>
     fetched (docs (world s)) e e' \<and> evolves docs cached s (docs (world s)) s'"
proof (cases "theGridFile e")
  case (Some g)
  then have "shows_doc g (newest (thePath e) (docs (world s)))"
    using assms by (simp add: current_def)
  moreover from Some have "e\<lparr>theGridFile := Some g\<rparr> = e" by simp
  moreover from Some have "gridfile E (e, s) = (Ret g, (e, s))"
    by (simp add: gridfile_def bind_def comp_simps)
  ultimately show ?thesis using Some by (auto simp: fetched_def intro!: exI [of _ g])
next
  case None
  obtain g s' where "call (find_file E (thePath e)) s = (Ret g, s')"
    "shows_doc g (newest (thePath e) (docs (world s)))" "evolves docs cached s (docs (world s)) s'"
    using find_file_evolves by blast
  with None show ?thesis
    by (auto simp: gridfile_def bind_def comp_simps fetched_def)
qed

lemma entry_exists_run:
  assumes "current (docs (world s)) e"
  shows "\<exists>e' s'. entry_exists E (e, s) =
      (Ret (newest (thePath e) (docs (world s)) \<noteq> None), (e', s')) \<and>
     fetched (docs (world s)) e e' \<and> evolves docs cached s (docs (world s)) s'"
proof -
  obtain g e' s' where g: "gridfile E (e, s) = (Ret g, (e', s'))"
    "shows_doc g (newest (thePath e) (docs (world s)))"
    "fetched (docs (world s)) e e'" "evolves docs cached s (docs (world s)) s'"
    using gridfile_run [OF assms] by blast
  have "gf_exists g = (newest (thePath e) (docs (world s)) \<noteq> None)"
    using g(2) by (auto simp: shows_doc_def split: option.splits)
  with g show ?thesis by (auto simp: entry_exists_def bind_def ret_def)
qed

lemma entry_stat_run:
  assumes "current (docs (world s)) e" "newest (thePath e) (docs (world s)) = Some d"
  shows "\<exists>e' s'. entry_stat E (e, s) = (stat_of_doc (config E) d, (e', s')) \<and>
     fetched (docs (world s)) e e' \<and> evolves docs cached s (docs (world s)) s'"
proof -
  obtain g e' s' where "gridfile E (e, s) = (Ret g, (e', s'))" "shows_doc g (Some d)"
    "fetched (docs (world s)) e e'" "evolves docs cached s (docs (world s)) s'"
    using gridfile_run [OF assms(1)] assms(2) by auto
  then show ?thesis by (auto simp: entry_stat_def bind_def stat_gridfile_run)
qed

lemma synchonizeUpdate_run:
  "\<exists>s'. synchonizeUpdate E s = (Ret (), s') \<and> evolves docs cached s (docs (world s)) s'"
  using last_error_evolves [of s] by (auto simp: synchonizeUpdate_def bind_def ret_def)

lemma entry_create_run:
  "\<exists>t i cs s'. entry_create E mode uid gid content (e, s) =
      (Ret (), (e\<lparr>theGridFile := None\<rparr>, s')) \<and>
     evolves docs cached s (docs (world s) @
       [\<lparr>d_id = i, d_name = thePath e, d_type = print_content_type mode uid gid t,
         d_length = int (length content), d_chunk = cs, d_data = content\<rparr>]) s' \<and>
     i \<notin> d_id ` set (docs (world s)) \<and> 0 < cs \<and> cs < 2 ^ 31 \<and> t = fst (clock E (world s))"
proof -
  obtain t s1 where 1: "c_call (clock E) s = (Ret t, s1)"
    "evolves docs cached s (docs (world s)) s1"
    using clock_evolves by blast
  then have t: "t = fst (clock E (world s))"
    by (simp add: c_call_def split: prod.splits)
  let ?ct = "print_content_type mode uid gid t"
  obtain i cs s2 where 2: "call (store_file E content (thePath e) ?ct) s1 = (Ret (), s2)"
    "evolves docs cached s1 (docs (world s1) @ [\<lparr>d_id = i, d_name = thePath e, d_type = ?ct,
       d_length = int (length content), d_chunk = cs, d_data = content\<rparr>]) s2"
    "i \<notin> d_id ` set (docs (world s1))" "0 < cs" "cs < 2 ^ 31"
    using store_file_evolves by blast
  obtain s3 where 3: "synchonizeUpdate E s2 = (Ret (), s3)"
    "evolves docs cached s2 (docs (world s2)) s3"
    using synchonizeUpdate_run by blast
  note d1 = evolves_docs [OF 1(2)] and d2 = evolves_docs [OF 2(2)]
  have "entry_create E mode uid gid content (e, s) = (Ret (), (e\<lparr>theGridFile := None\<rparr>, s3))"
    using 1(1) 2(1) 3(1)
    by (simp add: entry_create_def bind_def comp_simps force_reload_def)
  moreover have "evolves docs cached s (docs (world s2)) s3"
    using evolves_trans [OF 1(2) evolves_trans [OF 2(2) 3(2)]] .
  ultimately show ?thesis using 2(3-5) t unfolding d1 d2 by blast
qed

lemma entry_remove_run:
  "\<exists>s'. entry_remove E (e, s) = (Ret (), (e, s')) \<and>
     evolves docs cached s (filter (\<lambda>d. d_name d \<noteq> thePath e) (docs (world s))) s'"
proof -
  obtain s1 where 1: "call (remove_file E (thePath e)) s = (Ret (), s1)"
    "evolves docs cached s (filter (\<lambda>d. d_name d \<noteq> thePath e) (docs (world s))) s1"
    using remove_file_evolves by blast
  obtain s2 where 2: "synchonizeUpdate E s1 = (Ret (), s2)"
    "evolves docs cached s1 (docs (world s1)) s2"
    using synchonizeUpdate_run by blast
  have "entry_remove E (e, s) = (Ret (), (e, s2))"
    using 1(1) 2(1) by (simp add: entry_remove_def bind_def comp_simps)
  with evolves_trans [OF 1(2) 2(2)] evolves_docs [OF 1(2)] show ?thesis by auto
qed

lemma updateContentType_run:
  assumes "shows_doc g (Some d)"
  shows "\<exists>s'. updateContentType E g mode uid gid (Some t) (e, s) = (Ret (), (e, s')) \<and>
     evolves docs cached s (update_docs (d_id d)
       (SetContentType (print_content_type mode uid gid t)) (docs (world s))) s'"
proof -
  let ?f = "SetContentType (print_content_type mode uid gid t)"
  have i: "gf_id g = Inr (d_id d)" using assms by (simp add: shows_doc_def)
  obtain s1 where 1: "call (update_file E (filesCollection (config E)) (d_id d) ?f) s = (Ret (), s1)"
    "evolves docs cached s (update_docs (d_id d) ?f (docs (world s))) s1"
    using update_file_evolves unfolding filesCollection_def by blast
  obtain s2 where 2: "synchonizeUpdate E s1 = (Ret (), s2)"
    "evolves docs cached s1 (docs (world s1)) s2"
    using synchonizeUpdate_run by blast
  have "updateContentType E g mode uid gid (Some t) (e, s) = (Ret (), (e, s2))"
    using 1(1) 2(1) by (simp add: updateContentType_def i bind_def comp_simps)
  with evolves_trans [OF 1(2) 2(2)] evolves_docs [OF 1(2)] show ?thesis by auto
qed

text \<open>
  The three updates of attributes have one shape: read the attributes of the document,
  change some, write them back.
\<close>

definition changes_attrs ::
  "('y, 'w, 'x, unit) entry_comp \<Rightarrow> (attrs \<Rightarrow> attrs) \<Rightarrow> bool" where
  "changes_attrs m f \<longleftrightarrow> (\<forall>e s d a t. current (docs (world s)) e \<longrightarrow>
     newest (thePath e) (docs (world s)) = Some d \<longrightarrow>
     parse_content_type (config E) (d_type d) = Ret a \<longrightarrow> at_time (f a) = Some t \<longrightarrow>
     (\<exists>e' s'. m (e, s) = (Ret (), (e', s')) \<and>
        evolves docs cached s (update_docs (d_id d) (SetContentType
          (print_content_type (at_mode (f a)) (at_uid (f a)) (at_gid (f a)) t))
          (docs (world s))) s'))"

lemma changes_attrsI:
  fixes m :: "('y, 'w, 'x, unit) entry_comp"
  assumes "m = bind (gridfile E) (\<lambda>g. bind (stat_attrs E g) (\<lambda>a. bind (gridfile E) (\<lambda>g.
      updateContentType E g (at_mode (f a)) (at_uid (f a)) (at_gid (f a)) (at_time (f a)))))"
  shows "changes_attrs m f"
  unfolding changes_attrs_def
proof (intro allI impI)
  fix e :: "'y entry_scheme" and s :: "('w, 'x) process_scheme" and d a t
  assume cur: "current (docs (world s)) e" and d: "newest (thePath e) (docs (world s)) = Some d"
    and a: "parse_content_type (config E) (d_type d) = Ret a" and t: "at_time (f a) = Some t"
  let ?ds = "docs (world s)"
  let ?mode = "at_mode (f a)" and ?uid = "at_uid (f a)" and ?gid = "at_gid (f a)"
  let ?f = "SetContentType (print_content_type ?mode ?uid ?gid t)"
  obtain g e1 s1 where 1: "gridfile E (e, s) = (Ret g, (e1, s1))" "shows_doc g (Some d)"
    "theGridFile e1 = Some g" "evolves docs cached s ?ds s1"
    using gridfile_run [OF cur] d by auto
  from 1(3) have 2: "gridfile E (e1, s1) = (Ret g, (e1, s1))"
    by (simp add: gridfile_def bind_def comp_simps)
  obtain s2 where 3: "updateContentType E g ?mode ?uid ?gid (Some t) (e1, s1) = (Ret (), (e1, s2))"
    "evolves docs cached s1 (update_docs (d_id d) ?f (docs (world s1))) s2"
    using updateContentType_run [OF 1(2)] by blast
  have "m (e, s) = (Ret (), (e1, s2))"
    unfolding assms using 1(1) 2 3(1) t
    by (simp add: bind_def stat_attrs_run [OF 1(2)] a)
  with evolves_trans [OF 1(4) 3(2)] evolves_docs [OF 1(4)]
  show "\<exists>e' s'. m (e, s) = (Ret (), (e', s')) \<and> evolves docs cached s (update_docs (d_id d) ?f ?ds) s'"
    by auto
qed

lemma entry_chmod_changes: "changes_attrs (entry_chmod E mode) (\<lambda>a. a\<lparr>at_mode := mode\<rparr>)"
  by (rule changes_attrsI) (simp add: entry_chmod_def)

lemma entry_chown_changes:
  "changes_attrs (entry_chown E uid gid) (\<lambda>a. a\<lparr>at_uid := uid, at_gid := gid\<rparr>)"
  by (rule changes_attrsI) (simp add: entry_chown_def)

lemma entry_utimes_changes:
  "changes_attrs (entry_utimes E time) (\<lambda>a. a\<lparr>at_time := Some time\<rparr>)"
  by (rule changes_attrsI) (simp add: entry_utimes_def)

end

end
