(* ===== verification/Directory.thy ===== *)
theory Directory
  imports Filesystem_Entry
begin

text \<open>
  The class \<open>Directory\<close> of src/directory.cpp: a directory holds the entries whose path is
  its own followed by a slash and a name without one. The database selects them with a
  regular expression that is built from the path (\<open>pathregex\<close> quotes the special
  characters). A directory object is a plain \<open>entry\<close>.
\<close>

section \<open>The class\<close>

definition regex_special :: "char \<Rightarrow> bool" where
  "regex_special c \<longleftrightarrow> c \<in> {CHR ''.'', CHR ''^'', CHR ''$'', CHR ''|'', CHR ''('', CHR '')'',
     CHR ''['', CHR '']'', CHR ''*'', CHR ''+'', CHR ''?'', CHR 0x5C}"

fun pathregex :: "string \<Rightarrow> string" where
  "pathregex [] = []"
| "pathregex (c # cs) = (if regex_special c then CHR 0x5C # c # pathregex cs else c # pathregex cs)"

definition list_regex :: "string \<Rightarrow> string" where
  "list_regex path = ''^'' @ pathregex path @ ''/[^/]*$''"

definition directory_cursor :: "'w env \<Rightarrow> ('y, 'w, 'x, cursor option) entry_comp" where
  "directory_cursor E =
     bind this_get (\<lambda>e. outside (call (list_files E (list_regex (thePath e)))))"

text \<open>
  The filler is the callback of the FUSE library that adds a name to the reply; its result
  is ignored. \<open>fill\<close> is one call of it.
\<close>

definition fill :: "(string \<Rightarrow> 'w \<Rightarrow> 'w) \<Rightarrow> string \<Rightarrow> (('w, 'x) process_scheme, unit) comp" where
  "fill filler name = c_call (\<lambda>w. ((), filler (c_str name) w))"

text \<open>
  The loop of \<open>Directory::list\<close> over the cursor: \<open>seen\<close> is the set \<open>lEntries\<close>, \<open>pos\<close> the
  position of the name in a path; \<open>substr\<close> raises past the end.
\<close>

fun list_loop ::
  "(string \<Rightarrow> 'w \<Rightarrow> 'w) \<Rightarrow> nat \<Rightarrow> string list \<Rightarrow> string list \<Rightarrow> exn option
    \<Rightarrow> (('w, 'x) process_scheme, unit) comp" where
  "list_loop filler pos seen [] failure =
     (case failure of None \<Rightarrow> ret () | Some e \<Rightarrow> throw e)"
| "list_loop filler pos seen (n # ns) failure =
     (let lFilePath = c_str n
      in if lFilePath \<in> set seen then list_loop filler pos seen ns failure
         else if length lFilePath < pos then throw (StdException ''out_of_range'')
         else bind (fill filler (drop pos lFilePath))
                (\<lambda>_. list_loop filler pos (lFilePath # seen) ns failure))"

definition directory_list ::
  "'w env \<Rightarrow> (string \<Rightarrow> 'w \<Rightarrow> 'w) \<Rightarrow> ('y, 'w, 'x, unit) entry_comp" where
  "directory_list E filler =
     bind (directory_cursor E) (\<lambda>lFileEntries.
     bind this_get (\<lambda>e.
     bind (outside (fill filler ''.'')) (\<lambda>_.
     bind (outside (fill filler ''..'')) (\<lambda>_.
       case lFileEntries of
         None \<Rightarrow> fault NullDeref
       | Some c \<Rightarrow>
           outside (list_loop filler (length (thePath e) + 1) [] (cur_names c) (cur_failure c))))))"

definition directory_isEmpty :: "'w env \<Rightarrow> ('y, 'w, 'x, bool) entry_comp" where
  "directory_isEmpty E =
     bind (directory_cursor E) (\<lambda>lFileEntries.
       case lFileEntries of
         None \<Rightarrow> fault NullDeref
       | Some c \<Rightarrow>
           (if cur_names c \<noteq> [] then ret False
            else case cur_failure c of None \<Rightarrow> ret True | Some e \<Rightarrow> throw e))"

lemma keeps_fill [keeps_intros]: "world_free P \<Longrightarrow> keeps P (fill filler n)"
  unfolding fill_def by (intro keeps_intros)

lemma keeps_list_loop [keeps_intros]:
  assumes "world_free P"
  shows "keeps P (list_loop filler pos seen ns failure)"
proof (induction ns arbitrary: seen)
  case Nil
  then show ?case by (auto intro!: keeps_intros split: option.split)
next
  case (Cons n ns)
  then show ?case using assms by (auto simp: Let_def intro!: keeps_intros)
qed

lemma keeps_directory_cursor [keeps_intros]:
  "world_free P \<Longrightarrow> keeps (away P) (directory_cursor E)"
  unfolding directory_cursor_def by (intro keeps_intros)

lemma keeps_directory_list [keeps_intros]:
  "world_free P \<Longrightarrow> keeps (away P) (directory_list E filler)"
  unfolding directory_list_def by (auto intro!: keeps_intros split: option.split)

lemma keeps_directory_isEmpty [keeps_intros]:
  "world_free P \<Longrightarrow> keeps (away P) (directory_isEmpty E)"
  unfolding directory_isEmpty_def by (auto intro!: keeps_intros split: option.split)

section \<open>What the expression matches\<close>

text \<open>\<open>child path nm q\<close>: \<open>q\<close> is the entry called \<open>nm\<close> in the directory \<open>path\<close>.\<close>

definition child :: "string \<Rightarrow> string \<Rightarrow> string \<Rightarrow> bool" where
  "child path nm q \<longleftrightarrow> q = path @ ''/'' @ nm \<and> CHR ''/'' \<notin> set nm"

lemma regex_special_meta: "regex_special c \<longleftrightarrow> c \<in> set meta_chars"
  by (simp add: regex_special_def meta_chars_def)

abbreviation literals :: "string \<Rightarrow> item list" where
  "literals s \<equiv> map (\<lambda>c. (Lit c, 1, Some 1)) s"

definition child_pattern :: "string \<Rightarrow> item list" where
  "child_pattern path = literals path @ [(Lit (CHR ''/''), 1, Some 1), (Except (CHR ''/''), 0, None)]"

lemma parse_suffix:
  "parse_items ''/[^/]*$'' = Some ([(Lit (CHR ''/''), 1, Some 1), (Except (CHR ''/''), 0, None)], True)"
proof -
  have 1: "parse_items ''$'' = Some ([], True)"
    by (subst parse_items.simps) simp
  have 2: "parse_atom ''[^/]*$'' = Some (Except (CHR ''/''), ''*$'')"
    "parse_quantifier ''*$'' = ((0, None), ''$'')"
    by (simp_all add: parse_atom_def parse_quantifier_def meta_chars_def)
  have 3: "parse_atom ''/[^/]*$'' = Some (Lit (CHR ''/''), ''[^/]*$'')"
    "parse_quantifier ''[^/]*$'' = ((1, Some 1), ''[^/]*$'')"
    by (simp_all add: parse_atom_def parse_quantifier_def meta_chars_def)
  have 4: "parse_items ''[^/]*$'' = Some ([(Except (CHR ''/''), 0, None)], True)"
    by (rule parse_items_Cons [OF 2(1) _ 2(2) 1]) simp
  show ?thesis
    by (rule parse_items_Cons [OF 3(1) _ 3(2) 4]) simp
qed

lemma pathregex_head:
  assumes "CHR ''{'' \<notin> set cs"
  shows "hd (pathregex cs @ ''/[^/]*$'') \<noteq> CHR ''*''"
    and "hd (pathregex cs @ ''/[^/]*$'') \<noteq> CHR ''{''"
proof -
  have "hd (pathregex cs @ ''/[^/]*$'') \<notin> {CHR ''*'', CHR ''{''}"
  proof (cases cs)
    case Nil
    then show ?thesis by simp
  next
    case (Cons c r)
    have star: "regex_special (CHR ''*'')" by (simp add: regex_special_def)
    show ?thesis
    proof (cases "regex_special c")
      case True
      then show ?thesis by (simp add: Cons)
    next
      case False
      then have "c \<noteq> CHR ''*''" using star by blast
      moreover have "c \<noteq> CHR ''{''" using assms Cons by auto
      ultimately show ?thesis using False by (simp add: Cons)
    qed
  qed
  then show "hd (pathregex cs @ ''/[^/]*$'') \<noteq> CHR ''*''"
    and "hd (pathregex cs @ ''/[^/]*$'') \<noteq> CHR ''{''" by simp_all
qed

lemma parse_pathregex:
  assumes "CHR ''{'' \<notin> set path"
  shows "parse_items (pathregex path @ ''/[^/]*$'') = Some (child_pattern path, True)"
  using assms
proof (induction path)
  case Nil
  then show ?case by (simp add: parse_suffix child_pattern_def)
next
  case (Cons c cs)
  let ?r = "pathregex cs @ ''/[^/]*$''"
  have q: "parse_quantifier ?r = ((1, Some 1), ?r)"
    using pathregex_head [of cs] Cons.prems by (intro parse_no_quantifier) auto
  have IH: "parse_items ?r = Some (child_pattern cs, True)"
    using Cons by simp
  have atom: "parse_atom (pathregex (c # cs) @ ''/[^/]*$'') = Some (Lit c, ?r)"
    by (simp add: parse_quoted_atom parse_plain_atom regex_special_meta)
  show ?case
    using parse_items_Cons [OF atom _ q IH] by (simp add: child_pattern_def)
qed

lemma parse_list_regex:
  "CHR ''{'' \<notin> set path \<Longrightarrow> parse_pcre (list_regex path) = Some (child_pattern path, True)"
  by (simp add: parse_pcre_def list_regex_def parse_pathregex)

lemma match_child:
  "pcre_match (child_pattern path, True) q \<longleftrightarrow> (\<exists>nm. child path nm q)"
proof -
  have star: "match_items [(Except (CHR ''/''), 0, None)] True r \<longleftrightarrow> CHR ''/'' \<notin> set r" for r
    by (subst match_star_end) auto
  have slash: "match_items [(Lit (CHR ''/''), 1, Some 1), (Except (CHR ''/''), 0, None)] True r
      \<longleftrightarrow> (\<exists>nm. r = CHR ''/'' # nm \<and> CHR ''/'' \<notin> set nm)" for r
    by (subst match_once) (auto simp: star)
  show ?thesis
    unfolding pcre_match_def child_pattern_def fst_conv snd_conv match_literals slash
    by (auto simp: child_def)
qed

section \<open>The loop\<close>

text \<open>The names that the loop passes on: of the distinct paths, in the order of the cursor.\<close>

fun new_names :: "nat \<Rightarrow> string list \<Rightarrow> string list \<Rightarrow> string list" where
  "new_names pos seen [] = []"
| "new_names pos seen (n # ns) =
     (if n \<in> set seen then new_names pos seen ns else drop pos n # new_names pos (n # seen) ns)"

definition fills :: "(string \<Rightarrow> 'w \<Rightarrow> 'w) \<Rightarrow> string list \<Rightarrow> 'w \<Rightarrow> 'w" where
  "fills filler ns w = fold filler ns w"

lemma c_str_drop: "CHR 0x00 \<notin> set n \<Longrightarrow> c_str (drop k n) = drop k n"
  by (rule c_str_id) (meson in_set_dropD)

lemma list_loop_run:
  assumes "\<forall>n \<in> set ns. pos \<le> length n \<and> CHR 0x00 \<notin> set n"
  shows "list_loop filler pos seen ns None s =
    (Ret (), s\<lparr>world := fills filler (new_names pos seen ns) (world s)\<rparr>)"
  using assms
proof (induction ns arbitrary: seen s)
  case Nil
  then show ?case by (simp add: comp_simps fills_def)
next
  case (Cons n ns)
  then have n: "c_str n = n" "c_str (drop pos n) = drop pos n" "\<not> length n < pos"
    by (auto simp: c_str_id c_str_drop)
  show ?case
    using Cons by (simp add: n Let_def bind_def fill_def c_call_def fills_def)
qed

lemma new_names_eq:
  "new_names pos seen ns = map (drop pos) (rev (fold (\<lambda>n acc. if n \<in> set seen \<or> n \<in> set acc
     then acc else n # acc) ns []))"
proof -
  have gen: "\<lbrakk>\<forall>x. x \<in> set seen' \<longleftrightarrow> x \<in> set seen \<or> x \<in> set acc\<rbrakk> \<Longrightarrow>
      map (drop pos) (rev acc) @ new_names pos seen' ns =
      map (drop pos) (rev (fold (\<lambda>n acc. if n \<in> set seen \<or> n \<in> set acc then acc else n # acc) ns acc))"
    for seen' acc
  proof (induction ns arbitrary: seen' acc)
    case Nil
    then show ?case by simp
  next
    case (Cons n ns)
    show ?case
    proof (cases "n \<in> set seen'")
      case True
      then show ?thesis using Cons.IH [of seen' acc] Cons.prems by auto
    next
      case False
      then show ?thesis using Cons.IH [of "n # seen'" "n # acc"] Cons.prems by auto
    qed
  qed
  show ?thesis using gen [of seen "[]"] by simp
qed

lemma fold_distinct:
  "distinct acc \<Longrightarrow>
   distinct (fold (\<lambda>n acc. if n \<in> set acc then acc else n # acc) ns acc) \<and>
   set (fold (\<lambda>n acc. if n \<in> set acc then acc else n # acc) ns acc) = set ns \<union> set acc"
  by (induction ns arbitrary: acc) auto

text \<open>Distinct names of children stay distinct, and each child's name appears.\<close>

lemma new_names_children:
  assumes "\<forall>n \<in> set ns. \<exists>nm. child path nm n"
  shows "distinct (new_names (length path + 1) [] ns)"
    and "set (new_names (length path + 1) [] ns) = {nm. \<exists>n \<in> set ns. child path nm n}"
proof -
  let ?f = "fold (\<lambda>n acc. if n \<in> set acc then acc else n # acc) ns []"
  have eq: "new_names (length path + 1) [] ns = map (drop (length path + 1)) (rev ?f)"
    by (simp add: new_names_eq)
  have f: "distinct ?f" "set ?f = set ns" using fold_distinct [of "[]" ns] by auto
  have drop: "child path nm n \<Longrightarrow> drop (length path + 1) n = nm" for nm n
    by (simp add: child_def)
  have "inj_on (drop (length path + 1)) (set ?f)"
    unfolding f(2)
  proof (rule inj_onI)
    fix x y assume "x \<in> set ns" "y \<in> set ns" and d: "drop (length path + 1) x = drop (length path + 1) y"
    with assms obtain a b where "child path a x" "child path b y" by blast
    with d drop show "x = y" by (simp add: child_def)
  qed
  with f(1) show "distinct (new_names (length path + 1) [] ns)"
    unfolding eq by (simp add: distinct_map)
  show "set (new_names (length path + 1) [] ns) = {nm. \<exists>n \<in> set ns. child path nm n}"
    unfolding eq using assms drop by (force simp: f(2))
qed

section \<open>Listing under the laws\<close>

text \<open>The names of the entries of a directory.\<close>

definition children :: "string \<Rightarrow> doc list \<Rightarrow> string set" where
  "children path ds = {nm. \<exists>d \<in> set ds. child path nm (d_name d)}"

definition c_names :: "doc list \<Rightarrow> bool" where
  "c_names ds \<longleftrightarrow> (\<forall>d \<in> set ds. CHR 0x00 \<notin> set (d_name d))"

lemma child_unique: "child path nm q \<Longrightarrow> child path nm' q \<Longrightarrow> nm = nm'"
  by (simp add: child_def)

text \<open>The answer of the database decides whether a directory counts as empty.\<close>

definition matched :: "item list \<times> bool \<Rightarrow> doc list \<Rightarrow> bool" where
  "matched pat ds \<longleftrightarrow> (\<exists>d \<in> set ds. pcre_match pat (d_name d))"

lemma matched_children: "matched (child_pattern path, True) ds \<longleftrightarrow> children path ds \<noteq> {}"
  by (auto simp: matched_def match_child children_def)

context backend
begin

lemma directory_cursor_run:
  assumes "CHR ''{'' \<notin> set (thePath e)"
  shows "\<exists>ns s'. directory_cursor E (e, s) =
      (Ret (Some \<lparr>cur_names = ns, cur_failure = None\<rparr>), (e, s')) \<and>
     set ns = d_name ` {d \<in> set (docs (world s)). \<exists>nm. child (thePath e) nm (d_name d)} \<and>
     evolves docs cached s (docs (world s)) s' \<and>
     world s' = snd (list_files E (list_regex (thePath e)) (world s))"
proof -
  obtain ns s' where 1: "call (list_files E (list_regex (thePath e))) s =
      (Ret (Some \<lparr>cur_names = ns, cur_failure = None\<rparr>), s')"
    "mset ns = mset (map d_name (filter (\<lambda>d. pcre_match (child_pattern (thePath e), True) (d_name d))
       (docs (world s))))"
    "evolves docs cached s (docs (world s)) s'"
    using list_files_evolves [OF parse_list_regex [OF assms]] by blast
  from 1(2) have "set ns = set (map d_name (filter (\<lambda>d. \<exists>nm. child (thePath e) nm (d_name d))
       (docs (world s))))"
    unfolding match_child by (rule mset_eq_setD)
  moreover have "world s' = snd (list_files E (list_regex (thePath e)) (world s))"
    using 1(1) by (auto simp: call_def split: prod.splits sum.splits)
  ultimately show ?thesis using 1(1,3) by (auto simp: directory_cursor_def bind_def comp_simps)
qed

lemma directory_isEmpty_run:
  assumes "parse_pcre (list_regex (thePath e)) = Some pat"
  shows "\<exists>s'. directory_isEmpty E (e, s) = (Ret (\<not> matched pat (docs (world s))), (e, s')) \<and>
     evolves docs cached s (docs (world s)) s'"
proof -
  obtain ns s' where 1: "call (list_files E (list_regex (thePath e))) s =
      (Ret (Some \<lparr>cur_names = ns, cur_failure = None\<rparr>), s')"
    "mset ns = mset (map d_name (filter (\<lambda>d. pcre_match pat (d_name d)) (docs (world s))))"
    "evolves docs cached s (docs (world s)) s'"
    using list_files_evolves [OF assms] by blast
  from 1(2) have "set ns = set (map d_name (filter (\<lambda>d. pcre_match pat (d_name d)) (docs (world s))))"
    by (rule mset_eq_setD)
  then have "(ns = []) = (\<not> matched pat (docs (world s)))"
    by (auto simp: matched_def set_empty [symmetric] simp del: set_empty)
  with 1(1,3) show ?thesis
    by (auto simp: directory_isEmpty_def directory_cursor_def bind_def comp_simps)
qed

lemma directory_list_run:
  assumes "CHR ''{'' \<notin> set (thePath e)" "c_names (docs (world s))"
  shows "\<exists>ns s0 s'. directory_list E filler (e, s) = (Ret (), (e, s')) \<and>
     distinct ns \<and> set ns = children (thePath e) (docs (world s)) \<and>
     evolves docs cached s (docs (world s)) s0 \<and>
     world s0 = snd (list_files E (list_regex (thePath e)) (world s)) \<and>
     s' = s0\<lparr>world := fills filler (''.'' # ''..'' # ns) (world s0)\<rparr>"
proof -
  let ?pos = "length (thePath e) + 1"
  obtain ns s0 where 1: "directory_cursor E (e, s) =
      (Ret (Some \<lparr>cur_names = ns, cur_failure = None\<rparr>), (e, s0))"
    "set ns = d_name ` {d \<in> set (docs (world s)). \<exists>nm. child (thePath e) nm (d_name d)}"
    "evolves docs cached s (docs (world s)) s0"
    "world s0 = snd (list_files E (list_regex (thePath e)) (world s))"
    using directory_cursor_run [OF assms(1)] by blast
  have kids: "\<forall>n \<in> set ns. \<exists>nm. child (thePath e) nm n" using 1(2) by auto
  have ok: "\<forall>n \<in> set ns. ?pos \<le> length n \<and> CHR 0x00 \<notin> set n"
    using 1(2) assms(2) by (force simp: child_def c_names_def)
  let ?s1 = "s0\<lparr>world := filler ''..'' (filler ''.'' (world s0))\<rparr>"
  have "list_loop filler ?pos [] ns None ?s1 =
      (Ret (), ?s1\<lparr>world := fills filler (new_names ?pos [] ns) (world ?s1)\<rparr>)"
    by (rule list_loop_run [OF ok])
  moreover have "c_str ''.'' = ''.''" "c_str ''..'' = ''..''" by (simp_all add: c_str_def)
  ultimately have "directory_list E filler (e, s) =
      (Ret (), (e, s0\<lparr>world := fills filler (''.'' # ''..'' # new_names ?pos [] ns) (world s0)\<rparr>))"
    using 1(1) by (simp add: directory_list_def bind_def comp_simps fill_def c_call_def fills_def)
  moreover have "set (new_names ?pos [] ns) = children (thePath e) (docs (world s))"
    unfolding new_names_children(2) [OF kids] children_def 1(2)
    by (auto dest: child_unique)
  ultimately show ?thesis using new_names_children(1) [OF kids] 1(3,4) by blast
qed

end

end
