(* ===== verification/Proc.thy ===== *)
theory Proc
  imports Directory
begin

text \<open>
  The class \<open>Proc\<close> of src/proc.h and src/proc.cpp, the tree \<open>/proc/instances\<close> through which
  memcached servers are added at run time, with \<open>is_proc\<close> of src/filesystem_operations.cpp
  that decides which paths belong to it.
\<close>

section \<open>Paths of the tree\<close>

text \<open>
  \<open>aPath.compare(0, lMin, lProcPrefix)\<close> compares the first \<open>lMin\<close> characters with the
  whole prefix.
\<close>

definition is_proc :: "gridfs_config \<Rightarrow> string \<Rightarrow> bool" where
  "is_proc c aPath =
     (let lProcPrefix = path_prefix c @ ''/proc'';
          lProcPrefixSize = length lProcPrefix;
          lPathSize = length aPath;
          lMin = min lPathSize lProcPrefixSize
      in if lPathSize = 0 then False
         else take lMin aPath = lProcPrefix \<and>
           (if lPathSize > lProcPrefixSize then aPath ! lProcPrefixSize = CHR ''/'' else True))"

lemma prefix_test:
  assumes "pre \<noteq> []"
  shows "p \<noteq> [] \<and> take (min (length p) (length pre)) p = pre \<and>
      (length p > length pre \<longrightarrow> p ! length pre = c) \<longleftrightarrow> p = pre \<or> (\<exists>r. p = pre @ c # r)"
    (is "?l \<longleftrightarrow> ?r")
proof
  assume l: ?l
  then have "length pre \<le> length p" by (metis length_take min.cobounded1 min.absorb_iff2 min.commute)
  then have pre: "take (length pre) p = pre" using l by (simp add: min_absorb2)
  show ?r
  proof (cases "length p > length pre")
    case True
    with l have "p ! length pre = c" by blast
    with True have "drop (length pre) p = c # drop (Suc (length pre)) p"
      by (metis Cons_nth_drop_Suc)
    with pre have "p = pre @ c # drop (Suc (length pre)) p"
      by (metis append_take_drop_id)
    then show ?thesis by blast
  next
    case False
    with pre show ?thesis by simp
  qed
next
  assume ?r
  with assms show ?l by auto
qed

lemma is_proc_iff:
  "is_proc c p \<longleftrightarrow> p = path_prefix c @ ''/proc'' \<or> (\<exists>r. p = path_prefix c @ ''/proc'' @ ''/'' @ r)"
proof -
  have "is_proc c p \<longleftrightarrow> p \<noteq> [] \<and>
      take (min (length p) (length (path_prefix c @ ''/proc''))) p = path_prefix c @ ''/proc'' \<and>
      (length p > length (path_prefix c @ ''/proc'') \<longrightarrow>
        p ! length (path_prefix c @ ''/proc'') = CHR ''/'')"
    by (simp add: is_proc_def Let_def)
  also have "\<dots> \<longleftrightarrow> p = path_prefix c @ ''/proc'' \<or>
      (\<exists>r. p = (path_prefix c @ ''/proc'') @ CHR ''/'' # r)"
    by (rule prefix_test) simp
  finally show ?thesis by simp
qed

section \<open>The class\<close>

datatype proc_type = ROOT | INSTANCES | LIST_INSTANCES

text \<open>The constructor leaves \<open>theType\<close> uninitialised for any other path: \<open>None\<close>.\<close>

record proc =
  proc_path :: string
  theType :: "proc_type option"
  thePrefixLength :: nat

definition new_proc :: "gridfs_config \<Rightarrow> string \<Rightarrow> proc" where
  "new_proc c aPath =
     (let lProc = path_prefix c @ ''/proc'';
          lProcInst = path_prefix c @ ''/proc/instances'';
          lProcInstList = path_prefix c @ ''/proc/instances/''
      in \<lparr>proc_path = aPath,
          theType =
            (if aPath = lProc then Some ROOT
             else if aPath = lProcInst then Some INSTANCES
             else if take (length lProcInstList) aPath = lProcInstList then Some LIST_INSTANCES
             else None),
          thePrefixLength = length lProcInstList\<rparr>)"

text \<open>The name of the server at a position as \<open>listServers\<close> prints it.\<close>

definition server_entry :: "'w env \<Rightarrow> nat \<Rightarrow> 'w \<Rightarrow> string" where
  "server_entry E i w = server_name E i w @ '':'' @ dec_int (server_port E i w)"

fun servers_loop ::
  "'w env \<Rightarrow> (string \<Rightarrow> 'w \<Rightarrow> 'w) \<Rightarrow> nat list \<Rightarrow> (('w, 'x) process_scheme, unit) comp" where
  "servers_loop E filler [] = ret ()"
| "servers_loop E filler (i # is) =
     bind (c_call (\<lambda>w. (server_entry E i w, w))) (\<lambda>lServerName.
     bind (fill filler lServerName) (\<lambda>_.
     servers_loop E filler is))"

definition listServers ::
  "'w env \<Rightarrow> (string \<Rightarrow> 'w \<Rightarrow> 'w) \<Rightarrow> (('w, 'x) process_scheme, unit) comp" where
  "listServers E filler =
     bind (c_call (\<lambda>w. (server_count E w, w))) (\<lambda>lNumServers.
     servers_loop E filler [0..<lNumServers])"

definition proc_list ::
  "'w env \<Rightarrow> (string \<Rightarrow> 'w \<Rightarrow> 'w) \<Rightarrow> proc \<Rightarrow> (('w, 'x) process_scheme, unit) comp" where
  "proc_list E filler p =
     bind (fill filler ''.'') (\<lambda>_.
     bind (fill filler ''..'') (\<lambda>_.
       case theType p of
         None \<Rightarrow> fault Uninitialised
       | Some ROOT \<Rightarrow> fill filler ''instances''
       | Some INSTANCES \<Rightarrow> listServers E filler
       | Some LIST_INSTANCES \<Rightarrow> assert_that (ndebug E) (ret False)))"

definition proc_stat :: "'w env \<Rightarrow> proc \<Rightarrow> stat_buf \<Rightarrow> ('s, stat_buf) comp" where
  "proc_stat E p st =
     bind (case theType p of
         None \<Rightarrow> fault Uninitialised
       | Some ROOT \<Rightarrow> ret (st\<lparr>st_mode := S_IFDIR\<rparr>)
       | Some INSTANCES \<Rightarrow> ret (st\<lparr>st_mode := S_IFDIR\<rparr>)
       | Some LIST_INSTANCES \<Rightarrow> ret (st\<lparr>st_mode := S_IFREG\<rparr>)) (\<lambda>st.
     ret (st\<lparr>st_uid := default_uid (config E), st_gid := default_gid (config E)\<rparr>))"

text \<open>\<open>find_last_of\<close>\<close>

fun find_last :: "char \<Rightarrow> string \<Rightarrow> nat option" where
  "find_last c [] = None"
| "find_last c (x # xs) = (case find_last c xs of
     Some i \<Rightarrow> Some (Suc i)
   | None \<Rightarrow> if x = c then Some 0 else None)"

definition default_port :: int where "default_port = 11211"

text \<open>The server that a path names: its host and its port, if the part after the colon is there.\<close>

definition parse_server :: "string \<Rightarrow> (string \<times> int) option" where
  "parse_server lNewServer = (case find_last (CHR '':'') lNewServer of
     None \<Rightarrow> Some (lNewServer, default_port)
   | Some lIndexOfColon \<Rightarrow>
       (if lIndexOfColon \<ge> length lNewServer - 1 then None
        else Some (take lIndexOfColon lNewServer,
          atoi (c_str (drop (lIndexOfColon + 1) lNewServer)))))"

fun known_server :: "'w env \<Rightarrow> string \<Rightarrow> int \<Rightarrow> nat list \<Rightarrow> 'w \<Rightarrow> bool" where
  "known_server E name port [] w = False"
| "known_server E name port (i # is) w =
     (if name = server_name E i w \<and> port = server_port E i w then True
      else known_server E name port is w)"

text \<open>The port parameter of \<open>memcached_server_add\<close> has 16 bits.\<close>

definition proc_create :: "'w env \<Rightarrow> proc \<Rightarrow> (('w, 'x) process_scheme, bool) comp" where
  "proc_create E p =
     (if length (proc_path p) < thePrefixLength p then throw (StdException ''out_of_range'')
      else case parse_server (drop (thePrefixLength p) (proc_path p)) of
        None \<Rightarrow> ret False
      | Some (lNewServer, lNewPort) \<Rightarrow>
          bind (c_call (\<lambda>w. (known_server E lNewServer lNewPort [0..<server_count E w] w, w))) (\<lambda>known.
            if known then ret False
            else bind (c_call (\<lambda>w. ((), server_add E (c_str lNewServer) (c_uint16 lNewPort) w)))
                   (\<lambda>_. ret True)))"

lemma keeps_servers_loop [keeps_intros]: "world_free P \<Longrightarrow> keeps P (servers_loop E filler is)"
  by (induction "is") (auto intro!: keeps_intros)

lemma keeps_proc_list [keeps_intros]: "world_free P \<Longrightarrow> keeps P (proc_list E filler p)"
  unfolding proc_list_def listServers_def
  by (auto intro!: keeps_intros split: option.split proc_type.split)

lemma keeps_proc_stat [keeps_intros]: "keeps P (proc_stat E p st)"
  unfolding proc_stat_def by (auto intro!: keeps_intros split: option.split proc_type.split)

lemma keeps_proc_create [keeps_intros]: "world_free P \<Longrightarrow> keeps P (proc_create E p)"
  unfolding proc_create_def by (auto intro!: keeps_intros split: option.split)

section \<open>Names of servers\<close>

lemma find_last_None: "find_last c xs = None \<longleftrightarrow> c \<notin> set xs"
  by (induction xs) (auto split: option.splits)

lemma find_last_append: "c \<notin> set ys \<Longrightarrow> find_last c (xs @ c # ys) = Some (length xs)"
  by (induction xs) (auto simp: find_last_None split: option.splits)

text \<open>\<open>host:port\<close> is read back from what \<open>listServers\<close> prints.\<close>

lemma dec_int_colon: "CHR '':'' \<notin> set (dec_int i)"
  using dec_int_no_separator [of "CHR '':''" i] by blast

lemma parse_server_entry:
  assumes "- (2 ^ 63) \<le> port" "port < 2 ^ 63"
  shows "parse_server (host @ '':'' @ dec_int port) = Some (host, c_int port)"
proof -
  have "find_last (CHR '':'') (host @ '':'' @ dec_int port) = Some (length host)"
    using find_last_append [OF dec_int_colon, of host port] by simp
  moreover have "dec_int port \<noteq> []" by (rule dec_int_nonempty)
  moreover have "atoi (c_str (dec_int port)) = c_int port"
    using assms by (simp add: c_str_id dec_int_no_NUL atoi_dec_int)
  ultimately show ?thesis by (simp add: parse_server_def)
qed

lemma parse_server_plain:
  assumes "CHR '':'' \<notin> set host"
  shows "parse_server host = Some (host, default_port)"
proof -
  have "find_last (CHR '':'') host = None" using assms by (simp only: find_last_None not_False_eq_True)
  then show ?thesis by (simp add: parse_server_def)
qed

lemma parse_server_no_port: "parse_server (host @ '':'') = None"
  using find_last_append [of "CHR '':''" "[]" host] by (simp add: parse_server_def)

section \<open>The list of servers\<close>

text \<open>
  The list of libmemcached that the class reads and appends to. The law of \<open>server_add\<close> is
  stated for host names that are not empty and no path of a socket, and for ports that are
  not zero, which the library replaces by defaults.
\<close>

definition plain_server :: "string \<times> int \<Rightarrow> bool" where
  "plain_server sv \<longleftrightarrow> fst sv \<noteq> [] \<and> hd (fst sv) \<noteq> CHR ''/'' \<and> CHR 0x00 \<notin> set (fst sv) \<and>
     0 < snd sv \<and> snd sv < 2 ^ 16"

definition show_server :: "string \<times> int \<Rightarrow> string" where
  "show_server sv = fst sv @ '':'' @ dec_int (snd sv)"

locale server_list =
  fixes E :: "'w env" and servers :: "'w \<Rightarrow> (string \<times> int) list"
  assumes count: "server_count E w = length (servers w)"
    and name: "i < length (servers w) \<Longrightarrow> server_name E i w = fst (servers w ! i)"
    and port: "i < length (servers w) \<Longrightarrow> server_port E i w = snd (servers w ! i)"
    and add: "plain_server sv \<Longrightarrow> servers (server_add E (fst sv) (snd sv) w) = servers w @ [sv]"
begin

lemma known_server_at:
  assumes "\<forall>i \<in> set is. i < length (servers w)"
  shows "known_server E n p is w \<longleftrightarrow> (\<exists>i \<in> set is. servers w ! i = (n, p))"
  using assms by (induction "is") (auto simp: name port prod_eq_iff)

lemma known_server_iff:
  "known_server E n p [0..<server_count E w] w \<longleftrightarrow> (n, p) \<in> set (servers w)"
  using known_server_at [of "[0..<server_count E w]" w n p]
  by (auto simp: count in_set_conv_nth)

lemma proc_create_run:
  assumes "length (proc_path pr) \<ge> thePrefixLength pr"
    and "parse_server (drop (thePrefixLength pr) (proc_path pr)) = Some sv" "plain_server sv"
  shows "\<exists>s'. proc_create E pr s = (Ret (sv \<notin> set (servers (world s))), s') \<and>
    servers (world s') = (if sv \<in> set (servers (world s)) then servers (world s)
      else servers (world s) @ [sv])"
proof -
  obtain n p where sv: "sv = (n, p)" by (cases sv)
  have n: "c_str n = n" "c_uint16 p = p"
    using assms(3) by (auto simp: plain_server_def sv c_str_id c_uint16_id)
  show ?thesis
    using assms(1,2) known_server_iff [of n p "world s"] add [OF assms(3), of "world s"]
    by (simp add: proc_create_def bind_run c_call_def comp_simps sv n)
qed

lemma servers_loop_run:
  assumes "\<And>n w. servers (filler n w) = servers w" "\<forall>i \<in> set is. i < length (servers (world s))"
    and "\<forall>sv \<in> set (servers (world s)). CHR 0x00 \<notin> set (fst sv)"
  shows "servers_loop E filler is s = (Ret (),
    s\<lparr>world := fills filler (map (\<lambda>i. show_server (servers (world s) ! i)) is) (world s)\<rparr>)"
  using assms(2,3)
proof (induction "is" arbitrary: s)
  case Nil
  then show ?case by (simp add: comp_simps fills_def)
next
  case (Cons i "is")
  let ?n = "show_server (servers (world s) ! i)"
  have e: "server_entry E i (world s) = ?n"
    using Cons.prems by (simp add: server_entry_def show_server_def name port)
  have "CHR 0x00 \<notin> set ?n"
    using Cons.prems by (simp add: show_server_def dec_int_no_NUL)
  then have c: "c_str ?n = ?n" by (rule c_str_id)
  let ?s1 = "s\<lparr>world := filler ?n (world s)\<rparr>"
  have "servers_loop E filler is ?s1 = (Ret (),
      ?s1\<lparr>world := fills filler (map (\<lambda>i. show_server (servers (world ?s1) ! i)) is) (world ?s1)\<rparr>)"
    using Cons.prems by (intro Cons.IH) (simp_all add: assms(1))
  then show ?case
    by (simp add: bind_run c_call_def fill_def e c assms(1) fills_def)
qed

lemma listServers_run:
  assumes "\<And>n w. servers (filler n w) = servers w"
    and "\<forall>sv \<in> set (servers (world s)). CHR 0x00 \<notin> set (fst sv)"
  shows "listServers E filler s = (Ret (),
    s\<lparr>world := fills filler (map show_server (servers (world s))) (world s)\<rparr>)"
proof -
  have "map (\<lambda>i. show_server (servers (world s) ! i)) [0..<length (servers (world s))] =
      map show_server (servers (world s))"
    by (rule nth_equalityI) simp_all
  moreover have "servers_loop E filler [0..<length (servers (world s))] s = (Ret (),
    s\<lparr>world := fills filler (map (\<lambda>i. show_server (servers (world s) ! i))
      [0..<length (servers (world s))]) (world s)\<rparr>)"
    by (rule servers_loop_run [OF assms(1) _ assms(2)]) auto
  ultimately show ?thesis by (simp add: listServers_def bind_run c_call_def count)
qed

end

text \<open>A server is found again under the name that the directory shows.\<close>

lemma parse_show_server: "plain_server sv \<Longrightarrow> parse_server (show_server sv) = Some sv"
proof -
  assume p: "plain_server sv"
  then have "- (2 ^ 63) \<le> snd sv" "snd sv < 2 ^ 63" "c_int (snd sv) = snd sv"
    by (auto simp: plain_server_def intro!: c_int_id)
  then show ?thesis using parse_server_entry [of "snd sv" "fst sv"] by (simp add: show_server_def)
qed

end
