(* ===== verification/Symlink.thy ===== *)
theory Symlink
  imports Filesystem_Entry
begin

text \<open>
  The class \<open>Symlink\<close> of src/symlink.cpp: the target of a link is the content of its
  document, and \<open>read\<close> copies it to a buffer of \<open>sz\<close> bytes. A symlink object is a plain
  \<open>entry\<close>.
\<close>

text \<open>
  The result is what is written to the buffer: the copied bytes and the terminating NUL. The
  string that \<open>c_str\<close> points to ends in a NUL of its own; reading beyond it or writing
  beyond the buffer is a fault.
\<close>

definition symlink_read :: "'w env \<Rightarrow> int \<Rightarrow> ('y, 'w, 'x, bytes) entry_comp" where
  "symlink_read E sz =
     bind (gridfile E) (\<lambda>g.
     bind (getter (gf_content_length g)) (\<lambda>n.
     let len = c_size_t n in
     bind (gridfile E) (\<lambda>g.
     bind (outside (call (stream_file E g))) (\<lambda>content.
     let aligned_length = (if len \<ge> sz then c_size_t (sz - 1) else len) in
     if nat aligned_length \<le> length content + 1 \<and> aligned_length < sz
     then ret (take (nat aligned_length) (content @ [CHR 0x00]) @ [CHR 0x00])
     else fault OutOfBounds))))"

lemma keeps_symlink_read [keeps_intros]: "world_free P \<Longrightarrow> keeps (away P) (symlink_read E sz)"
  unfolding symlink_read_def Let_def by (intro keeps_intros)

context backend
begin

lemma symlink_read_run:
  assumes "current (docs (world s)) e" "newest (thePath e) (docs (world s)) = Some d"
    and len: "d_length d = int (length (d_data d))" "d_length d < 2 ^ 64"
    and sz: "0 < sz" "sz < 2 ^ 64"
  shows "\<exists>e' s'. symlink_read E sz (e, s) =
      (Ret (take (nat (sz - 1)) (d_data d) @ [CHR 0x00]), (e', s')) \<and>
     evolves docs cached s (docs (world s)) s'"
proof -
  let ?ds = "docs (world s)"
  obtain g e1 s1 where 1: "gridfile E (e, s) = (Ret g, (e1, s1))" "shows_doc g (Some d)"
    "theGridFile e1 = Some g" "evolves docs cached s ?ds s1"
    using gridfile_run [OF assms(1)] assms(2) by auto
  have again: "gridfile E (e1, s1) = (Ret g, (e1, s1))"
    using 1(3) by (simp add: gridfile_def bind_run comp_simps)
  have n: "gf_content_length g = Inr (d_length d)" using 1(2) by (simp add: shows_doc_def)
  have d1: "docs (world s1) = ?ds" using evolves_docs [OF 1(4)] .
  have "d \<in> set (docs (world s1))" using newest_in [OF assms(2)] by (simp add: d1)
  then obtain s2 where 2: "call (stream_file E g) s1 = (Ret (d_data d), s2)"
    "evolves docs cached s1 (docs (world s1)) s2"
    using stream_file_evolves [OF 1(2) _ len(1)] by blast
  have casts: "c_size_t (d_length d) = d_length d" "c_size_t (sz - 1) = sz - 1"
    using len sz by (auto intro!: c_size_t_id)
  have "symlink_read E sz (e, s) = (Ret (take (nat (sz - 1)) (d_data d) @ [CHR 0x00]), (e1, s2))"
  proof (cases "sz \<le> d_length d")
    case True
    then have "nat (sz - 1) \<le> length (d_data d)" using len(1) by linarith
    with True show ?thesis
      using 1(1) again 2(1) by (simp add: symlink_read_def bind_run comp_simps n casts Let_def)
  next
    case False
    then have "length (d_data d) \<le> nat (sz - 1)" using len(1) by linarith
    with False show ?thesis
      using 1(1) again 2(1) len(1)
      by (simp add: symlink_read_def bind_run comp_simps n casts casts [unfolded len(1)] Let_def)
  qed
  with evolves_trans [OF 1(4) 2(2)] d1 show ?thesis by auto
qed

end

text \<open>A buffer without room for the terminating NUL is overrun, whatever the environment.\<close>

lemma symlink_read_no_room:
  assumes "theGridFile e = Some g" "gf_content_length g = Inr n"
    and "stream_file E g (world s) = (Inr content, w)"
  shows "\<exists>s'. symlink_read E 0 (e, s) = (Fault OutOfBounds, s')"
proof -
  have "gridfile E (e, s) = (Ret g, (e, s))"
    using assms(1) by (simp add: gridfile_def bind_run comp_simps)
  moreover have "call (stream_file E g) s = (Ret content, s\<lparr>world := w\<rparr>)"
    by (rule call_Inr) (rule assms(3))
  moreover have "0 \<le> c_size_t x" for x by (simp add: c_size_t_def)
  ultimately show ?thesis
    using assms(2) by (simp add: symlink_read_def bind_run comp_simps Let_def not_less)
qed

end
