(* ===== verification/File_Entry.thy ===== *)
theory File_Entry
  imports Filesystem_Entry
begin

text \<open>
  The class \<open>File\<close> of src/file.cpp with the scoped lock of src/lock.h. Writing goes to
  anonymous memory that grows by the chunk size and is stored as one GridFS file at the end;
  only writing at the end of what was written is allowed. Reading takes the pieces from the
  chunks of the GridFS file, with the last chunk kept in the object. Sizes and offsets are
  integers; the casts of the code are written where the code has them.
\<close>

section \<open>The object\<close>

text \<open>\<open>NoMapping\<close> stands for the null pointer and for a pointer whose memory was unmapped.\<close>

datatype mapping = NoMapping | MapFailed | Mapped bytes

record file_obj = entry +
  theFileLength :: int
  theChunkSize :: int
  theWritten :: int
  theCurrentDataSize :: int
  theData :: mapping
  theHasChanges :: bool
  theCachedChunkN :: int
  theCachedChunk :: "bytes option"
  mutex_read :: bool

type_synonym ('y, 'w, 'x, 'a) file_comp =
  "('y file_obj_scheme \<times> ('w, 'x) process_scheme, 'a) comp"

definition file_of_entry :: "entry \<Rightarrow> file_obj" where
  "file_of_entry e = \<lparr>thePath = thePath e, theGridFile = theGridFile e, theFileLength = 0,
     theChunkSize = 0, theWritten = 0, theCurrentDataSize = 0, theData = NoMapping,
     theHasChanges = False, theCachedChunkN = - 1, theCachedChunk = None, mutex_read = False\<rparr>"

definition new_file :: "'w env \<Rightarrow> string \<Rightarrow> (('w, 'x) process_scheme, file_obj) comp" where
  "new_file E path = bind (new_entry E path) (\<lambda>e. ret (file_of_entry e))"

section \<open>Memory\<close>

text \<open>Fresh anonymous memory is filled with zeros, and so is what \<open>mremap\<close> adds.\<close>

definition zeros :: "int \<Rightarrow> bytes" where
  "zeros n = replicate (nat n) (CHR 0x00)"

definition resize :: "bytes \<Rightarrow> int \<Rightarrow> bytes" where
  "resize bs n = take (nat n) (bs @ zeros (n - int (length bs)))"

definition init_memory :: "'w env \<Rightarrow> ('y, 'w, 'x, unit) file_comp" where
  "init_memory E =
     bind this_get (\<lambda>f.
     bind (outside (c_call (map_memory E (theChunkSize f)))) (\<lambda>ok.
       if ok then
         bind (this_set (\<lambda>f. f\<lparr>theData := Mapped (zeros (theChunkSize f))\<rparr>)) (\<lambda>_.
         this_set (\<lambda>f. f\<lparr>theCurrentDataSize := theChunkSize f\<rparr>))
       else
         bind (this_set (\<lambda>f. f\<lparr>theData := MapFailed\<rparr>)) (\<lambda>_.
         throw (StdException ''Allocating virtual memory by the kernel failed.''))))"

text \<open>\<open>mremap\<close> of an address that is no mapping fails.\<close>

definition extend_memory :: "'w env \<Rightarrow> ('y, 'w, 'x, unit) file_comp" where
  "extend_memory E =
     bind this_get (\<lambda>f.
     let new_size = c_size_t (theCurrentDataSize f + theChunkSize f) in
     bind (outside (c_call (remap_memory E (theCurrentDataSize f) new_size))) (\<lambda>ok.
       case theData f of
         Mapped bs \<Rightarrow>
           (if ok then
              bind (this_set (\<lambda>f. f\<lparr>theData := Mapped (resize bs new_size)\<rparr>)) (\<lambda>_.
              this_set (\<lambda>f. f\<lparr>theCurrentDataSize := new_size\<rparr>))
            else
              bind (this_set (\<lambda>f. f\<lparr>theData := MapFailed\<rparr>)) (\<lambda>_.
              throw (StdException ''Extending virtual memory by the kernel failed.'')))
       | _ \<Rightarrow>
           bind (this_set (\<lambda>f. f\<lparr>theData := MapFailed\<rparr>)) (\<lambda>_.
           throw (StdException ''Extending virtual memory by the kernel failed.''))))"

definition free_memory :: "('y, 'w, 'x, unit) file_comp" where
  "free_memory =
     this_set (\<lambda>f.
       if theCurrentDataSize f \<noteq> 0
       then f\<lparr>theData := NoMapping, theWritten := 0, theHasChanges := False, theCurrentDataSize := 0\<rparr>
       else f)"

section \<open>Writing\<close>

text \<open>\<open>while (theCurrentDataSize < (offset + size)) extend_memory();\<close>\<close>

fun extend_loop :: "'w env \<Rightarrow> nat \<Rightarrow> int \<Rightarrow> ('y, 'w, 'x, unit) file_comp" where
  "extend_loop E 0 target = fault NoFuel"
| "extend_loop E (Suc fuel) target =
     bind this_get (\<lambda>f.
       if theCurrentDataSize f < target
       then bind (extend_memory E) (\<lambda>_. extend_loop E fuel target)
       else ret ())"

text \<open>\<open>memcpy(((char*)theData) + offset, data, size)\<close>\<close>

definition copy_in :: "bytes \<Rightarrow> int \<Rightarrow> ('y, 'w, 'x, unit) file_comp" where
  "copy_in data offset =
     bind this_get (\<lambda>f.
       case theData f of
         Mapped bs \<Rightarrow>
           (if 0 \<le> offset \<and> nat offset + length data \<le> length bs
            then this_set (\<lambda>f. f\<lparr>theData := Mapped (take (nat offset) bs @ data @
              drop (nat offset + length data) bs)\<rparr>)
            else fault OutOfBounds)
       | _ \<Rightarrow> fault BadPointer)"

definition file_write :: "'w env \<Rightarrow> bytes \<Rightarrow> int \<Rightarrow> ('y, 'w, 'x, int) file_comp" where
  "file_write E data offset =
     (let sz = int (length data) in
     bind (this_set (\<lambda>f. if theChunkSize f = 0
       then f\<lparr>theChunkSize := mongo_chunk_size (config E)\<rparr> else f)) (\<lambda>_.
     bind this_get (\<lambda>f.
       if theWritten f \<noteq> c_size_t offset then
         throw (StdException ''Appending to a file other than to the beginning of it is not allowed. '')
       else
         bind (if theCurrentDataSize f = 0 then init_memory E else ret ()) (\<lambda>_.
         bind (extend_loop E (Suc (nat (offset + sz))) (c_size_t (offset + sz))) (\<lambda>_.
         bind (copy_in data offset) (\<lambda>_.
         bind (this_set (\<lambda>f. f\<lparr>theHasChanges := True\<rparr>)) (\<lambda>_.
         bind (this_set (\<lambda>f. f\<lparr>theWritten := c_size_t (theWritten f + sz)\<rparr>)) (\<lambda>_.
         ret sz))))))))"

section \<open>Storing\<close>

text \<open>The first \<open>n\<close> bytes behind \<open>theData\<close>, as \<open>storeFile\<close> reads them.\<close>

definition mapped_bytes :: "mapping \<Rightarrow> int \<Rightarrow> bytes outcome" where
  "mapped_bytes m n =
     (if n = 0 then Ret []
      else case m of
        Mapped bs \<Rightarrow> if nat n \<le> length bs then Ret (take (nat n) bs) else Fault OutOfBounds
      | _ \<Rightarrow> Fault BadPointer)"

definition file_store :: "'w env \<Rightarrow> ('y, 'w, 'x, unit) file_comp" where
  "file_store E =
     bind (gridfile E) (\<lambda>g.
     bind (getter (gf_content_type g)) (\<lambda>ct.
     bind this_get (\<lambda>f.
     bind (of_outcome (mapped_bytes (theData f) (theWritten f))) (\<lambda>data.
     bind (outside (call (store_file E data (thePath f) ct))) (\<lambda>_.
     bind free_memory (\<lambda>_.
     bind (this_set (\<lambda>f. f\<lparr>theFileLength := theWritten f\<rparr>)) (\<lambda>_.
     outside (synchonizeUpdate E))))))))"

definition file_truncate :: "'w env \<Rightarrow> ('y, 'w, 'x, unit) entry_comp" where
  "file_truncate E =
     bind (gridfile E) (\<lambda>g.
     bind (getter (gf_id g)) (\<lambda>i.
     bind (outside (call (update_file E (filesCollection (config E)) i (SetLength 0)))) (\<lambda>_.
     outside (synchonizeUpdate E))))"

section \<open>Reading\<close>

text \<open>
  \<open>gridfs::Lock\<close>: the constructor locks the mutex, the destructor unlocks it when the scope
  is left by a return or by an exception. A second lock by the same thread never returns.
\<close>

definition with_lock :: "('y, 'w, 'x, 'a) file_comp \<Rightarrow> ('y, 'w, 'x, 'a) file_comp" where
  "with_lock m =
     bind this_get (\<lambda>f.
       if mutex_read f then fault Deadlock
       else
         bind (this_set (\<lambda>f. f\<lparr>mutex_read := True\<rparr>)) (\<lambda>_.
         with_dtor m (\<lambda>(f, s). (f\<lparr>mutex_read := False\<rparr>, s))))"

text \<open>The chunk cache: the chunk is fetched when the cached one has another number.\<close>

definition fetch_chunk :: "'w env \<Rightarrow> int \<Rightarrow> ('y, 'w, 'x, unit) file_comp" where
  "fetch_chunk E chunkN =
     bind this_get (\<lambda>f.
       if chunkN \<noteq> theCachedChunkN f then
         bind (gridfile E) (\<lambda>g.
         bind (outside (call (get_chunk E g chunkN))) (\<lambda>bs.
         bind (this_set (\<lambda>f. f\<lparr>theCachedChunk := Some bs\<rparr>)) (\<lambda>_.
         this_set (\<lambda>f. f\<lparr>theCachedChunkN := chunkN\<rparr>))))
       else ret ())"

text \<open>The private \<open>read\<close>: \<open>sz\<close> bytes at \<open>offset\<close> of one chunk.\<close>

definition file_read_chunk :: "'w env \<Rightarrow> int \<Rightarrow> int \<Rightarrow> int \<Rightarrow> ('y, 'w, 'x, int \<times> bytes) file_comp" where
  "file_read_chunk E chunkN sz offset = with_lock (
     bind (assert_that (ndebug E) (bind this_get (\<lambda>f. ret (theChunkSize f \<noteq> 0)))) (\<lambda>_.
     bind (assert_that (ndebug E)
       (bind this_get (\<lambda>f. ret (c_size_t (offset + sz) \<le> theChunkSize f)))) (\<lambda>_.
     bind (assert_that (ndebug E)
       (bind this_get (\<lambda>f. ret (c_size_t (offset + sz) \<le> theFileLength f)))) (\<lambda>_.
     bind (fetch_chunk E chunkN) (\<lambda>_.
     bind this_get (\<lambda>f.
       case theCachedChunk f of
         None \<Rightarrow> fault BadPointer
       | Some bs \<Rightarrow>
           (if 0 \<le> offset \<and> offset + sz \<le> int (length bs)
            then ret (sz, take (nat sz) (drop (nat offset) bs))
            else fault OutOfBounds)))))))"

text \<open>Division of \<open>int\<close> values, which traps on a zero divisor and on overflow.\<close>

definition c_div :: "int \<Rightarrow> int \<Rightarrow> int outcome" where
  "c_div a b = (if b = 0 \<or> (a = - (2 ^ 31) \<and> b = - 1) then Fault ArithmeticFault else Ret (a sdiv b))"

definition c_mod :: "int \<Rightarrow> int \<Rightarrow> int outcome" where
  "c_mod a b = (if b = 0 \<or> (a = - (2 ^ 31) \<and> b = - 1) then Fault ArithmeticFault else Ret (a smod b))"

fun read_loop ::
  "'w env \<Rightarrow> nat \<Rightarrow> int \<Rightarrow> int \<Rightarrow> int \<Rightarrow> bytes \<Rightarrow> ('y, 'w, 'x, int \<times> bytes) file_comp" where
  "read_loop E 0 sz offset read data = fault NoFuel"
| "read_loop E (Suc fuel) sz offset read data =
     bind this_get (\<lambda>f.
       if read \<noteq> sz \<and> c_size_t (offset + read) < theFileLength f then
         bind (of_outcome (c_div (c_int (c_size_t (offset + read))) (c_int (theChunkSize f)))) (\<lambda>chunkN.
         let aligned_size = (if c_size_t (offset + sz) > theFileLength f
               then c_size_t (theFileLength f - offset) else sz);
             aligned_size = c_size_t (aligned_size - read)
         in
         bind (of_outcome (c_mod (c_int (c_size_t (offset + read))) (c_int (theChunkSize f)))) (\<lambda>m.
         let chunk_offset = c_size_t m;
             aligned_size = (if c_size_t (aligned_size + chunk_offset) > theChunkSize f
               then c_size_t (theChunkSize f - chunk_offset) else aligned_size)
         in
         bind (file_read_chunk E chunkN aligned_size (c_off_t chunk_offset)) (\<lambda>(n, bs).
         read_loop E fuel sz offset (c_size_t (read + n)) (data @ bs))))
       else ret (read, data))"

definition fetch_chunk_size :: "'w env \<Rightarrow> ('y, 'w, 'x, unit) file_comp" where
  "fetch_chunk_size E =
     bind this_get (\<lambda>f.
       if theChunkSize f = 0 then
         bind (gridfile E) (\<lambda>g.
         bind (getter (gf_chunk_size g)) (\<lambda>n.
         this_set (\<lambda>f. f\<lparr>theChunkSize := c_uint n\<rparr>)))
       else ret ())"

definition fetch_length :: "'w env \<Rightarrow> ('y, 'w, 'x, unit) file_comp" where
  "fetch_length E =
     bind this_get (\<lambda>f.
       if theFileLength f = 0 then
         bind (gridfile E) (\<lambda>g.
         bind (getter (gf_content_length g)) (\<lambda>n.
         this_set (\<lambda>f. f\<lparr>theFileLength := c_size_t n\<rparr>)))
       else ret ())"

definition file_read :: "'w env \<Rightarrow> int \<Rightarrow> int \<Rightarrow> ('y, 'w, 'x, int \<times> bytes) file_comp" where
  "file_read E sz offset =
     bind (fetch_chunk_size E) (\<lambda>_.
     bind (fetch_length E) (\<lambda>_.
     bind this_get (\<lambda>f.
       if theFileLength f < c_size_t offset then ret (0, [])
       else read_loop E (Suc (nat sz)) sz offset 0 [])))"

section \<open>Resources\<close>

lemma keeps_init_memory [keeps_intros]: "world_free P \<Longrightarrow> keeps (away P) (init_memory E)"
  unfolding init_memory_def by (intro keeps_intros)

lemma keeps_extend_memory [keeps_intros]: "world_free P \<Longrightarrow> keeps (away P) (extend_memory E)"
  unfolding extend_memory_def Let_def by (auto intro!: keeps_intros split: mapping.split)

lemma keeps_extend_loop [keeps_intros]:
  "world_free P \<Longrightarrow> keeps (away P) (extend_loop E fuel target)"
  by (induction fuel) (auto intro!: keeps_intros)

lemma keeps_copy_in [keeps_intros]: "keeps (away P) (copy_in data offset)"
  unfolding copy_in_def by (auto intro!: keeps_intros split: mapping.split)

lemma keeps_file_write [keeps_intros]: "world_free P \<Longrightarrow> keeps (away P) (file_write E data offset)"
  unfolding file_write_def Let_def by (intro keeps_intros)

lemma keeps_file_store [keeps_intros]: "world_free P \<Longrightarrow> keeps (away P) (file_store E)"
  unfolding file_store_def free_memory_def by (intro keeps_intros)

lemma keeps_file_truncate [keeps_intros]: "world_free P \<Longrightarrow> keeps (away P) (file_truncate E)"
  unfolding file_truncate_def by (intro keeps_intros)

lemma keeps_with_lock: "keeps (away P) m \<Longrightarrow> keeps (away P) (with_lock m)"
  unfolding with_lock_def by (intro keeps_intros keeps_with_dtor) auto

lemma keeps_fetch_chunk [keeps_intros]: "world_free P \<Longrightarrow> keeps (away P) (fetch_chunk E n)"
  unfolding fetch_chunk_def by (intro keeps_intros)

lemma keeps_fetch_chunk_size [keeps_intros]: "world_free P \<Longrightarrow> keeps (away P) (fetch_chunk_size E)"
  unfolding fetch_chunk_size_def by (intro keeps_intros)

lemma keeps_fetch_length [keeps_intros]: "world_free P \<Longrightarrow> keeps (away P) (fetch_length E)"
  unfolding fetch_length_def by (intro keeps_intros)

lemma keeps_file_read_chunk [keeps_intros]:
  "world_free P \<Longrightarrow> keeps (away P) (file_read_chunk E n sz offset)"
  unfolding file_read_chunk_def
  by (intro keeps_intros keeps_with_lock) (auto intro!: keeps_intros split: option.split)

lemma keeps_read_loop [keeps_intros]:
  "world_free P \<Longrightarrow> keeps (away P) (read_loop E fuel sz offset read data)"
  by (induction fuel arbitrary: read data)
    (auto simp: Let_def intro!: keeps_intros split: prod.split)

lemma keeps_file_read [keeps_intros]: "world_free P \<Longrightarrow> keeps (away P) (file_read E sz offset)"
  unfolding file_read_def by (intro keeps_intros)

section \<open>What a read leaves alone\<close>

text \<open>A predicate of the object: what the calls do outside does not matter.\<close>

definition about :: "('o \<Rightarrow> bool) \<Rightarrow> 'o \<times> 's \<Rightarrow> bool" where
  "about Q = (\<lambda>(ob, s). Q ob)"

lemma about_iff [simp]: "about Q (ob, s) = Q ob"
  by (simp add: about_def)

lemma about_set: "(\<And>ob. Q ob \<Longrightarrow> Q (g ob)) \<Longrightarrow> keeps (about Q) (this_set g)"
  by (auto simp: keeps_def moves_def this_set_def)

lemma about_outside: "keeps (about Q) (outside m)"
  by (auto simp: keeps_def moves_def outside_def split: prod.splits)

lemma keeps_prod: "(\<And>a b. keeps P (f a b)) \<Longrightarrow> keeps P (case x of (a, b) \<Rightarrow> f a b)"
  by (simp split: prod.split)

lemmas about_intros =
  about_outside keeps_bind keeps_ret keeps_fault keeps_throw keeps_if keeps_this_get keeps_getter
  keeps_of_outcome keeps_assert keeps_prod

text \<open>Predicates of a file that a change of the reader's fields does not touch.\<close>

definition read_free :: "('y file_obj_scheme \<Rightarrow> bool) \<Rightarrow> bool" where
  "read_free Q \<longleftrightarrow> (\<forall>f g n c k l. Q f \<longrightarrow> Q (f\<lparr>theGridFile := g\<rparr>) \<and> Q (f\<lparr>theCachedChunkN := n\<rparr>) \<and>
     Q (f\<lparr>theCachedChunk := c\<rparr>) \<and> Q (f\<lparr>theChunkSize := k\<rparr>) \<and> Q (f\<lparr>theFileLength := l\<rparr>))"

definition lock_free :: "('y file_obj_scheme \<Rightarrow> bool) \<Rightarrow> bool" where
  "lock_free Q \<longleftrightarrow> (\<forall>f b. Q f \<longrightarrow> Q (f\<lparr>mutex_read := b\<rparr>))"

lemma about_gridfile: "read_free Q \<Longrightarrow> keeps (about Q) (gridfile E)"
  unfolding gridfile_def read_free_def by (auto intro!: about_intros about_set split: option.split)

lemma about_fetch_chunk: "read_free Q \<Longrightarrow> keeps (about Q) (fetch_chunk E n)"
  unfolding fetch_chunk_def
  by (intro about_intros about_gridfile about_set) (simp_all add: read_free_def)

lemma about_fetch_sizes:
  "read_free Q \<Longrightarrow> keeps (about Q) (fetch_chunk_size E)"
  "read_free Q \<Longrightarrow> keeps (about Q) (fetch_length E)"
  unfolding fetch_chunk_size_def fetch_length_def
  by (intro about_intros about_gridfile about_set; simp add: read_free_def)+

lemma about_with_lock:
  "lock_free Q \<Longrightarrow> keeps (about Q) m \<Longrightarrow> keeps (about Q) (with_lock m)"
  unfolding with_lock_def
  by (intro about_intros about_set keeps_with_dtor) (auto simp: lock_free_def)

lemma about_read_chunk:
  assumes "read_free Q" "lock_free Q"
  shows "keeps (about Q) (file_read_chunk E n sz off)"
  unfolding file_read_chunk_def using assms
  by (intro about_with_lock about_intros about_fetch_chunk)
    (auto intro!: about_intros split: option.split)

lemma about_read_loop:
  fixes P :: "'y file_obj_scheme \<times> ('w, 'x) process_scheme \<Rightarrow> bool"
  assumes "P = about Q" "\<And>n sz off. keeps P (file_read_chunk E n sz off)"
  shows "keeps P (read_loop E fuel sz offset read data)"
proof (induction fuel arbitrary: read data)
  case 0
  then show ?case by (simp add: keeps_fault)
next
  case (Suc fuel)
  show ?case unfolding read_loop.simps Let_def
    by (intro keeps_bind keeps_if keeps_ret keeps_this_get keeps_of_outcome keeps_prod assms(2) Suc.IH)
qed

lemma about_read:
  fixes P :: "'y file_obj_scheme \<times> ('w, 'x) process_scheme \<Rightarrow> bool"
  assumes "P = about Q" "read_free Q" "\<And>n sz off. keeps P (file_read_chunk E n sz off)"
  shows "keeps P (file_read E sz offset)"
proof -
  have "keeps P (fetch_chunk_size E)" "keeps P (fetch_length E)"
    unfolding assms(1) using about_fetch_sizes [OF assms(2)] by blast+
  then show ?thesis
    unfolding file_read_def
    by (intro keeps_bind keeps_if keeps_ret keeps_this_get about_read_loop [OF assms(1,3)])
qed

text \<open>The part of the object that belongs to writing.\<close>

definition writer_part :: "'y file_obj_scheme \<Rightarrow> bool \<times> mapping \<times> int \<times> int" where
  "writer_part f = (theHasChanges f, theData f, theWritten f, theCurrentDataSize f)"

lemma file_read_buffer:
  assumes "file_read E sz offset (f, s) = (r, (f', s'))" "goes_on r"
  shows "writer_part f' = writer_part f"
proof -
  have "keeps (about (\<lambda>g. writer_part g = writer_part f)) (file_read E sz offset)"
    by (intro about_read [OF refl] about_read_chunk)
      (simp_all add: read_free_def lock_free_def writer_part_def)
  from keepsD [OF this _ assms] show ?thesis by simp
qed

text \<open>The lock is free again on every way out, the exceptions included.\<close>

lemma with_lock_unlocks:
  "keeps (about (\<lambda>f. \<not> mutex_read f)) (with_lock m)"
  unfolding with_lock_def
proof (rule keepsI)
  fix x r y
  assume "bind this_get (\<lambda>f. if mutex_read f then fault Deadlock
      else bind (this_set (mutex_read_update (\<lambda>_. True)))
        (\<lambda>_. with_dtor m (\<lambda>(f, s). (f\<lparr>mutex_read := False\<rparr>, s)))) x = (r, y)" "goes_on r"
  then show "about (\<lambda>f. \<not> mutex_read f) y"
    by (cases x) (auto simp: bind_run this_run with_dtor_def fault_def
        split: if_splits prod.splits outcome.splits)
qed

lemma file_read_unlocks:
  assumes "file_read E sz offset (f, s) = (r, (f', s'))" "goes_on r" "\<not> mutex_read f"
  shows "\<not> mutex_read f'"
proof -
  have "keeps (about (\<lambda>f. \<not> mutex_read f)) (file_read E sz offset)"
    by (intro about_read [OF refl]) (simp_all add: read_free_def file_read_chunk_def with_lock_unlocks)
  from keepsD [OF this _ assms(1,2)] assms(3) show ?thesis by simp
qed

text \<open>A read keeps the \<open>GridFile\<close> that the object has, and fetches one with the chunk size.\<close>

definition linked :: "'y file_obj_scheme \<Rightarrow> bool" where
  "linked f \<longleftrightarrow> theChunkSize f = 0 \<or> theGridFile f \<noteq> None"

definition object_free :: "('y file_obj_scheme \<Rightarrow> bool) \<Rightarrow> bool" where
  "object_free Q \<longleftrightarrow> (\<forall>f n c l b. Q f \<longrightarrow> Q (f\<lparr>theCachedChunkN := n\<rparr>) \<and> Q (f\<lparr>theCachedChunk := c\<rparr>) \<and>
     Q (f\<lparr>theFileLength := l\<rparr>) \<and> Q (f\<lparr>mutex_read := b\<rparr>))"

lemma about_read_object:
  fixes Q :: "'y file_obj_scheme \<Rightarrow> bool" and E :: "'w env"
  assumes Q: "object_free Q" and g: "keeps (about Q :: _ \<times> ('w, 'x) process_scheme \<Rightarrow> bool) (gridfile E)"
    "keeps (about Q :: _ \<times> ('w, 'x) process_scheme \<Rightarrow> bool) (fetch_chunk_size E)"
  shows "keeps (about Q :: _ \<times> ('w, 'x) process_scheme \<Rightarrow> bool) (file_read E sz off)"
proof -
  have chunk: "keeps (about Q :: _ \<times> ('w, 'x) process_scheme \<Rightarrow> bool) (fetch_chunk E n)" for n
    unfolding fetch_chunk_def by (intro about_intros g about_set) (use Q in \<open>simp_all add: object_free_def\<close>)
  have "keeps (about Q :: _ \<times> ('w, 'x) process_scheme \<Rightarrow> bool) (file_read_chunk E n k m)" for n k m
    unfolding file_read_chunk_def
    by (intro about_with_lock about_intros chunk)
      (use Q in \<open>auto simp: object_free_def lock_free_def intro!: about_intros split: option.split\<close>)
  moreover have "keeps (about Q :: _ \<times> ('w, 'x) process_scheme \<Rightarrow> bool) (fetch_length E)"
    unfolding fetch_length_def by (intro about_intros g about_set) (use Q in \<open>simp add: object_free_def\<close>)
  ultimately show ?thesis
    unfolding file_read_def by (intro keeps_bind keeps_if keeps_ret keeps_this_get g(2) about_read_loop [OF refl])
qed

lemma gridfile_frame:
  assumes "gridfile E (f, s) = (r, f', s')"
  shows "\<exists>g. f' = f\<lparr>theGridFile := g\<rparr>"
proof (cases "theGridFile f")
  case None
  with assms have "f' = f \<or> (\<exists>g. f' = f\<lparr>theGridFile := Some g\<rparr>)"
    by (auto simp: gridfile_def bind_run comp_simps split: prod.splits outcome.splits)
  moreover have "f = f\<lparr>theGridFile := theGridFile f\<rparr>" by simp
  ultimately show ?thesis by metis
next
  case (Some g)
  with assms have "f' = f\<lparr>theGridFile := Some g\<rparr>" by (auto simp: gridfile_def bind_run comp_simps)
  then show ?thesis by blast
qed

lemma gridfile_sets: "gridfile E (e, s) = (Ret g, (e', s')) \<Longrightarrow> theGridFile e' = Some g"
  by (auto simp: gridfile_def bind_run comp_simps split: option.splits prod.splits outcome.splits)

lemma linked_gridfile: "keeps (about linked) (gridfile E)"
  unfolding gridfile_def
  by (auto intro!: about_intros about_set simp: linked_def split: option.split)

lemma linked_fetch: "keeps (about linked) (fetch_chunk_size E)"
proof (rule keepsI)
  fix x r y assume l: "about linked x" and run: "fetch_chunk_size E x = (r, y)" and r: "goes_on r"
  obtain f s where x: "x = (f, s)" by (cases x)
  show "about linked y"
  proof (cases "theChunkSize f = 0")
    case False
    then show ?thesis using l run x by (auto simp: fetch_chunk_size_def bind_run comp_simps)
  next
    case True
    obtain q f1 s1 where g: "gridfile E (f, s) = (q, (f1, s1))" by (metis prod_cases3)
    show ?thesis
    proof (cases q)
      case (Ret v)
      then have "theGridFile f1 \<noteq> None" using gridfile_sets g by fastforce
      then show ?thesis
        using run True g Ret x
        by (auto simp: fetch_chunk_size_def bind_run comp_simps linked_def getter_def split: sum.splits)
    qed (use run True g x r keepsD [OF linked_gridfile, of "(f, s)" E q "(f1, s1)"] l in
        \<open>auto simp: fetch_chunk_size_def bind_run comp_simps\<close>)
  qed
qed

lemma read_links:
  assumes "file_read E sz off (f, s) = (r, (f', s'))" "goes_on r"
  shows "linked f \<Longrightarrow> linked f'" and "theGridFile f = Some g \<Longrightarrow> theGridFile f' = Some g"
proof -
  have "keeps (about linked) (file_read E sz off)"
    by (intro about_read_object linked_gridfile linked_fetch) (simp add: object_free_def linked_def)
  from keepsD [OF this _ assms] show "linked f \<Longrightarrow> linked f'" by simp
  let ?Q = "\<lambda>f. theGridFile f = Some g"
  have g: "keeps (about ?Q) (gridfile E)"
    unfolding gridfile_def
    by (rule keepsI) (auto simp: bind_run comp_simps split: option.splits prod.splits outcome.splits)
  have "keeps (about ?Q) (fetch_chunk_size E)"
    unfolding fetch_chunk_size_def by (intro about_intros g about_set) simp
  then have "keeps (about ?Q) (file_read E sz off)"
    by (intro about_read_object g) (simp_all add: object_free_def)
  from keepsD [OF this _ assms] show "theGridFile f = Some g \<Longrightarrow> theGridFile f' = Some g" by simp
qed

end
