(* ===== verification/Attr_Cache.thy ===== *)
theory Attr_Cache
  imports Backend
begin

text \<open>
  The class \<open>Memcache\<close> of src/gridfs_fuse.cpp, the distributed cache of file attributes,
  with the pool of \<open>memcached_st\<close> handles behind \<open>Fuse::cache\<close> and \<open>Fuse::release\<close>.
  The interface its clients rely on is the locale \<open>attr_cache\<close>: an entry is found as it
  was stored or not at all, and not after it was removed.
\<close>

section \<open>The class\<close>

text \<open>
  The constructor takes a handle from the pool, the destructor puts it back; a \<open>Memcache\<close>
  object of a block lives to the end of the block.
\<close>

definition memcache_acquire :: "('w, 'x) process_scheme \<Rightarrow> ('w, 'x) process_scheme" where
  "memcache_acquire s = s\<lparr>caches := Suc (caches s)\<rparr>"

definition memcache_release :: "('w, 'x) process_scheme \<Rightarrow> ('w, 'x) process_scheme" where
  "memcache_release s = s\<lparr>caches := caches s - 1\<rparr>"

definition with_memcache ::
  "(('w, 'x) process_scheme, 'a) comp \<Rightarrow> (('w, 'x) process_scheme, 'a) comp" where
  "with_memcache m = bind (modify memcache_acquire) (\<lambda>_. with_dtor m memcache_release)"

definition memcache_key :: "string \<Rightarrow> string" where
  "memcache_key path = ''a:'' @ path"

definition memcache_get ::
  "'w env \<Rightarrow> string \<Rightarrow> (('w, 'x) process_scheme, stat_buf option) comp" where
  "memcache_get E path =
     bind (c_call (mc_lookup E (memcache_key path))) (\<lambda>r.
       case r of
         None \<Rightarrow> ret None
       | Some v \<Rightarrow>
           bind (assert_that (ndebug E) (ret (v \<noteq> ForeignBytes))) (\<lambda>_.
             case v of StatBytes st \<Rightarrow> ret (Some st) | ForeignBytes \<Rightarrow> fault OutOfBounds))"

definition memcache_set ::
  "'w env \<Rightarrow> string \<Rightarrow> stat_buf \<Rightarrow> (('w, 'x) process_scheme, unit) comp" where
  "memcache_set E path st = c_call (\<lambda>w. ((), mc_store E (memcache_key path) st w))"

definition memcache_remove ::
  "'w env \<Rightarrow> string \<Rightarrow> (('w, 'x) process_scheme, unit) comp" where
  "memcache_remove E path = c_call (\<lambda>w. ((), mc_delete E (memcache_key path) w))"

section \<open>Resources\<close>

lemma keeps_memcache_get [keeps_intros]: "world_free P \<Longrightarrow> keeps P (memcache_get E path)"
  unfolding memcache_get_def
  by (auto intro!: keeps_intros split: option.split cached_value.split)

lemma keeps_memcache_set [keeps_intros]: "world_free P \<Longrightarrow> keeps P (memcache_set E path st)"
  unfolding memcache_set_def by (intro keeps_intros)

lemma keeps_memcache_remove [keeps_intros]: "world_free P \<Longrightarrow> keeps P (memcache_remove E path)"
  unfolding memcache_remove_def by (intro keeps_intros)

lemma with_memcache_run:
  assumes "m (memcache_acquire s) = (Ret a, s')"
  shows "with_memcache m s = (Ret a, memcache_release s')"
  using assms by (simp add: with_memcache_def bind_def modify_def with_dtor_def)

section \<open>The interface of a cache of attributes\<close>

locale attr_cache =
  fixes get :: "string \<Rightarrow> ('s, stat_buf option) comp"
    and set_entry :: "string \<Rightarrow> stat_buf \<Rightarrow> ('s, unit) comp"
    and remove :: "string \<Rightarrow> ('s, unit) comp"
    and entries :: "'s \<Rightarrow> string \<rightharpoonup> stat_buf"
    and ok :: "'s \<Rightarrow> bool"
  assumes get_entry: "ok s \<Longrightarrow> \<exists>s'. get p s = (Ret (entries s p), s') \<and>
      entries s' \<subseteq>\<^sub>m entries s \<and> ok s'"
    and set_ok: "ok s \<Longrightarrow> \<exists>s'. set_entry p st s = (Ret (), s') \<and>
      entries s' \<subseteq>\<^sub>m (entries s)(p \<mapsto> st) \<and> ok s'"
    and remove_ok: "ok s \<Longrightarrow> \<exists>s'. remove p s = (Ret (), s') \<and>
      entries s' \<subseteq>\<^sub>m (entries s)(p := None) \<and> ok s'"
begin

text \<open>The cache is right about \<open>truth\<close> when each entry it has is the true one.\<close>

definition right :: "(string \<rightharpoonup> stat_buf) \<Rightarrow> 's \<Rightarrow> bool" where
  "right truth s \<longleftrightarrow> entries s \<subseteq>\<^sub>m truth"

lemma right_get:
  assumes "ok s" "right truth s"
  obtains s' r where "get p s = (Ret r, s')" "r = None \<or> r = truth p" "right truth s'" "ok s'"
proof -
  obtain s' where g: "get p s = (Ret (entries s p), s')" and le: "entries s' \<subseteq>\<^sub>m entries s"
    and ok: "ok s'" using get_entry [OF assms(1)] by blast
  have "entries s p = None \<or> entries s p = truth p"
    using assms(2) by (cases "entries s p") (auto simp: right_def map_le_def dom_def)
  moreover have "right truth s'" using le assms(2) by (auto simp: right_def intro: map_le_trans)
  ultimately show thesis using that g ok by blast
qed

lemma right_set:
  assumes "ok s" "right truth s" "truth p = Some st"
  obtains s' where "set_entry p st s = (Ret (), s')" "right truth s'" "ok s'"
proof -
  obtain s' where g: "set_entry p st s = (Ret (), s')"
    and le: "entries s' \<subseteq>\<^sub>m (entries s)(p \<mapsto> st)" and ok: "ok s'"
    using set_ok [OF assms(1)] by blast
  have "(entries s)(p \<mapsto> st) \<subseteq>\<^sub>m truth"
    using assms(2,3) by (auto simp: right_def map_le_def)
  with le have "right truth s'" by (auto simp: right_def intro: map_le_trans)
  with that g ok show thesis by blast
qed

text \<open>After an entry is removed, its truth may change.\<close>

lemma right_remove:
  assumes "ok s" "right truth s"
  obtains s' where "remove p s = (Ret (), s')" "right (truth(p := v)) s'" "ok s'"
proof -
  obtain s' where g: "remove p s = (Ret (), s')"
    and le: "entries s' \<subseteq>\<^sub>m (entries s)(p := None)" and ok: "ok s'"
    using remove_ok [OF assms(1)] by blast
  have "(entries s)(p := None) \<subseteq>\<^sub>m truth(p := v)"
    using assms(2) by (auto simp: right_def map_le_def)
  with le have "right (truth(p := v)) s'" by (auto simp: right_def intro: map_le_trans)
  with that g ok show thesis by blast
qed

lemma get_after_remove:
  assumes "ok s" "remove p s = (Ret (), s1)"
  shows "\<exists>s2. get p s1 = (Ret None, s2)"
proof -
  from remove_ok [OF assms(1), of p] assms(2)
  have le: "entries s1 \<subseteq>\<^sub>m (entries s)(p := None)" and ok: "ok s1" by auto
  from le have "entries s1 p = None" by (auto simp: map_le_def dom_def)
  with get_entry [OF ok, of p] show ?thesis by auto
qed

lemma get_after_set:
  assumes "ok s" "set_entry p st s = (Ret (), s1)"
  shows "\<exists>s2 r. get p s1 = (Ret r, s2) \<and> (r = None \<or> r = Some st)"
proof -
  from set_ok [OF assms(1), of p st] assms(2)
  have le: "entries s1 \<subseteq>\<^sub>m (entries s)(p \<mapsto> st)" and ok: "ok s1" by auto
  from le have "entries s1 p = None \<or> entries s1 p = Some st"
    by (cases "entries s1 p") (auto simp: map_le_def dom_def)
  with get_entry [OF ok, of p] show ?thesis by auto
qed

end

section \<open>The class provides the interface\<close>

text \<open>The entries the class would answer: those under its keys that are attributes.\<close>

definition entries_of ::
  "('w \<Rightarrow> string \<rightharpoonup> cached_value) \<Rightarrow> ('w, 'x) process_scheme \<Rightarrow> string \<rightharpoonup> stat_buf" where
  "entries_of cached s p = (case cached (world s) (memcache_key p) of
     Some (StatBytes st) \<Rightarrow> Some st | _ \<Rightarrow> None)"

definition only_stats ::
  "('w \<Rightarrow> string \<rightharpoonup> cached_value) \<Rightarrow> ('w, 'x) process_scheme \<Rightarrow> bool" where
  "only_stats cached s \<longleftrightarrow> (\<forall>p. cached (world s) (memcache_key p) \<noteq> Some ForeignBytes)"

lemma memcache_key_inj [simp]: "memcache_key p = memcache_key q \<longleftrightarrow> p = q"
  by (simp add: memcache_key_def)

lemma entries_of_mono:
  "cached (world s') \<subseteq>\<^sub>m cached (world s) \<Longrightarrow> entries_of cached s' \<subseteq>\<^sub>m entries_of cached s"
  by (force simp: entries_of_def map_le_def dom_def split: option.splits cached_value.splits)

lemma only_stats_mono:
  assumes "cached (world s') \<subseteq>\<^sub>m cached (world s)" "only_stats cached s"
  shows "only_stats cached s'"
  unfolding only_stats_def
proof (intro allI notI)
  fix p assume "cached (world s') (memcache_key p) = Some ForeignBytes"
  then have "cached (world s) (memcache_key p) = Some ForeignBytes"
    using assms(1) by (auto simp: map_le_def dom_def)
  with assms(2) show False by (simp add: only_stats_def)
qed

lemma evolves_entries:
  "evolves docs cached s ds s' \<Longrightarrow> entries_of cached s' \<subseteq>\<^sub>m entries_of cached s"
  by (rule entries_of_mono) (rule evolves_cached)

lemma evolves_only_stats:
  "evolves docs cached s ds s' \<Longrightarrow> only_stats cached s \<Longrightarrow> only_stats cached s'"
  using only_stats_mono evolves_cached by blast

context backend
begin

lemma memcache_get_run:
  assumes "only_stats cached s"
  shows "\<exists>s'. memcache_get E p s = (Ret (entries_of cached s p), s') \<and>
     evolves docs cached s (docs (world s)) s'"
proof -
  obtain w' where w': "mc_lookup E (memcache_key p) (world s) =
      (cached (world s) (memcache_key p), w')"
    "docs w' = docs (world s)" "cached w' \<subseteq>\<^sub>m cached (world s)"
    using mc_lookup_ok by blast
  have nf: "cached (world s) (memcache_key p) \<noteq> Some ForeignBytes"
    using assms by (simp add: only_stats_def)
  have "evolves docs cached s (docs (world s)) (s\<lparr>world := w'\<rparr>)"
    using w' by (intro evolvesI)
  moreover have "memcache_get E p s = (Ret (entries_of cached s p), s\<lparr>world := w'\<rparr>)"
    using w' nf
    by (cases "cached (world s) (memcache_key p)"; cases "ndebug E")
      (auto simp: memcache_get_def bind_def c_call_def entries_of_def comp_simps
        split: cached_value.split)
  ultimately show ?thesis by blast
qed

lemma memcache_set_run:
  "\<exists>s'. memcache_set E p st s = (Ret (), s') \<and> docs (world s') = docs (world s) \<and>
     cached (world s') \<subseteq>\<^sub>m (cached (world s))(memcache_key p \<mapsto> StatBytes st) \<and>
     s' = s\<lparr>world := world s'\<rparr>"
  using mc_store_ok [of "memcache_key p" st "world s"]
  by (simp add: memcache_set_def c_call_def)

lemma memcache_remove_run:
  "\<exists>s'. memcache_remove E p s = (Ret (), s') \<and>
     cached (world s') \<subseteq>\<^sub>m (cached (world s))(memcache_key p := None) \<and>
     evolves docs cached s (docs (world s)) s'"
proof -
  let ?w = "mc_delete E (memcache_key p) (world s)"
  have le: "cached ?w \<subseteq>\<^sub>m (cached (world s))(memcache_key p := None)" by (rule mc_delete_ok(2))
  also have "(cached (world s))(memcache_key p := None) \<subseteq>\<^sub>m cached (world s)"
    by (auto simp: map_le_def)
  finally have "cached ?w \<subseteq>\<^sub>m cached (world s)" .
  then have "evolves docs cached s (docs (world s)) (s\<lparr>world := ?w\<rparr>)"
    by (intro evolvesI) (simp_all add: mc_delete_ok(1))
  with le show ?thesis by (simp add: memcache_remove_def c_call_def)
qed

lemma entries_of_update_le:
  assumes "cached (world s') \<subseteq>\<^sub>m (cached (world s))(memcache_key p := v)"
  shows "entries_of cached s' \<subseteq>\<^sub>m
    (entries_of cached s)(p := (case v of Some (StatBytes st) \<Rightarrow> Some st | _ \<Rightarrow> None))"
proof -
  let ?c = "cached (world s')" and ?d = "(cached (world s))(memcache_key p := v)"
  have look: "?c (memcache_key q) = Some x \<Longrightarrow> ?d (memcache_key q) = Some x" for q x
    using assms unfolding map_le_def by (metis domI)
  show ?thesis
    unfolding map_le_def
  proof
    fix q assume "q \<in> dom (entries_of cached s')"
    then obtain st where st: "?c (memcache_key q) = Some (StatBytes st)"
      by (auto simp: entries_of_def split: option.splits cached_value.splits)
    from look [OF st] st show "entries_of cached s' q =
        ((entries_of cached s)(p := (case v of Some (StatBytes st) \<Rightarrow> Some st | _ \<Rightarrow> None))) q"
      by (auto simp: entries_of_def split: if_splits)
  qed
qed

lemma only_stats_update:
  assumes "cached (world s') \<subseteq>\<^sub>m (cached (world s))(memcache_key p := v)"
    and "only_stats cached s" "v \<noteq> Some ForeignBytes"
  shows "only_stats cached s'"
  unfolding only_stats_def
proof (intro allI notI)
  fix q assume "cached (world s') (memcache_key q) = Some ForeignBytes"
  then have "((cached (world s))(memcache_key p := v)) (memcache_key q) = Some ForeignBytes"
    using assms(1) unfolding map_le_def by (metis domI)
  with assms(2,3) show False by (auto simp: only_stats_def split: if_splits)
qed

sublocale memcache: attr_cache
  "memcache_get E" "memcache_set E" "memcache_remove E" "entries_of cached" "only_stats cached"
proof (unfold_locales, goal_cases)
  case (1 s p)
  then show ?case using memcache_get_run [of s p] evolves_entries evolves_only_stats by blast
next
  case (2 s p st)
  then show ?case
    using memcache_set_run [of p st s] entries_of_update_le [where v = "Some (StatBytes st)" and p = p]
      only_stats_update [where v = "Some (StatBytes st)" and p = p]
    by fastforce
next
  case (3 s p)
  then show ?case
    using memcache_remove_run [of p s] entries_of_update_le [where v = None and p = p]
      only_stats_update [where v = None and p = p]
    by fastforce
qed

end

end
