(* ===== verification/File_Info.thy ===== *)
theory File_Info
  imports Proc Symlink File_Entry Attr_Cache
begin

text \<open>
  The class \<open>FileInfo\<close> of src/fileinfo.h and src/fileinfo.cpp: what the handle \<open>fh\<close> of an
  open file or directory points to. The process state is extended by the objects that are
  reachable through handles; a handle is an address, 0 is the null pointer. The table is an
  instance of the locale \<open>handle_table\<close>. The last section states what balances the pools:
  one database connection for each open file and directory.
\<close>

datatype file_info = PROC proc | DIRECTORY entry | FILE file_obj

record 'w fuse_state = "'w process" +
  objects :: "nat \<rightharpoonup> file_info"
  next_addr :: nat

section \<open>Handles\<close>

text \<open>
  \<open>fileinfo->fh = (uint64_t)lInfo.release()\<close>: the object leaves its \<open>auto_ptr\<close> and is
  reachable through the handle from now on. Addresses are not used again.
\<close>

definition release_handle :: "file_info \<Rightarrow> (('w, 'x) fuse_state_scheme, nat) comp" where
  "release_handle fi = (\<lambda>s. (Ret (next_addr s),
     s\<lparr>objects := (objects s)(next_addr s \<mapsto> fi), next_addr := Suc (next_addr s)\<rparr>))"

definition deref :: "nat \<Rightarrow> (('w, 'x) fuse_state_scheme, file_info) comp" where
  "deref fh = (\<lambda>s. if fh = 0 then (Fault NullDeref, s)
     else case objects s fh of None \<Rightarrow> (Fault UseAfterFree, s) | Some fi \<Rightarrow> (Ret fi, s))"

text \<open>The destructor of \<open>FileInfo\<close>, for each type of object that it owns.\<close>

definition destroy_object ::
  "file_info \<Rightarrow> ('w, 'x) process_scheme \<Rightarrow> ('w, 'x) process_scheme" where
  "destroy_object fi = (case fi of
     PROC _ \<Rightarrow> id | DIRECTORY _ \<Rightarrow> drop_connection | FILE _ \<Rightarrow> drop_connection)"

definition destroy_handle ::
  "nat \<Rightarrow> ('w, 'x) fuse_state_scheme \<Rightarrow> ('w, 'x) fuse_state_scheme" where
  "destroy_handle fh s = (case objects s fh of
     None \<Rightarrow> s
   | Some fi \<Rightarrow> (destroy_object fi s)\<lparr>objects := (objects s)(fh := None)\<rparr>)"

text \<open>\<open>delete\<close> of the null pointer does nothing, of a dangling one is a fault.\<close>

definition delete_handle :: "nat \<Rightarrow> (('w, 'x) fuse_state_scheme, unit) comp" where
  "delete_handle fh = (\<lambda>s. if fh = 0 then (Ret (), s)
     else case objects s fh of
       None \<Rightarrow> (Fault UseAfterFree, s)
     | Some fi \<Rightarrow> (Ret (), destroy_handle fh s))"

text \<open>A member function of an object behind a handle changes the object in place.\<close>

definition with_file ::
  "nat \<Rightarrow> file_obj \<Rightarrow> (file_obj \<times> ('w, 'x) fuse_state_scheme, 'a) comp
    \<Rightarrow> (('w, 'x) fuse_state_scheme, 'a) comp" where
  "with_file fh f m = (\<lambda>s. case m (f, s) of
     (r, (f', s')) \<Rightarrow> (r, s'\<lparr>objects := (objects s')(fh \<mapsto> FILE f')\<rparr>))"

definition with_directory ::
  "nat \<Rightarrow> entry \<Rightarrow> (entry \<times> ('w, 'x) fuse_state_scheme, 'a) comp
    \<Rightarrow> (('w, 'x) fuse_state_scheme, 'a) comp" where
  "with_directory fh e m = (\<lambda>s. case m (e, s) of
     (r, (e', s')) \<Rightarrow> (r, s'\<lparr>objects := (objects s')(fh \<mapsto> DIRECTORY e')\<rparr>))"

section \<open>The interface of a table of handles\<close>

locale handle_table =
  fixes alloc :: "'v \<Rightarrow> ('s, nat) comp"
    and get :: "nat \<Rightarrow> ('s, 'v) comp"
    and free :: "nat \<Rightarrow> ('s, unit) comp"
    and table :: "'s \<Rightarrow> nat \<rightharpoonup> 'v"
    and ok :: "'s \<Rightarrow> bool"
  assumes alloc_fresh: "ok s \<Longrightarrow> \<exists>a s'. alloc v s = (Ret a, s') \<and> a \<noteq> 0 \<and> table s a = None \<and>
      table s' = (table s)(a \<mapsto> v) \<and> ok s'"
    and get_live: "ok s \<Longrightarrow> table s a = Some v \<Longrightarrow> get a s = (Ret v, s)"
    and get_dead: "ok s \<Longrightarrow> table s a = None \<Longrightarrow>
      get a s = (Fault (if a = 0 then NullDeref else UseAfterFree), s)"
    and free_live: "ok s \<Longrightarrow> table s a = Some v \<Longrightarrow>
      \<exists>s'. free a s = (Ret (), s') \<and> table s' = (table s)(a := None) \<and> ok s'"
    and free_dead: "ok s \<Longrightarrow> table s a = None \<Longrightarrow> a \<noteq> 0 \<Longrightarrow> free a s = (Fault UseAfterFree, s)"
begin

lemma get_after_alloc:
  assumes "ok s" "alloc v s = (Ret a, s')"
  shows "get a s' = (Ret v, s')" "ok s'" "a \<noteq> 0"
  using alloc_fresh [OF assms(1), of v] assms(2) get_live by auto

lemma live_after_alloc:
  assumes "ok s" "alloc v s = (Ret a, s')" "table s b = Some u"
  shows "get b s' = (Ret u, s')" "b \<noteq> a"
proof -
  from alloc_fresh [OF assms(1), of v] assms(2)
  have "table s a = None" "table s' = (table s)(a \<mapsto> v)" "ok s'" by auto
  with assms(3) have "table s' b = Some u" "b \<noteq> a" by auto
  with \<open>ok s'\<close> show "get b s' = (Ret u, s')" "b \<noteq> a" by (auto intro: get_live)
qed

lemma no_use_after_free:
  assumes "ok s" "a \<noteq> 0" "table s a = Some v" "free a s = (Ret (), s')"
  shows "get a s' = (Fault UseAfterFree, s')" "free a s' = (Fault UseAfterFree, s')"
proof -
  from free_live [OF assms(1,3)] assms(4) have "table s' = (table s)(a := None)" "ok s'" by auto
  then show "get a s' = (Fault UseAfterFree, s')" "free a s' = (Fault UseAfterFree, s')"
    using assms(2) get_dead [of s' a] free_dead [of s' a] by auto
qed

end

definition table_ok :: "('w, 'x) fuse_state_scheme \<Rightarrow> bool" where
  "table_ok s \<longleftrightarrow> 0 < next_addr s \<and> (\<forall>a v. objects s a = Some v \<longrightarrow> 0 < a \<and> a < next_addr s)"

lemma table_ok_fresh: "table_ok s \<Longrightarrow> objects s (next_addr s) = None"
  by (cases "objects s (next_addr s)") (auto simp: table_ok_def)

lemma table_ok_null: "table_ok s \<Longrightarrow> objects s 0 = None"
  by (cases "objects s 0") (auto simp: table_ok_def)

lemma destroy_object_keeps [simp]:
  "objects (destroy_object fi s) = objects s" "next_addr (destroy_object fi s) = next_addr s"
  "world (destroy_object fi s) = world s" "caches (destroy_object fi s) = caches s"
  by (simp_all add: destroy_object_def drop_connection_def split: file_info.split)

interpretation handles: handle_table release_handle deref delete_handle objects table_ok
proof (unfold_locales, goal_cases)
  case (1 s v)
  then show ?case
    using table_ok_fresh [of s] by (auto simp: release_handle_def table_ok_def less_Suc_eq)
next
  case (2 s a v)
  moreover from 2 have "a \<noteq> 0" using table_ok_null [of s] by (metis option.distinct(1))
  ultimately show ?case by (simp add: deref_def)
next
  case (3 s a)
  then show ?case by (simp add: deref_def)
next
  case (4 s a v)
  moreover from 4 have "a \<noteq> 0" using table_ok_null [of s] by (metis option.distinct(1))
  ultimately show ?case by (auto simp: delete_handle_def destroy_handle_def table_ok_def)
next
  case (5 s a)
  then show ?case by (simp add: delete_handle_def)
qed

section \<open>The balance of the pools\<close>

definition holds_connection :: "file_info \<Rightarrow> bool" where
  "holds_connection fi \<longleftrightarrow> (case fi of PROC _ \<Rightarrow> False | _ \<Rightarrow> True)"

definition holders :: "(nat \<rightharpoonup> file_info) \<Rightarrow> nat set" where
  "holders t = {a. \<exists>v. t a = Some v \<and> holds_connection v}"

text \<open>
  Apart from \<open>n\<close> objects of the stack, the connections in use are those of the open
  files and directories; \<open>m\<close> cache handles are in use.
\<close>

definition balanced :: "nat \<Rightarrow> nat \<Rightarrow> ('w, 'x) fuse_state_scheme \<Rightarrow> bool" where
  "balanced n m s \<longleftrightarrow> table_ok s \<and> conns s = n + card (holders (objects s)) \<and> caches s = m"

lemma balanced_world [simp]: "balanced n m (s\<lparr>world := w\<rparr>) = balanced n m s"
  by (simp add: balanced_def table_ok_def)

lemma world_free_balanced: "world_free (balanced n m)"
  "world_free (\<lambda>s. balanced n m s \<and> objects s = t)"
  by (simp_all add: world_free_def)

lemma finite_holders: "table_ok s \<Longrightarrow> finite (holders (objects s))"
  by (rule finite_subset [of _ "{..<next_addr s}"]) (auto simp: holders_def table_ok_def)

lemma holders_add: "t a = None \<Longrightarrow> holders (t(a \<mapsto> v)) = (if holds_connection v then insert a (holders t) else holders t)"
  by (auto simp: holders_def)

lemma holders_remove: "t a = Some v \<Longrightarrow> holders (t(a := None)) = holders t - {a}"
  by (auto simp: holders_def)

lemma holders_replace:
  "t a = Some v \<Longrightarrow> holds_connection u = holds_connection v \<Longrightarrow> holders (t(a \<mapsto> u)) = holders t"
  by (auto simp: holders_def)

lemma holds_simps [simp]:
  "holds_connection (PROC p) = False" "holds_connection (DIRECTORY e) = True"
  "holds_connection (FILE f) = True"
  by (simp_all add: holds_connection_def)

lemma take_connection_balanced: "balanced n m s \<Longrightarrow> balanced (Suc n) m (take_connection s)"
  by (simp add: balanced_def take_connection_def table_ok_def)

lemma drop_connection_balanced: "balanced (Suc n) m s \<Longrightarrow> balanced n m (drop_connection s)"
  by (simp add: balanced_def drop_connection_def table_ok_def)

lemma acquire_balanced: "balanced n m s \<Longrightarrow> balanced n (Suc m) (memcache_acquire s)"
  by (simp add: balanced_def memcache_acquire_def table_ok_def)

lemma release_balanced: "balanced n (Suc m) s \<Longrightarrow> balanced n m (memcache_release s)"
  by (simp add: balanced_def memcache_release_def table_ok_def)

lemma release_handle_balanced:
  assumes "balanced (if holds_connection fi then Suc n else n) m s" "release_handle fi s = (r, s')"
  shows "balanced n m s'"
proof -
  have s': "s' = s\<lparr>objects := (objects s)(next_addr s \<mapsto> fi), next_addr := Suc (next_addr s)\<rparr>"
    using assms(2) by (simp add: release_handle_def)
  have ok: "table_ok s" using assms(1) by (simp add: balanced_def)
  then have "table_ok s'" unfolding s' by (auto simp: table_ok_def less_Suc_eq)
  moreover have "conns s' = n + card (holders (objects s'))"
    using assms(1) finite_holders [OF ok] table_ok_fresh [OF ok]
    by (simp add: s' balanced_def holders_add card_insert_if) (auto simp: holders_def)
  ultimately show ?thesis using assms(1) by (simp add: balanced_def s')
qed

lemma destroy_handle_balanced: "balanced n m s \<Longrightarrow> balanced n m (destroy_handle fh s)"
proof (cases "objects s fh")
  case None
  then show "balanced n m s \<Longrightarrow> balanced n m (destroy_handle fh s)" by (simp add: destroy_handle_def)
next
  case (Some fi)
  assume b: "balanced n m s"
  then have ok: "table_ok s" by (simp add: balanced_def)
  then have "table_ok (destroy_handle fh s)"
    by (simp add: destroy_handle_def Some table_ok_def)
  moreover have "conns (destroy_handle fh s) = n + card (holders (objects (destroy_handle fh s)))"
  proof (cases "holds_connection fi")
    case True
    then have "fh \<in> holders (objects s)" using Some by (auto simp: holders_def)
    then have "0 < card (holders (objects s))" "card (holders (objects s) - {fh}) = card (holders (objects s)) - 1"
      using finite_holders [OF ok] by (auto simp: card_gt_0_iff)
    then show ?thesis
      using b True by (cases fi) (auto simp: destroy_handle_def Some balanced_def holders_remove
          destroy_object_def drop_connection_def)
  next
    case False
    then have "holders (objects s) - {fh} = holders (objects s)" using Some by (auto simp: holders_def)
    then show ?thesis
      using b False by (cases fi) (auto simp: destroy_handle_def Some balanced_def holders_remove
          destroy_object_def)
  qed
  ultimately show "balanced n m (destroy_handle fh s)"
    using b by (simp add: balanced_def destroy_handle_def Some)
qed

section \<open>Scopes and handles keep the balance\<close>

text \<open>A constructor that raises has built nothing.\<close>

definition constructs :: "('s \<Rightarrow> bool) \<Rightarrow> ('s, 'o) comp \<Rightarrow> ('s \<Rightarrow> bool) \<Rightarrow> bool" where
  "constructs P ctor Q \<longleftrightarrow> (\<forall>s r s'. P s \<longrightarrow> ctor s = (r, s') \<longrightarrow>
     (\<forall>ob. r = Ret ob \<longrightarrow> Q s') \<and> (\<forall>e. r = Throw e \<longrightarrow> P s'))"

lemma constructsD:
  assumes "constructs P ctor Q" "P s"
  shows "ctor s = (Ret ob, s') \<Longrightarrow> Q s'" "ctor s = (Throw e, s') \<Longrightarrow> P s'"
  using assms by (auto simp: constructs_def)

lemma lifetime_keeps:
  assumes "constructs P ctor Q" "keeps (away Q) body" "\<And>s. Q s \<Longrightarrow> P (d s)"
    and "\<And>a ob. moves Q (k a ob) P"
  shows "keeps P (lifetime ctor body d k)"
proof (rule keepsI)
  fix s r s' assume P: "P s" and run: "lifetime ctor body d k s = (r, s')" and g: "goes_on r"
  obtain q t where c: "ctor s = (q, t)" by (cases "ctor s")
  show "P s'"
  proof (cases q)
    case (Ret ob)
    then have Q: "Q t" using constructsD(1) [OF assms(1) P] c by simp
    obtain q2 ob2 t2 where b: "body (ob, t) = (q2, (ob2, t2))" by (cases "body (ob, t)") auto
    have Q2: "goes_on q2 \<Longrightarrow> Q t2" using keepsD [OF assms(2) _ b] Q by simp
    show ?thesis
    proof (cases q2)
      case (Ret a)
      then have "k a ob2 t2 = (r, s')"
        using run c b \<open>q = Ret ob\<close> by (simp add: lifetime_def bind_def)
      then show ?thesis using movesD [OF assms(4), of t2] Q2 Ret g by simp
    next
      case (Throw e)
      then show ?thesis
        using run c b \<open>q = Ret ob\<close> assms(3) [OF Q2] by (auto simp: lifetime_def bind_def)
    qed (use run c b \<open>q = Ret ob\<close> g in \<open>auto simp: lifetime_def bind_def\<close>)
  next
    case (Throw e)
    then show ?thesis
      using run c constructsD(2) [OF assms(1) P] by (auto simp: lifetime_def bind_def)
  qed (use run c g in \<open>auto simp: lifetime_def bind_def\<close>)
qed

lemma local_object_keeps:
  assumes "constructs P ctor Q" "keeps (away Q) body" "\<And>s. Q s \<Longrightarrow> P (d s)"
  shows "keeps P (local_object ctor d body)"
  unfolding local_object_def
  by (rule lifetime_keeps [OF assms]) (auto simp: moves_def assms(3))

lemma deref_Ret: "deref fh s = (Ret fi, s') \<longleftrightarrow> s' = s \<and> fh \<noteq> 0 \<and> objects s fh = Some fi"
  by (auto simp: deref_def split: option.splits if_splits)

lemma keeps_deref [keeps_intros]: "keeps P (deref fh)"
  by (auto simp: keeps_def moves_def deref_def split: option.splits if_splits)

text \<open>A step on the object behind a handle: the rest of the table stays.\<close>

lemma balanced_replace:
  assumes "balanced n m s" "objects s fh = Some u" "holds_connection v = holds_connection u"
  shows "balanced n m (s\<lparr>objects := (objects s)(fh \<mapsto> v)\<rparr>)"
proof -
  have "holders ((objects s)(fh \<mapsto> v)) = holders (objects s)"
    using assms(2,3) by (rule holders_replace)
  moreover have "table_ok (s\<lparr>objects := (objects s)(fh \<mapsto> v)\<rparr>)"
    using assms(1,2) by (auto simp: table_ok_def balanced_def)
  ultimately show ?thesis using assms(1) by (simp add: balanced_def)
qed

end
