(* ===== verification/Operations.thy ===== *)
theory Operations
  imports File_Info
begin

text \<open>
  The callbacks of src/filesystem_operations.cpp, one definition per function, named with
  the prefix \<open>gridfs_\<close> of their namespace. A callback is a computation over the process state
  whose value is the number that FUSE passes to the kernel, with what the callback writes to
  the buffers of its caller. \<open>GRIDFS_CATCH\<close> is \<open>catch_with\<close>: every exception ends in
  \<open>- EIO\<close>.
\<close>

type_synonym ('w, 'x, 'a) callback = "(('w, 'x) fuse_state_scheme, 'a) comp"

section \<open>Paths\<close>

definition configure_path :: "gridfs_config \<Rightarrow> string \<Rightarrow> string" where
  "configure_path c path =
     (let aRes = path_prefix c @ path
      in if aRes \<noteq> [] \<and> last aRes = CHR ''/'' then butlast aRes else aRes)"

text \<open>\<open>Memcache m; m.remove(lPath);\<close> at the end of a block\<close>

definition forget_path :: "'w env \<Rightarrow> string \<Rightarrow> (('w, 'x) process_scheme, unit) comp" where
  "forget_path E lPath = with_memcache (memcache_remove E lPath)"

section \<open>Attributes\<close>

text \<open>
  The second component is what is in the caller's buffer afterwards, \<open>None\<close> where the result
  is an error. \<open>aStBuf\<close> is the buffer as it is passed in.
\<close>

definition gridfs_getattr ::
  "'w env \<Rightarrow> string \<Rightarrow> stat_buf \<Rightarrow> ('w, 'x, int \<times> stat_buf option) callback" where
  "gridfs_getattr E aPath aStBuf =
     (let lPath = configure_path (config E) aPath in
      with_memcache (bind (memcache_get E lPath) (\<lambda>hit. case hit of
        Some st \<Rightarrow> ret (0, Some st)
      | None \<Rightarrow> catch_with
          (if is_proc (config E) lPath then
             bind (proc_stat E (new_proc (config E) lPath) aStBuf) (\<lambda>st. ret (0, Some st))
           else local_object (new_entry E lPath) drop_connection
             (bind (entry_exists E) (\<lambda>ex.
               if \<not> ex then ret (- ENOENT, None)
               else bind (entry_stat E) (\<lambda>st.
                    bind (outside (memcache_set E lPath st)) (\<lambda>_.
                    ret (0, Some st))))))
          (- EIO, None))))"

definition gridfs_chmod :: "'w env \<Rightarrow> string \<Rightarrow> u32 \<Rightarrow> ('w, 'x, int) callback" where
  "gridfs_chmod E path mode =
     (let lPath = configure_path (config E) path in
      catch_with (local_object (new_entry E lPath) drop_connection
        (bind (entry_exists E) (\<lambda>ex.
          if \<not> ex then ret (- ENOENT)
          else bind (entry_chmod E mode) (\<lambda>_.
               bind (outside (forget_path E lPath)) (\<lambda>_.
               ret 0))))) (- EIO))"

definition gridfs_chown :: "'w env \<Rightarrow> string \<Rightarrow> u32 \<Rightarrow> u32 \<Rightarrow> ('w, 'x, int) callback" where
  "gridfs_chown E path uid gid =
     (let lPath = configure_path (config E) path in
      catch_with (local_object (new_entry E lPath) drop_connection
        (bind (entry_exists E) (\<lambda>ex.
          if \<not> ex then ret (- ENOENT)
          else bind (entry_chown E uid gid) (\<lambda>_.
               bind (outside (forget_path E lPath)) (\<lambda>_.
               ret 0))))) (- EIO))"

text \<open>\<open>time\<close> is \<open>tv[1].tv_sec\<close>, the modification time.\<close>

definition gridfs_utimens :: "'w env \<Rightarrow> string \<Rightarrow> int \<Rightarrow> ('w, 'x, int) callback" where
  "gridfs_utimens E path time =
     (let lPath = configure_path (config E) path in
      if is_proc (config E) lPath then ret 0
      else catch_with (local_object (new_file E lPath) drop_connection
        (bind (entry_exists E) (\<lambda>ex.
          if \<not> ex then ret (- ENOENT)
          else bind (entry_utimes E time) (\<lambda>_.
               bind (outside (forget_path E lPath)) (\<lambda>_.
               ret 0))))) (- EIO))"

section \<open>Directories\<close>

definition gridfs_mkdir :: "'w env \<Rightarrow> string \<Rightarrow> u32 \<Rightarrow> ('w, 'x, int) callback" where
  "gridfs_mkdir E path mode =
     (let lPath = configure_path (config E) path in
      catch_with (local_object (new_entry E lPath) drop_connection
        (bind (entry_create E (S_IFDIR OR mode) (default_uid (config E)) (default_gid (config E)) [])
          (\<lambda>_. ret 0))) (- EIO))"

definition gridfs_rmdir :: "'w env \<Rightarrow> string \<Rightarrow> ('w, 'x, int) callback" where
  "gridfs_rmdir E path =
     (let lPath = configure_path (config E) path in
      catch_with (local_object (new_entry E lPath) drop_connection
        (bind (entry_exists E) (\<lambda>ex.
          if \<not> ex then ret (- ENOENT)
          else bind (directory_isEmpty E) (\<lambda>empty.
            if \<not> empty then ret (- ENOTEMPTY)
            else bind (entry_remove E) (\<lambda>_.
                 bind (outside (forget_path E lPath)) (\<lambda>_.
                 ret 0)))))) (- EIO))"

text \<open>
  The handlers that open take the handle in \<open>fileinfo->fh\<close> as it is passed in and give it
  as it is afterwards.
\<close>

definition gridfs_opendir :: "'w env \<Rightarrow> string \<Rightarrow> nat \<Rightarrow> ('w, 'x, int \<times> nat) callback" where
  "gridfs_opendir E path fh =
     (let lPath = configure_path (config E) path in
      catch_with
        (if is_proc (config E) lPath then
           bind (release_handle (PROC (new_proc (config E) lPath))) (\<lambda>fh. ret (0, fh))
         else lifetime (new_entry E lPath) (entry_exists E) drop_connection (\<lambda>ex lDir.
           if \<not> ex then bind (modify drop_connection) (\<lambda>_. ret (- ENOENT, fh))
           else bind (release_handle (DIRECTORY lDir)) (\<lambda>fh. ret (0, fh))))
        (- EIO, fh))"

definition gridfs_readdir ::
  "'w env \<Rightarrow> (string \<Rightarrow> 'w \<Rightarrow> 'w) \<Rightarrow> nat \<Rightarrow> ('w, 'x, int) callback" where
  "gridfs_readdir E filler fh =
     catch_with (bind (deref fh) (\<lambda>lInfo.
       bind (case lInfo of
           DIRECTORY lDir \<Rightarrow> with_directory fh lDir (directory_list E filler)
         | PROC lProc \<Rightarrow> proc_list E filler lProc
         | FILE _ \<Rightarrow> assert_that (ndebug E) (ret False)) (\<lambda>_.
       ret 0))) (- EIO)"

definition gridfs_releasedir :: "'w env \<Rightarrow> nat \<Rightarrow> ('w, 'x, int) callback" where
  "gridfs_releasedir E fh = catch_with (bind (delete_handle fh) (\<lambda>_. ret 0)) (- EIO)"

section \<open>Files\<close>

text \<open>\<open>create\<close> clears \<open>fileinfo\<close> first, so its handle starts as 0.\<close>

definition gridfs_create :: "'w env \<Rightarrow> string \<Rightarrow> u32 \<Rightarrow> ('w, 'x, int \<times> nat) callback" where
  "gridfs_create E path mode =
     (let lPath = configure_path (config E) path in
      catch_with
        (if is_proc (config E) lPath then
           bind (proc_create E (new_proc (config E) lPath)) (\<lambda>_. ret (0, 0))
         else lifetime (new_file E lPath)
           (bind (entry_exists E) (\<lambda>ex.
             if ex then ret (- EEXIST)
             else bind (entry_create E (S_IFREG OR mode) (default_uid (config E))
                    (default_gid (config E)) []) (\<lambda>_. ret 0)))
           drop_connection (\<lambda>result lFile.
             bind (release_handle (FILE lFile)) (\<lambda>fh. ret (result, fh))))
        (- EIO, 0))"

definition gridfs_unlink :: "'w env \<Rightarrow> string \<Rightarrow> ('w, 'x, int) callback" where
  "gridfs_unlink E path =
     (let lPath = configure_path (config E) path in
      catch_with (local_object (new_entry E lPath) drop_connection
        (bind (entry_exists E) (\<lambda>ex.
          if \<not> ex then ret (- ENOENT)
          else bind (entry_remove E) (\<lambda>_.
               bind (outside (forget_path E lPath)) (\<lambda>_.
               ret 0))))) (- EIO))"

definition gridfs_open :: "'w env \<Rightarrow> string \<Rightarrow> nat \<Rightarrow> ('w, 'x, int \<times> nat) callback" where
  "gridfs_open E path fh =
     (let lPath = configure_path (config E) path in
      catch_with
        (if is_proc (config E) lPath then
           bind (proc_create E (new_proc (config E) lPath)) (\<lambda>created.
           bind (release_handle (PROC (new_proc (config E) lPath))) (\<lambda>fh.
           ret (if created then 0 else - ENAMETOOLONG, fh)))
         else lifetime (new_file E lPath) (assert_that (ndebug E) (entry_exists E)) drop_connection
           (\<lambda>_ lFile. bind (release_handle (FILE lFile)) (\<lambda>fh. ret (0, fh))))
        (- EIO, fh))"

definition gridfs_write :: "'w env \<Rightarrow> bytes \<Rightarrow> int \<Rightarrow> nat \<Rightarrow> ('w, 'x, int) callback" where
  "gridfs_write E data offset fh =
     bind (assert_that (ndebug E) (ret (fh \<noteq> 0))) (\<lambda>_.
     catch_with (bind (deref fh) (\<lambda>lInfo. case lInfo of
         FILE lFile \<Rightarrow> bind (with_file fh lFile (file_write E data offset)) (\<lambda>n. ret (c_int n))
       | _ \<Rightarrow> bind (assert_that (ndebug E) (ret False)) (\<lambda>_. ret 0))) (- EIO))"

definition gridfs_release :: "'w env \<Rightarrow> string \<Rightarrow> nat \<Rightarrow> ('w, 'x, int) callback" where
  "gridfs_release E path fh =
     (let lPath = configure_path (config E) path in
      with_dtor (catch_with (bind (deref fh) (\<lambda>lInfo. case lInfo of
         FILE lFile \<Rightarrow>
           (if theHasChanges lFile then
              bind (with_file fh lFile (file_store E)) (\<lambda>_.
              bind (forget_path E lPath) (\<lambda>_.
              ret 0))
            else ret 0)
       | _ \<Rightarrow> bind (forget_path E lPath) (\<lambda>_. ret 0))) (- EIO))
      (destroy_handle fh))"

text \<open>The second component is what is copied to the caller's buffer when the read succeeds.\<close>

definition gridfs_read :: "'w env \<Rightarrow> int \<Rightarrow> int \<Rightarrow> nat \<Rightarrow> ('w, 'x, int \<times> bytes) callback" where
  "gridfs_read E sz offset fh =
     bind (assert_that (ndebug E) (ret (fh \<noteq> 0))) (\<lambda>_.
     catch_with (bind (deref fh) (\<lambda>lInfo. case lInfo of
         FILE lFile \<Rightarrow>
           bind (with_file fh lFile (file_read E sz offset)) (\<lambda>(n, bs). ret (c_int n, bs))
       | _ \<Rightarrow> bind (assert_that (ndebug E) (ret False)) (\<lambda>_. ret (0, [])))) (- EIO, []))"

definition gridfs_truncate :: "'w env \<Rightarrow> string \<Rightarrow> int \<Rightarrow> ('w, 'x, int) callback" where
  "gridfs_truncate E path offset =
     (let lPath = configure_path (config E) path in
      catch_with (local_object (new_file E lPath) drop_connection
        (bind (entry_exists E) (\<lambda>ex.
          if \<not> ex then ret (- ENOENT)
          else if offset = 0 then
            bind (file_truncate E) (\<lambda>_.
            bind (outside (forget_path E lPath)) (\<lambda>_.
            ret 0))
          else ret (- EIO)))) (- EIO))"

section \<open>Symbolic links\<close>

definition gridfs_symlink :: "'w env \<Rightarrow> string \<Rightarrow> string \<Rightarrow> ('w, 'x, int) callback" where
  "gridfs_symlink E oldpath newpath =
     (let lNewPath = configure_path (config E) newpath in
      catch_with (local_object (new_entry E lNewPath) drop_connection
        (bind (entry_exists E) (\<lambda>ex.
          if ex then ret (- EEXIST)
          else bind (entry_create E (S_IFLNK OR 0x1FF) (default_uid (config E))
                 (default_gid (config E)) oldpath) (\<lambda>_. ret 0)))) (- EIO))"

definition gridfs_readlink ::
  "'w env \<Rightarrow> string \<Rightarrow> int \<Rightarrow> ('w, 'x, int \<times> bytes option) callback" where
  "gridfs_readlink E path sz =
     (let lPath = configure_path (config E) path in
      catch_with (local_object (new_entry E lPath) drop_connection
        (bind (entry_exists E) (\<lambda>ex.
          if \<not> ex then ret (- ENOENT, None)
          else bind (symlink_read E sz) (\<lambda>link. ret (0, Some link)))))
        (- EIO, None))"

end
