(* ===== verification/Resources.thy ===== *)
theory Resources
  imports Operations
begin

text \<open>
  What every callback keeps, whatever the servers answer. The locale \<open>stack_frame\<close>
  collects what a family of state predicates, indexed by the connections of the stack and the
  cache handles in use, has to survive: calls and scopes of objects. The locale
  \<open>handle_frame\<close> adds changes of an object in place, \<open>resource_frame\<close> new handles and
  \<open>closing_frame\<close> the deletion of one object. Their client lemmas are the callbacks. Interpreted on
  \<open>balanced\<close> it gives the balance of the pools (each open file or directory holds one
  database connection, no cache handle stays taken), interpreted on \<open>balanced\<close> together with
  \<open>kept\<close> it shows that callbacks leave the handles alone that they are not given.
\<close>

section \<open>Sequencing\<close>

lemma moves_bind:
  assumes "moves P m Q" "\<And>a. keeps Q (f a)"
  shows "moves P (bind m f) Q"
proof (rule movesI)
  fix s r s' assume P: "P s" and run: "bind m f s = (r, s')" and g: "goes_on r"
  obtain q t where m: "m s = (q, t)" by (cases "m s")
  show "Q s'"
  proof (cases q)
    case (Ret a)
    then have "Q t" using movesD [OF assms(1) P m] by simp
    moreover from run m Ret have "f a t = (r, s')" by (simp add: bind_def)
    ultimately show ?thesis using keepsD [OF assms(2)] g by blast
  next
    case (Throw e)
    with run m show ?thesis using movesD [OF assms(1) P m] by (auto simp: bind_def)
  qed (use run m g in \<open>auto simp: bind_def\<close>)
qed

lemma moves_if: "moves P m Q \<Longrightarrow> moves P m' Q \<Longrightarrow> moves P (if b then m else m') Q"
  by simp

text \<open>A step that first looks up the object.\<close>

lemma deref_then:
  assumes "\<And>s r s' fi. P s \<Longrightarrow> fh \<noteq> 0 \<Longrightarrow> objects s fh = Some fi \<Longrightarrow> k fi s = (r, s') \<Longrightarrow>
      goes_on r \<Longrightarrow> P s'"
  shows "keeps P (bind (deref fh) k)"
proof (rule keepsI)
  fix s r s' assume P: "P s" and run: "bind (deref fh) k s = (r, s')" and g: "goes_on r"
  show "P s'"
  proof (cases "fh = 0 \<or> objects s fh = None")
    case True
    with run g show ?thesis by (cases "fh = 0") (auto simp: bind_def deref_def)
  next
    case False
    then obtain fi where "fh \<noteq> 0" "objects s fh = Some fi" by auto
    with run have "k fi s = (r, s')" by (auto simp: bind_def deref_def)
    with assms P \<open>fh \<noteq> 0\<close> \<open>objects s fh = Some fi\<close> g show ?thesis by blast
  qed
qed

lemma bind_goes_on:
  assumes "bind m f s = (r, s')" "goes_on r"
  obtains q t where "m s = (q, t)" "goes_on q" "\<And>a. q = Ret a \<Longrightarrow> f a t = (r, s')"
    "\<And>e. q = Throw e \<Longrightarrow> s' = t"
proof -
  obtain q t where m: "m s = (q, t)" by (cases "m s")
  have "goes_on q" using assms m by (cases q) (auto simp: bind_def)
  moreover have "q = Ret a \<Longrightarrow> f a t = (r, s')" for a using assms(1) m by (simp add: bind_def)
  moreover have "q = Throw e \<Longrightarrow> s' = t" for e using assms(1) m by (simp add: bind_def)
  ultimately show thesis using that m by blast
qed

section \<open>What callbacks do to the resources\<close>

locale stack_frame =
  fixes P :: "nat \<Rightarrow> nat \<Rightarrow> ('w, 'x) fuse_state_scheme \<Rightarrow> bool"
  assumes world: "P n m (s\<lparr>world := w\<rparr>) = P n m s"
    and take: "P n m s \<Longrightarrow> P (Suc n) m (take_connection s)"
    and drop: "P (Suc n) m s \<Longrightarrow> P n m (drop_connection s)"
    and acquire: "P n m s \<Longrightarrow> P n (Suc m) (memcache_acquire s)"
    and release: "P n (Suc m) s \<Longrightarrow> P n m (memcache_release s)"
begin

lemma free_of_world: "world_free (P n m)" "world_free (\<lambda>s. P n m s \<and> objects s = t)"
  by (simp_all add: world_free_def world)

lemma new_entry_constructs:
  "constructs (P n m) (new_entry E p) (P (Suc n) m)"
  by (auto simp: constructs_def new_entry_def connection_string_def bind_def call_def modify_def
      on_throw_def ret_def throw_def take drop world
      split: prod.splits outcome.splits sum.splits if_splits)

lemma new_file_constructs:
  "constructs (P n m) (new_file E p) (P (Suc n) m)"
  using new_entry_constructs [of n m E p]
  by (auto simp: constructs_def new_file_def bind_def ret_def split: prod.splits outcome.splits)

lemma with_entry_keeps:
  assumes "keeps (away (P (Suc n) m)) body"
  shows "keeps (P n m) (local_object (new_entry E p) drop_connection body)"
  using local_object_keeps [OF new_entry_constructs assms drop] .

lemma with_new_file_keeps:
  assumes "keeps (away (P (Suc n) m)) body"
  shows "keeps (P n m) (local_object (new_file E p) drop_connection body)"
  using local_object_keeps [OF new_file_constructs assms drop] .

lemma with_memcache_keeps:
  assumes "keeps (P n (Suc m)) body"
  shows "keeps (P n m) (with_memcache body)"
proof (rule keepsI)
  fix s r s' assume b: "P n m s" and run: "with_memcache body s = (r, s')" and g: "goes_on r"
  have "moves (P n (Suc m)) (with_dtor body memcache_release) (P n m)"
    using assms release unfolding keeps_def by (rule moves_with_dtor)
  moreover have "with_dtor body memcache_release (memcache_acquire s) = (r, s')"
    using run by (simp add: with_memcache_def bind_def modify_def)
  ultimately show "P n m s'" using acquire [OF b] g by (blast dest: movesD)
qed

lemma forget_path_keeps: "keeps (P n m) (forget_path E p)"
  unfolding forget_path_def
  by (intro with_memcache_keeps keeps_intros free_of_world)

lemmas frame_intros =
  keeps_intros with_entry_keeps with_new_file_keeps forget_path_keeps free_of_world

text \<open>Callbacks on a path\<close>

lemma getattr_keeps: "keeps (P n m) (gridfs_getattr E p st)"
  unfolding gridfs_getattr_def Let_def
  by (intro with_memcache_keeps) (auto intro!: frame_intros split: option.split)

lemma chmod_keeps: "keeps (P n m) (gridfs_chmod E p mode)"
  unfolding gridfs_chmod_def Let_def by (intro frame_intros)

lemma chown_keeps: "keeps (P n m) (gridfs_chown E p uid gid)"
  unfolding gridfs_chown_def Let_def by (intro frame_intros)

lemma utimens_keeps: "keeps (P n m) (gridfs_utimens E p time)"
  unfolding gridfs_utimens_def Let_def by (intro frame_intros)

lemma mkdir_keeps: "keeps (P n m) (gridfs_mkdir E p mode)"
  unfolding gridfs_mkdir_def Let_def by (intro frame_intros)

lemma rmdir_keeps: "keeps (P n m) (gridfs_rmdir E p)"
  unfolding gridfs_rmdir_def Let_def by (intro frame_intros)

lemma unlink_keeps: "keeps (P n m) (gridfs_unlink E p)"
  unfolding gridfs_unlink_def Let_def by (intro frame_intros)

lemma truncate_keeps: "keeps (P n m) (gridfs_truncate E p off)"
  unfolding gridfs_truncate_def Let_def by (intro frame_intros)

lemma symlink_keeps: "keeps (P n m) (gridfs_symlink E old new)"
  unfolding gridfs_symlink_def Let_def by (intro frame_intros)

lemma readlink_keeps: "keeps (P n m) (gridfs_readlink E p sz)"
  unfolding gridfs_readlink_def Let_def by (intro frame_intros)

end

text \<open>Predicates that also survive changes of an object in place.\<close>

locale handle_frame = stack_frame P
  for P :: "nat \<Rightarrow> nat \<Rightarrow> ('w, 'x) fuse_state_scheme \<Rightarrow> bool" +
  fixes mine :: "nat \<Rightarrow> bool"
  assumes replace_file: "mine fh \<Longrightarrow> P n m s \<Longrightarrow> objects s fh = Some (FILE f) \<Longrightarrow>
      P n m (s\<lparr>objects := (objects s)(fh \<mapsto> FILE f')\<rparr>)"
    and replace_directory: "mine fh \<Longrightarrow> P n m s \<Longrightarrow> objects s fh = Some (DIRECTORY e) \<Longrightarrow>
      P n m (s\<lparr>objects := (objects s)(fh \<mapsto> DIRECTORY e')\<rparr>)"
begin

text \<open>Callbacks on a handle\<close>

lemma with_file_keeps:
  assumes own: "mine fh"
    and m: "\<And>t. keeps (away (\<lambda>s. P n k s \<and> objects s = t)) m"
    and s: "P n k s" "objects s fh = Some (FILE f)"
    and run: "with_file fh f m s = (r, s')" "goes_on r"
  shows "P n k s'"
proof -
  obtain f' t where t: "m (f, s) = (r, (f', t))" "s' = t\<lparr>objects := (objects t)(fh \<mapsto> FILE f')\<rparr>"
    using run(1) by (auto simp: with_file_def split: prod.splits)
  from keepsD [OF m [of "objects s"] _ t(1) run(2)] s(1)
  have b: "P n k t" and o: "objects t = objects s" by auto
  show ?thesis unfolding t(2) using replace_file [OF own b, of f f'] o s(2) by simp
qed

lemma with_directory_keeps:
  assumes own: "mine fh"
    and m: "\<And>t. keeps (away (\<lambda>s. P n k s \<and> objects s = t)) m"
    and s: "P n k s" "objects s fh = Some (DIRECTORY e)"
    and run: "with_directory fh e m s = (r, s')" "goes_on r"
  shows "P n k s'"
proof -
  obtain e' t where t: "m (e, s) = (r, (e', t))" "s' = t\<lparr>objects := (objects t)(fh \<mapsto> DIRECTORY e')\<rparr>"
    using run(1) by (auto simp: with_directory_def split: prod.splits)
  from keepsD [OF m [of "objects s"] _ t(1) run(2)] s(1)
  have b: "P n k t" and o: "objects t = objects s" by auto
  show ?thesis unfolding t(2) using replace_directory [OF own b, of e e'] o s(2) by simp
qed

lemma file_step_keeps:
  assumes own: "mine fh"
    and m: "\<And>t. keeps (away (\<lambda>s. P n k s \<and> objects s = t)) m"
    and c: "\<And>a. keeps (P n k) (c a)"
    and s: "P n k s" "objects s fh = Some (FILE f)"
    and run: "bind (with_file fh f m) c s = (r, s')" "goes_on r"
  shows "P n k s'"
  using run
proof (rule bind_goes_on)
  fix q t assume q: "with_file fh f m s = (q, t)" "goes_on q"
    and ret: "\<And>a. q = Ret a \<Longrightarrow> c a t = (r, s')" and thr: "\<And>e. q = Throw e \<Longrightarrow> s' = t"
  have t: "P n k t" by (rule with_file_keeps [OF own m s q])
  show "P n k s'"
  proof (cases q)
    case (Ret a)
    then show ?thesis using keepsD [OF c t ret] run(2) by blast
  next
    case (Throw e)
    then show ?thesis using t thr by simp
  qed (use q in simp_all)
qed

lemma directory_step_keeps:
  assumes own: "mine fh"
    and m: "\<And>t. keeps (away (\<lambda>s. P n k s \<and> objects s = t)) m"
    and s: "P n k s" "objects s fh = Some (DIRECTORY e)"
    and run: "bind (with_directory fh e m) (\<lambda>_. ret a) s = (r, s')" "goes_on r"
  shows "P n k s'"
  using run
proof (rule bind_goes_on)
  fix q t assume q: "with_directory fh e m s = (q, t)" "goes_on q"
    and ret: "\<And>b. q = Ret b \<Longrightarrow> ret a t = (r, s')" and thr: "\<And>e. q = Throw e \<Longrightarrow> s' = t"
  have t: "P n k t" by (rule with_directory_keeps [OF own m s q])
  show "P n k s'"
  proof (cases q)
    case (Ret b)
    then show ?thesis using t ret by (simp add: ret_def)
  next
    case (Throw e)
    then show ?thesis using t thr by simp
  qed (use q in simp_all)
qed

lemma readdir_keeps:
  assumes own: "mine fh"
  shows "keeps (P n m) (gridfs_readdir E filler fh)"
  unfolding gridfs_readdir_def
proof (intro keeps_catch deref_then)
  fix s :: "('w, 'x) fuse_state_scheme" and r s' fi
  assume s: "P n m s" "objects s fh = Some fi" and g: "goes_on r"
    and run: "bind (case fi of DIRECTORY lDir \<Rightarrow> with_directory fh lDir (directory_list E filler)
        | PROC lProc \<Rightarrow> proc_list E filler lProc
        | FILE _ \<Rightarrow> assert_that (ndebug E) (ret False)) (\<lambda>_. ret (0::int)) s = (r, s')"
  show "P n m s'"
  proof (cases fi)
    case (PROC p)
    have "keeps (P n m) (bind (proc_list E filler p) (\<lambda>_. ret (0::int)))"
      by (intro frame_intros)
    then show ?thesis using keepsD s(1) run g PROC by fastforce
  next
    case (DIRECTORY e)
    then show ?thesis
      using directory_step_keeps [where m = "directory_list E filler", OF own _ s(1) _ _ g]
        keeps_directory_list [OF free_of_world(2)] s(2) run by force
  next
    case (FILE f)
    have "keeps (P n m) (bind (assert_that (ndebug E) (ret False)) (\<lambda>_. ret (0::int)))"
      by (intro frame_intros)
    then show ?thesis using keepsD s(1) run g FILE by fastforce
  qed
qed

lemma write_keeps:
  assumes own: "mine fh"
  shows "keeps (P n m) (gridfs_write E data off fh)"
  unfolding gridfs_write_def
proof (rule keeps_bind [OF keeps_assert [OF keeps_ret]], rule keeps_catch, rule deref_then)
  fix s :: "('w, 'x) fuse_state_scheme" and r s' fi
  assume s: "P n m s" "objects s fh = Some fi" and g: "goes_on r"
    and run: "(case fi of FILE lFile \<Rightarrow>
        bind (with_file fh lFile (file_write E data off)) (\<lambda>n. ret (c_int n))
      | _ \<Rightarrow> bind (assert_that (ndebug E) (ret False)) (\<lambda>_. ret 0)) s = (r, s')"
  have other: "keeps (P n m) (bind (assert_that (ndebug E) (ret False)) (\<lambda>_. ret (0::int)))"
    by (intro frame_intros)
  show "P n m s'"
  proof (cases fi)
    case (FILE f)
    have m: "keeps (away (\<lambda>s. P n m s \<and> objects s = t)) (file_write E data off)"
      for t by (intro frame_intros)
    show ?thesis
      by (rule file_step_keeps [OF own m keeps_ret s(1) s(2) [unfolded FILE] _ g])
        (use run FILE in simp)
  qed (use keepsD [OF other s(1) _ g] run in auto)
qed

lemma read_keeps:
  assumes own: "mine fh"
  shows "keeps (P n m) (gridfs_read E sz off fh)"
  unfolding gridfs_read_def
proof (rule keeps_bind [OF keeps_assert [OF keeps_ret]], rule keeps_catch, rule deref_then)
  fix s :: "('w, 'x) fuse_state_scheme" and r s' fi
  assume s: "P n m s" "objects s fh = Some fi" and g: "goes_on r"
    and run: "(case fi of FILE lFile \<Rightarrow>
        bind (with_file fh lFile (file_read E sz off)) (\<lambda>(n, bs). ret (c_int n, bs))
      | _ \<Rightarrow> bind (assert_that (ndebug E) (ret False)) (\<lambda>_. ret (0, []))) s = (r, s')"
  have other: "keeps (P n m) (bind (assert_that (ndebug E) (ret False)) (\<lambda>_. ret (0::int, [])))"
    by (intro frame_intros)
  show "P n m s'"
  proof (cases fi)
    case (FILE f)
    have m: "keeps (away (\<lambda>s. P n m s \<and> objects s = t)) (file_read E sz off)"
      for t by (intro frame_intros)
    have c: "keeps (P n m) (case a of (n, bs) \<Rightarrow> ret (c_int n, bs))" for a
      by (cases a) (simp add: keeps_ret)
    show ?thesis
      by (rule file_step_keeps [OF own m c s(1) s(2) [unfolded FILE] _ g])
        (use run FILE in simp)
  qed (use keepsD [OF other s(1) _ g] run in auto)
qed

end

text \<open>Predicates that survive new handles, too.\<close>

locale resource_frame = handle_frame P mine
  for P :: "nat \<Rightarrow> nat \<Rightarrow> ('w, 'x) fuse_state_scheme \<Rightarrow> bool" and mine :: "nat \<Rightarrow> bool" +
  assumes publish: "P (if holds_connection fi then Suc n else n) m s \<Longrightarrow>
      P n m (snd (release_handle fi s))"
begin

text \<open>Callbacks that open\<close>

lemma release_handle_moves:
  "moves (P (if holds_connection fi then Suc n else n) m) (release_handle fi) (P n m)"
proof (rule movesI)
  fix s r s' assume "P (if holds_connection fi then Suc n else n) m s" "release_handle fi s = (r, s')"
  then show "P n m s'" using publish [of fi n m s] by simp
qed

lemma release_holder:
  "holds_connection fi \<Longrightarrow>
   moves (P (Suc n) m) (bind (release_handle fi) (\<lambda>fh. ret (g fh))) (P n m)"
  using release_handle_moves [of fi n m] by (intro moves_bind) (auto intro: keeps_ret)

lemma release_proc:
  "keeps (P n m) (bind (release_handle (PROC p)) (\<lambda>fh. ret (g fh)))"
  using release_handle_moves [of "PROC p" n m] unfolding keeps_def
  by (intro moves_bind) (auto intro: keeps_ret)

lemma drop_moves: "moves (P (Suc n) m) (bind (modify drop_connection) (\<lambda>_. ret a)) (P n m)"
  by (intro moves_bind) (auto simp: moves_def modify_def drop intro: keeps_ret)

lemma opendir_keeps: "keeps (P n m) (gridfs_opendir E p fh)"
  unfolding gridfs_opendir_def Let_def
  by (intro keeps_catch keeps_if release_proc
      lifetime_keeps [OF new_entry_constructs _ drop]
      moves_if drop_moves release_holder keeps_entry_exists free_of_world) simp_all

lemma open_keeps: "keeps (P n m) (gridfs_open E p fh)"
  unfolding gridfs_open_def Let_def
  by (intro keeps_catch keeps_if release_proc keeps_bind keeps_proc_create keeps_assert
      lifetime_keeps [OF new_file_constructs _ drop]
      release_holder keeps_entry_exists free_of_world) simp_all

lemma create_keeps: "keeps (P n m) (gridfs_create E p mode)"
  unfolding gridfs_create_def Let_def
  by (intro keeps_catch keeps_if keeps_bind keeps_ret keeps_proc_create
      lifetime_keeps [OF new_file_constructs _ drop]
      release_holder keeps_entry_exists keeps_entry_create free_of_world) simp_all

end

text \<open>The two callbacks that delete the object behind the handle \<open>h\<close>.\<close>

locale closing_frame = handle_frame P mine
  for P :: "nat \<Rightarrow> nat \<Rightarrow> ('w, 'x) fuse_state_scheme \<Rightarrow> bool" and mine :: "nat \<Rightarrow> bool" +
  fixes h :: nat
  assumes own: "mine h"
    and destroy: "P n m s \<Longrightarrow> P n m (destroy_handle h s)"
begin

lemma releasedir_keeps: "keeps (P n m) (gridfs_releasedir E h)"
proof -
  have "keeps (P n m) (delete_handle h)"
    using destroy by (auto simp: keeps_def moves_def delete_handle_def split: option.splits if_splits)
  then show ?thesis unfolding gridfs_releasedir_def by (intro keeps_catch keeps_bind keeps_ret)
qed

lemma release_keeps: "keeps (P n m) (gridfs_release E p h)"
  unfolding gridfs_release_def Let_def
proof (intro keeps_with_dtor keeps_catch deref_then destroy)
  fix s :: "('w, 'x) fuse_state_scheme" and r s' fi
  let ?p = "configure_path (config E) p"
  assume s: "P n m s" "objects s h = Some fi" and g: "goes_on r"
    and run: "(case fi of FILE lFile \<Rightarrow>
        (if theHasChanges lFile then bind (with_file h lFile (file_store E))
          (\<lambda>_. bind (forget_path E ?p) (\<lambda>_. ret (0::int))) else ret 0)
      | _ \<Rightarrow> bind (forget_path E ?p) (\<lambda>_. ret 0)) s = (r, s')"
  have forget: "keeps (P n m) (bind (forget_path E ?p) (\<lambda>_. ret (0::int)))"
    by (intro frame_intros)
  show "P n m s'"
  proof (cases fi)
    case (FILE f)
    have m: "keeps (away (\<lambda>s. P n m s \<and> objects s = t)) (file_store E)"
      for t by (intro frame_intros)
    show ?thesis
    proof (cases "theHasChanges f")
      case True
      show ?thesis
        by (rule file_step_keeps [where c = "\<lambda>_. bind (forget_path E ?p) (\<lambda>_. ret 0)",
              OF own m forget s(1) s(2) [unfolded FILE] _ g])
          (use run FILE True in simp)
    next
      case False
      with run FILE s(1) show ?thesis by (simp add: ret_def)
    qed
  qed (use keepsD [OF forget s(1) _ g] run in auto)
qed

end

text \<open>Both together.\<close>

locale release_frame = resource_frame P mine + closing_frame P mine h
  for P :: "nat \<Rightarrow> nat \<Rightarrow> ('w, 'x) fuse_state_scheme \<Rightarrow> bool" and mine :: "nat \<Rightarrow> bool" and h :: nat
begin

lemmas frame_callbacks = opendir_keeps open_keeps create_keeps readdir_keeps [OF own] read_keeps [OF own]
  write_keeps [OF own] releasedir_keeps release_keeps

end

section \<open>The two predicates\<close>

interpretation balance: release_frame balanced "\<lambda>_. True" h for h
proof (unfold_locales, goal_cases)
  case (8 fi n m s)
  then show ?case
    using release_handle_balanced [of fi n m s "fst (release_handle fi s)"] by simp
next
  case (6 fh n m s f f')
  then show ?case by (intro balanced_replace [where u = "FILE f"]) simp_all
next
  case (7 fh n m s e e')
  then show ?case by (intro balanced_replace [where u = "DIRECTORY e"]) simp_all
qed (simp_all add: take_connection_balanced drop_connection_balanced acquire_balanced
    release_balanced destroy_handle_balanced)

text \<open>The objects of a table are still there, each of its type.\<close>

definition same_type :: "file_info \<Rightarrow> file_info \<Rightarrow> bool" where
  "same_type u v \<longleftrightarrow> (case (u, v) of
     (PROC _, PROC _) \<Rightarrow> True | (DIRECTORY _, DIRECTORY _) \<Rightarrow> True | (FILE _, FILE _) \<Rightarrow> True
   | _ \<Rightarrow> False)"

definition kept :: "(nat \<rightharpoonup> file_info) \<Rightarrow> ('w, 'x) fuse_state_scheme \<Rightarrow> bool" where
  "kept t s \<longleftrightarrow> (\<forall>a v. t a = Some v \<longrightarrow> (\<exists>u. objects s a = Some u \<and> same_type v u))"

lemma same_type_simps [simp]:
  "same_type v v" "same_type v (FILE f) \<longleftrightarrow> (\<exists>g. v = FILE g)"
  "same_type v (DIRECTORY e) \<longleftrightarrow> (\<exists>d. v = DIRECTORY d)"
  "same_type v (PROC p) \<longleftrightarrow> (\<exists>q. v = PROC q)"
  by (auto simp: same_type_def split: file_info.splits)

lemma kept_refl [simp]: "kept (objects s) s"
  by (simp add: kept_def)

lemma kept_fresh: "kept t s \<Longrightarrow> table_ok s \<Longrightarrow> t (next_addr s) = None"
  using table_ok_fresh [of s] by (cases "t (next_addr s)") (fastforce simp: kept_def)+

lemma kept_replace:
  assumes "kept t s" "objects s fh = Some u" "\<And>v. same_type v u \<Longrightarrow> same_type v u'"
  shows "kept t (s\<lparr>objects := (objects s)(fh \<mapsto> u')\<rparr>)"
  using assms by (fastforce simp: kept_def)

lemma kept_other [simp]:
  "kept t (s\<lparr>world := w\<rparr>) = kept t s" "kept t (take_connection s) = kept t s"
  "kept t (drop_connection s) = kept t s" "kept t (memcache_acquire s) = kept t s"
  "kept t (memcache_release s) = kept t s"
  by (simp_all add: kept_def take_connection_def drop_connection_def memcache_acquire_def
      memcache_release_def)

interpretation others: resource_frame "\<lambda>n m s. balanced n m s \<and> kept t s" "\<lambda>_. True" for t
proof (unfold_locales, goal_cases)
  case (8 fi n m s)
  then have ok: "table_ok s" by (simp add: balanced_def)
  from 8 have "balanced n m (snd (release_handle fi s))" using balance.publish by blast
  moreover have "kept t (snd (release_handle fi s))"
    using 8 kept_fresh [of t s] ok by (auto simp: kept_def release_handle_def)
  ultimately show ?case by simp
next
  case (6 fh n m s f f')
  then show ?case
    using kept_replace [of t s fh "FILE f" "FILE f'"] balance.replace_file by auto
next
  case (7 fh n m s e e')
  then show ?case
    using kept_replace [of t s fh "DIRECTORY e" "DIRECTORY e'"] balance.replace_directory by auto
qed (simp_all add: balance.take balance.drop balance.acquire balance.release)

interpretation rest: release_frame "\<lambda>n m s. balanced n m s \<and> kept (t(h := None)) s" "\<lambda>_. True" h for t h
proof (unfold_locales, goal_cases)
  case (2 n m s)
  then have "balanced n m (destroy_handle h s)" by (simp add: balance.destroy)
  moreover have "kept (t(h := None)) (destroy_handle h s)"
    using 2 by (auto simp: kept_def destroy_handle_def split: option.splits if_splits)
  ultimately show ?case by simp
qed simp

text \<open>All objects are still what they were, but for the one behind the handle \<open>h\<close>.\<close>

definition same_but :: "nat \<Rightarrow> (nat \<rightharpoonup> file_info) \<Rightarrow> ('w, 'x) fuse_state_scheme \<Rightarrow> bool" where
  "same_but h t s \<longleftrightarrow> table_ok s \<and> (\<forall>a v. a \<noteq> h \<longrightarrow> t a = Some v \<longrightarrow> objects s a = Some v)"

lemma same_but_other [simp]:
  "same_but h t (s\<lparr>world := w\<rparr>) = same_but h t s" "same_but h t (take_connection s) = same_but h t s"
  "same_but h t (drop_connection s) = same_but h t s" "same_but h t (memcache_acquire s) = same_but h t s"
  "same_but h t (memcache_release s) = same_but h t s"
  by (simp_all add: same_but_def table_ok_def take_connection_def drop_connection_def memcache_acquire_def
      memcache_release_def)

lemma same_but_publish: "same_but h t s \<Longrightarrow> same_but h t (snd (release_handle fi s))"
proof -
  assume s: "same_but h t s"
  then have "\<forall>a v. a \<noteq> h \<longrightarrow> t a = Some v \<longrightarrow> a < next_addr s" by (auto simp: same_but_def table_ok_def)
  with s show ?thesis by (auto simp: same_but_def table_ok_def release_handle_def less_Suc_eq)
qed

lemma same_but_replace:
  "same_but h t s \<Longrightarrow> objects s h = Some u \<Longrightarrow> same_but h t (s\<lparr>objects := (objects s)(h \<mapsto> u')\<rparr>)"
  by (simp add: same_but_def table_ok_def)

lemma same_but_destroy: "same_but h t s \<Longrightarrow> same_but h t (destroy_handle h s)"
  by (auto simp: same_but_def table_ok_def destroy_handle_def destroy_object_def drop_connection_def
      split: option.splits file_info.splits)

interpretation apart: release_frame "\<lambda>n m s. same_but h t s" "\<lambda>fh. fh = h" h for h t
  by unfold_locales (auto simp: same_but_publish same_but_replace same_but_destroy)

end
