(* ===== verification/Session.thy ===== *)
theory Session
  imports Resources
begin

text \<open>
  The filesystem as a state machine: FUSE delivers requests, one per step, and the callback
  that \<open>Fuse::init\<close> registered answers. The kernel keeps the handles of the files and
  directories that were opened with result 0 and gives them back with later requests until
  the release. The step relation is \<open>session_step\<close>; the reachable states keep the pools
  balanced and every handle of the kernel valid.
\<close>

section \<open>Requests\<close>

datatype request =
    Getattr string
  | Mkdir string u32
  | Rmdir string
  | Opendir string
  | Readdir nat
  | Releasedir nat
  | Create string u32
  | Unlink string
  | Open string
  | Read nat int int
  | Write nat bytes int
  | Release string nat
  | Link string string
  | Readlink string int
  | Chmod string u32
  | Chown string u32 u32
  | Truncate string int
  | Utimens string int

text \<open>The number that goes back to the kernel, and what else the callback hands out.\<close>

datatype payload = Nothing | Attributes stat_buf | Handle nat | Content bytes | Target bytes

definition no_payload :: "('s, int) comp \<Rightarrow> ('s, int \<times> payload) comp" where
  "no_payload m = bind m (\<lambda>n. ret (n, Nothing))"

definition optional :: "('b \<Rightarrow> payload) \<Rightarrow> ('s, int \<times> 'b option) comp \<Rightarrow> ('s, int \<times> payload) comp" where
  "optional p m = bind m (\<lambda>(n, x). ret (n, case x of None \<Rightarrow> Nothing | Some y \<Rightarrow> p y))"

text \<open>
  The table \<open>filesystem_operations\<close> of \<open>Fuse::init\<close>. FUSE clears the buffer of \<open>getattr\<close>
  and the handle of a file before it is opened.
\<close>

definition serve ::
  "'w env \<Rightarrow> (string \<Rightarrow> 'w \<Rightarrow> 'w) \<Rightarrow> request \<Rightarrow> ('w, 'x, int \<times> payload) callback" where
  "serve E filler req = (case req of
     Getattr p \<Rightarrow> optional Attributes (gridfs_getattr E p zero_stat)
   | Mkdir p mode \<Rightarrow> no_payload (gridfs_mkdir E p mode)
   | Rmdir p \<Rightarrow> no_payload (gridfs_rmdir E p)
   | Opendir p \<Rightarrow> bind (gridfs_opendir E p 0) (\<lambda>(n, fh). ret (n, Handle fh))
   | Readdir fh \<Rightarrow> no_payload (gridfs_readdir E filler fh)
   | Releasedir fh \<Rightarrow> no_payload (gridfs_releasedir E fh)
   | Create p mode \<Rightarrow> bind (gridfs_create E p mode) (\<lambda>(n, fh). ret (n, Handle fh))
   | Unlink p \<Rightarrow> no_payload (gridfs_unlink E p)
   | Open p \<Rightarrow> bind (gridfs_open E p 0) (\<lambda>(n, fh). ret (n, Handle fh))
   | Read fh sz off \<Rightarrow> bind (gridfs_read E sz off fh) (\<lambda>(n, bs). ret (n, Content bs))
   | Write fh data off \<Rightarrow> no_payload (gridfs_write E data off fh)
   | Release p fh \<Rightarrow> no_payload (gridfs_release E p fh)
   | Link old new \<Rightarrow> no_payload (gridfs_symlink E old new)
   | Readlink p sz \<Rightarrow> optional Target (gridfs_readlink E p sz)
   | Chmod p mode \<Rightarrow> no_payload (gridfs_chmod E p mode)
   | Chown p uid gid \<Rightarrow> no_payload (gridfs_chown E p uid gid)
   | Truncate p off \<Rightarrow> no_payload (gridfs_truncate E p off)
   | Utimens p time \<Rightarrow> no_payload (gridfs_utimens E p time))"

lemma keeps_no_payload: "keeps P m \<Longrightarrow> keeps P (no_payload m)"
  unfolding no_payload_def by (intro keeps_bind keeps_ret)

lemma keeps_optional: "keeps P m \<Longrightarrow> keeps P (optional p m)"
  unfolding optional_def by (rule keeps_bind) (auto intro: keeps_ret split: prod.split)

lemma keeps_pair: "keeps P m \<Longrightarrow> keeps P (bind m (\<lambda>(n, x). ret (f n x)))"
  by (rule keeps_bind) (auto intro: keeps_ret split: prod.split)

section \<open>No exception leaves a callback\<close>

lemma no_throw_c_call: "no_throw (c_call f)"
  by (auto simp: no_throw_def c_call_def split: prod.split)

lemma no_throw_memcache_get: "no_throw (memcache_get E p)"
  unfolding memcache_get_def
  by (intro no_throw_bind no_throw_c_call)
    (auto intro!: no_throw_intros split: option.split cached_value.split)

lemma no_throw_getattr: "no_throw (gridfs_getattr E p st)"
  unfolding gridfs_getattr_def Let_def with_memcache_def
  by (intro no_throw_intros no_throw_memcache_get)
    (auto intro!: no_throw_intros split: option.split)

lemma no_throw_no_payload: "no_throw m \<Longrightarrow> no_throw (no_payload m)"
  unfolding no_payload_def by (intro no_throw_intros)

lemma no_throw_pair: "no_throw m \<Longrightarrow> no_throw (bind m (\<lambda>(n, x). ret (f n x)))"
  by (rule no_throw_bind) (auto intro: no_throw_ret split: prod.split)

lemma no_throw_serve: "no_throw (serve E filler req)"
proof (cases req)
  case (Getattr p)
  then show ?thesis
    by (simp add: serve_def optional_def no_throw_pair no_throw_getattr)
next
  case (Readlink p sz)
  then show ?thesis
    by (simp add: serve_def optional_def gridfs_readlink_def Let_def no_throw_pair no_throw_catch)
qed (auto simp: serve_def gridfs_mkdir_def gridfs_rmdir_def gridfs_opendir_def gridfs_readdir_def
    gridfs_releasedir_def gridfs_create_def gridfs_unlink_def gridfs_open_def gridfs_read_def
    gridfs_write_def gridfs_release_def gridfs_symlink_def gridfs_chmod_def gridfs_chown_def
    gridfs_truncate_def gridfs_utimens_def Let_def
    intro!: no_throw_no_payload no_throw_pair no_throw_intros)

section \<open>The machine\<close>

text \<open>The kernel's tables: the handles of open files and of open directories.\<close>

record 'w machine =
  fuse :: "'w fuse_state"
  files :: "nat set"
  dirs :: "nat set"

definition opened :: "int \<Rightarrow> nat \<Rightarrow> nat set \<Rightarrow> nat set" where
  "opened n fh hs = (if n = 0 then insert fh hs else hs)"

text \<open>Requests that carry no handle and open nothing.\<close>

fun by_path :: "request \<Rightarrow> bool" where
  "by_path (Opendir p) = False"
| "by_path (Readdir fh) = False"
| "by_path (Releasedir fh) = False"
| "by_path (Create p mode) = False"
| "by_path (Open p) = False"
| "by_path (Read fh sz off) = False"
| "by_path (Write fh data off) = False"
| "by_path (Release p fh) = False"
| "by_path req = True"

inductive session_step ::
  "'w env \<Rightarrow> (string \<Rightarrow> 'w \<Rightarrow> 'w) \<Rightarrow> 'w machine \<Rightarrow> request \<Rightarrow> int \<times> payload \<Rightarrow> 'w machine \<Rightarrow> bool"
  for E filler where
    Path: "\<lbrakk>by_path req; serve E filler req (fuse k) = (Ret rep, s')\<rbrakk> \<Longrightarrow>
      session_step E filler k req rep (k\<lparr>fuse := s'\<rparr>)"
  | OpenFile: "\<lbrakk>req = Create p mode \<or> req = Open p; serve E filler req (fuse k) = (Ret (n, Handle fh), s')\<rbrakk> \<Longrightarrow>
      session_step E filler k req (n, Handle fh) (k\<lparr>fuse := s', files := opened n fh (files k)\<rparr>)"
  | OpenDir: "serve E filler (Opendir p) (fuse k) = (Ret (n, Handle fh), s') \<Longrightarrow>
      session_step E filler k (Opendir p) (n, Handle fh) (k\<lparr>fuse := s', dirs := opened n fh (dirs k)\<rparr>)"
  | UseFile: "\<lbrakk>req = Read fh sz off \<or> req = Write fh data off; fh \<in> files k;
        serve E filler req (fuse k) = (Ret rep, s')\<rbrakk> \<Longrightarrow>
      session_step E filler k req rep (k\<lparr>fuse := s'\<rparr>)"
  | UseDir: "\<lbrakk>fh \<in> dirs k; serve E filler (Readdir fh) (fuse k) = (Ret rep, s')\<rbrakk> \<Longrightarrow>
      session_step E filler k (Readdir fh) rep (k\<lparr>fuse := s'\<rparr>)"
  | CloseFile: "\<lbrakk>fh \<in> files k; serve E filler (Release p fh) (fuse k) = (Ret rep, s')\<rbrakk> \<Longrightarrow>
      session_step E filler k (Release p fh) rep (k\<lparr>fuse := s', files := files k - {fh}\<rparr>)"
  | CloseDir: "\<lbrakk>fh \<in> dirs k; serve E filler (Releasedir fh) (fuse k) = (Ret rep, s')\<rbrakk> \<Longrightarrow>
      session_step E filler k (Releasedir fh) rep (k\<lparr>fuse := s', dirs := dirs k - {fh}\<rparr>)"

inductive reachable ::
  "'w env \<Rightarrow> (string \<Rightarrow> 'w \<Rightarrow> 'w) \<Rightarrow> 'w machine \<Rightarrow> 'w machine \<Rightarrow> bool"
  for E filler k0 where
    Start: "reachable E filler k0 k0"
  | Step: "\<lbrakk>reachable E filler k0 k; session_step E filler k req rep k'\<rbrakk> \<Longrightarrow>
      reachable E filler k0 k'"

inductive_cases session_stepE: "session_step E filler k req rep k'"
inductive_simps session_release: "session_step E filler k (Release p fh) rep k'"
inductive_simps session_write: "session_step E filler k (Write fh data off) rep k'"
inductive_simps session_read: "session_step E filler k (Read fh sz off) rep k'"

text \<open>A mounted filesystem before the first request.\<close>

definition fresh :: "'w machine \<Rightarrow> bool" where
  "fresh k \<longleftrightarrow> conns (fuse k) = 0 \<and> caches (fuse k) = 0 \<and> objects (fuse k) = (\<lambda>_. None) \<and>
     0 < next_addr (fuse k) \<and> files k = {} \<and> dirs k = {}"

section \<open>The invariant\<close>

definition live_file :: "('w, 'x) fuse_state_scheme \<Rightarrow> nat \<Rightarrow> bool" where
  "live_file s fh \<longleftrightarrow> (\<exists>v. objects s fh = Some v \<and> \<not> (\<exists>e. v = DIRECTORY e))"

definition live_dir :: "('w, 'x) fuse_state_scheme \<Rightarrow> nat \<Rightarrow> bool" where
  "live_dir s fh \<longleftrightarrow> (\<exists>v. objects s fh = Some v \<and> \<not> (\<exists>f. v = FILE f))"

text \<open>
  The handles of the kernel are valid; a file handle may also be 0, which \<open>create\<close> gives for
  a path of \<open>/proc\<close>. No handle is in both tables.
\<close>

definition session_ok :: "'w machine \<Rightarrow> bool" where
  "session_ok k \<longleftrightarrow> balanced 0 0 (fuse k) \<and>
     (\<forall>fh \<in> files k. fh = 0 \<or> live_file (fuse k) fh) \<and> (\<forall>fh \<in> dirs k. live_dir (fuse k) fh) \<and>
     files k \<inter> dirs k = {}"

lemma fresh_ok: "fresh k \<Longrightarrow> session_ok k"
  by (auto simp: fresh_def session_ok_def balanced_def table_ok_def holders_def)

lemma same_type_constructor:
  "same_type v u \<Longrightarrow> (\<exists>e. u = DIRECTORY e) \<longleftrightarrow> (\<exists>e. v = DIRECTORY e)"
  "same_type v u \<Longrightarrow> (\<exists>f. u = FILE f) \<longleftrightarrow> (\<exists>f. v = FILE f)"
  by (cases u; cases v; simp add: same_type_def)+

lemma live_file_kept:
  assumes "kept t s" "t fh = objects s0 fh" "live_file s0 fh"
  shows "live_file s fh"
proof -
  obtain v where v: "t fh = Some v" "\<not> (\<exists>e. v = DIRECTORY e)"
    using assms(2,3) by (auto simp: live_file_def)
  then obtain u where "objects s fh = Some u" "same_type v u"
    using assms(1) unfolding kept_def by blast
  with v(2) same_type_constructor(1) show ?thesis by (auto simp: live_file_def)
qed

lemma live_dir_kept:
  assumes "kept t s" "t fh = objects s0 fh" "live_dir s0 fh"
  shows "live_dir s fh"
proof -
  obtain v where v: "t fh = Some v" "\<not> (\<exists>e. v = FILE e)"
    using assms(2,3) by (auto simp: live_dir_def)
  then obtain u where "objects s fh = Some u" "same_type v u"
    using assms(1) unfolding kept_def by blast
  with v(2) same_type_constructor(2) show ?thesis by (auto simp: live_dir_def)
qed

text \<open>What a callback keeps, unless it deletes an object.\<close>

lemma serve_keeps:
  assumes "\<And>p fh. req \<noteq> Release p fh" "\<And>fh. req \<noteq> Releasedir fh"
  shows "keeps (\<lambda>s. balanced n m s \<and> kept t s) (serve E filler req)"
  by (cases req; use assms in \<open>simp add: serve_def\<close>)
    (intro keeps_no_payload keeps_optional keeps_pair
      others.getattr_keeps others.mkdir_keeps others.rmdir_keeps others.opendir_keeps
      others.readdir_keeps [OF TrueI] others.create_keeps others.unlink_keeps others.open_keeps
      others.read_keeps [OF TrueI] others.write_keeps [OF TrueI] others.symlink_keeps others.readlink_keeps
      others.chmod_keeps others.chown_keeps others.truncate_keeps others.utimens_keeps)+

lemma serve_release_keeps:
  "keeps (\<lambda>s. balanced n m s \<and> kept (t(fh := None)) s) (serve E filler (Release p fh))"
  "keeps (\<lambda>s. balanced n m s \<and> kept (t(fh := None)) s) (serve E filler (Releasedir fh))"
  by (simp_all add: serve_def keeps_no_payload rest.release_keeps rest.releasedir_keeps)

lemma serve_step:
  assumes "balanced n m s" "serve E filler req s = (Ret rep, s')"
    and "\<And>p fh. req \<noteq> Release p fh" "\<And>fh. req \<noteq> Releasedir fh"
  shows "balanced n m s'" "kept (objects s) s'"
  using keepsD [OF serve_keeps [OF assms(3,4), of n m "objects s"] _ assms(2)] assms(1) by auto

text \<open>The handle that a request names, 0 for none. The objects behind all others stay as they are.\<close>

fun handle_of :: "request \<Rightarrow> nat" where
  "handle_of (Readdir fh) = fh"
| "handle_of (Releasedir fh) = fh"
| "handle_of (Read fh sz off) = fh"
| "handle_of (Write fh data off) = fh"
| "handle_of (Release p fh) = fh"
| "handle_of req = 0"

lemma serve_keeps_others: "keeps (same_but (handle_of req) t) (serve E filler req)"
  by (cases req; simp add: serve_def)
    (intro keeps_no_payload keeps_optional keeps_pair
      apart.getattr_keeps apart.mkdir_keeps apart.rmdir_keeps apart.opendir_keeps
      apart.readdir_keeps [OF refl] apart.create_keeps apart.unlink_keeps apart.open_keeps
      apart.read_keeps [OF refl] apart.write_keeps [OF refl] apart.symlink_keeps apart.readlink_keeps
      apart.chmod_keeps apart.chown_keeps apart.truncate_keeps apart.utimens_keeps
      apart.release_keeps apart.releasedir_keeps)+

lemma serve_same_but:
  assumes "table_ok s" "serve E filler req s = (Ret rep, s')" "handle_of req \<noteq> a"
    and "objects s a = Some v"
  shows "objects s' a = Some v"
proof -
  have "same_but (handle_of req) (objects s) s" using assms(1) by (simp add: same_but_def)
  from keepsD [OF serve_keeps_others this assms(2)] assms(3,4) show ?thesis by (simp add: same_but_def)
qed

text \<open>What a callback that opens hands out: a new handle of the right type.\<close>

lemma lifetime_result:
  assumes "constructs P ctor Q" "keeps (away Q) body" "P s" "lifetime ctor body d k s = (Ret r, s')"
  obtains a ob t where "Q t" "k a ob t = (Ret r, s')"
proof -
  obtain q t where c: "ctor s = (q, t)" by (cases "ctor s")
  with assms(4) obtain ob where q: "q = Ret ob" by (cases q) (auto simp: lifetime_def bind_def)
  then have Q: "Q t" using constructsD(1) [OF assms(1,3)] c by simp
  obtain q2 ob2 t2 where b: "body (ob, t) = (q2, (ob2, t2))" by (cases "body (ob, t)") auto
  with assms(4) c q obtain a where q2: "q2 = Ret a"
    by (cases q2) (auto simp: lifetime_def bind_def)
  have "Q t2" using keepsD [OF assms(2) _ b] Q q2 by simp
  moreover have "k a ob2 t2 = (Ret r, s')" using assms(4) c q b q2 by (simp add: lifetime_def bind_def)
  ultimately show thesis using that by blast
qed

lemma released_handle:
  assumes "release_handle fi t = (Ret fh, s')" "table_ok t" "kept (objects s) t"
  shows "objects s' fh = Some fi" "objects s fh = None" "fh \<noteq> 0"
  using assms kept_fresh [of "objects s" t] by (auto simp: release_handle_def table_ok_def)

lemma open_handle:
  assumes s: "balanced 0 m s" and run: "gridfs_open E p fh0 s = (Ret (0, fh), s')"
  shows "live_file s' fh" "objects s fh = None" "fh \<noteq> 0"
proof -
  let ?P = "\<lambda>n s'. balanced n m s' \<and> kept (objects s) s'"
  let ?lPath = "configure_path (config E) p"
  let ?proc = "new_proc (config E) ?lPath"
  have "\<exists>fi t. \<not> (\<exists>e. fi = DIRECTORY e) \<and> (\<exists>n. ?P n t) \<and> release_handle fi t = (Ret fh, s')"
  proof (cases "is_proc (config E) ?lPath")
    case True
    from run obtain c t where "proc_create E ?proc s = (Ret c, t)"
      "release_handle (PROC ?proc) t = (Ret fh, s')"
      by (fastforce simp: gridfs_open_def Let_def True ENAMETOOLONG_def EIO_def ret_def
          dest!: catch_with_result bind_result)
    moreover have "keeps (?P 0) (proc_create E ?proc)"
      by (intro keeps_proc_create others.free_of_world)
    from keepsD [OF this _ calculation(1)] have "?P 0 t" using s by simp
    ultimately show ?thesis by (intro exI [of _ "PROC ?proc"] exI [of _ t]) auto
  next
    case False
    have l: "lifetime (new_file E ?lPath) (assert_that (ndebug E) (entry_exists E)) drop_connection
        (\<lambda>_ lFile. bind (release_handle (FILE lFile)) (\<lambda>fh. ret (0::int, fh))) s = (Ret (0, fh), s')"
      using run False by (auto simp: gridfs_open_def Let_def EIO_def dest!: catch_with_result)
    have body: "keeps (away (?P 1)) (assert_that (ndebug E) (entry_exists E))"
      by (intro keeps_assert keeps_entry_exists others.free_of_world)
    have ctor: "constructs (?P 0) (new_file E ?lPath) (?P 1)"
      using others.new_file_constructs [where n = 0 and m = m and t = "objects s"] by simp
    obtain ob t where "?P 1 t"
      "bind (release_handle (FILE ob)) (\<lambda>fh. ret (0::int, fh)) t = (Ret (0, fh), s')"
      by (rule lifetime_result [OF ctor body _ l]) (use s in auto)
    then show ?thesis by (intro exI [of _ "FILE ob"] exI [of _ t]) (auto simp: ret_def dest!: bind_result)
  qed
  then obtain fi t n where "\<not> (\<exists>e. fi = DIRECTORY e)" "?P n t" "release_handle fi t = (Ret fh, s')"
    by blast
  with released_handle [of fi t fh s' s] show "live_file s' fh" "objects s fh = None" "fh \<noteq> 0"
    by (auto simp: live_file_def balanced_def)
qed

text \<open>\<open>create\<close> gives handle 0 for a path of \<open>/proc\<close> and a new one otherwise, even on an error.\<close>

lemma create_handle:
  assumes s: "balanced 0 m s" and run: "gridfs_create E p mode s = (Ret (n, fh), s')" and "fh \<noteq> 0"
  shows "live_file s' fh" "objects s fh = None" "\<not> is_proc (config E) (configure_path (config E) p)"
proof -
  let ?P = "\<lambda>n s'. balanced n m s' \<and> kept (objects s) s'"
  let ?lPath = "configure_path (config E) p"
  let ?body = "bind (entry_exists E) (\<lambda>ex. if ex then ret (- EEXIST)
    else bind (entry_create E (S_IFREG OR mode) (default_uid (config E)) (default_gid (config E)) [])
      (\<lambda>_. ret 0))"
  show np: "\<not> is_proc (config E) ?lPath"
    using run \<open>fh \<noteq> 0\<close>
    by (auto simp: gridfs_create_def Let_def ret_def dest!: catch_with_result bind_result)
  have l: "lifetime (new_file E ?lPath) ?body drop_connection
      (\<lambda>result lFile. bind (release_handle (FILE lFile)) (\<lambda>fh. ret (result, fh))) s = (Ret (n, fh), s')"
    using run np \<open>fh \<noteq> 0\<close> by (auto simp: gridfs_create_def Let_def dest!: catch_with_result)
  have body: "keeps (away (?P 1)) ?body"
    by (intro keeps_intros others.free_of_world)
  have ctor: "constructs (?P 0) (new_file E ?lPath) (?P 1)"
    using others.new_file_constructs [where n = 0 and m = m and t = "objects s"] by simp
  obtain a ob t where "?P 1 t"
    "bind (release_handle (FILE ob)) (\<lambda>fh. ret (a, fh)) t = (Ret (n, fh), s')"
    by (rule lifetime_result [OF ctor body _ l]) (use s in auto)
  then have "release_handle (FILE ob) t = (Ret fh, s')" "table_ok t" "kept (objects s) t"
    by (auto simp: ret_def balanced_def dest!: bind_result)
  from released_handle [OF this] show "live_file s' fh" "objects s fh = None"
    by (auto simp: live_file_def)
qed

lemma opendir_handle:
  assumes s: "balanced 0 m s" and run: "gridfs_opendir E p fh0 s = (Ret (0, fh), s')"
  shows "live_dir s' fh" "objects s fh = None"
proof -
  let ?P = "\<lambda>n s'. balanced n m s' \<and> kept (objects s) s'"
  let ?lPath = "configure_path (config E) p"
  let ?k = "\<lambda>ex lDir. if \<not> ex then bind (modify drop_connection) (\<lambda>_. ret (- ENOENT, fh0))
    else bind (release_handle (DIRECTORY lDir)) (\<lambda>fh. ret (0, fh))"
  have "\<exists>fi t. \<not> (\<exists>f. fi = FILE f) \<and> (\<exists>n. ?P n t) \<and> release_handle fi t = (Ret fh, s')"
  proof (cases "is_proc (config E) ?lPath")
    case True
    then have "release_handle (PROC (new_proc (config E) ?lPath)) s = (Ret fh, s')"
      using run by (auto simp: gridfs_opendir_def Let_def EIO_def ret_def
          dest!: catch_with_result bind_result)
    with s show ?thesis by (intro exI [of _ "PROC (new_proc (config E) ?lPath)"] exI [of _ s]) auto
  next
    case False
    have l: "lifetime (new_entry E ?lPath) (entry_exists E) drop_connection ?k s = (Ret (0, fh), s')"
      using run False by (auto simp: gridfs_opendir_def Let_def EIO_def dest!: catch_with_result)
    have body: "keeps (away (?P 1)) (entry_exists E)"
      by (intro keeps_entry_exists others.free_of_world)
    have ctor: "constructs (?P 0) (new_entry E ?lPath) (?P 1)"
      using others.new_entry_constructs [where n = 0 and m = m and t = "objects s"] by simp
    obtain ex ob t where "?P 1 t" "?k ex ob t = (Ret (0, fh), s')"
      by (rule lifetime_result [OF ctor body _ l]) (use s in auto)
    then show ?thesis
      by (intro exI [of _ "DIRECTORY ob"] exI [of _ t])
        (auto simp: ret_def ENOENT_def split: if_splits dest!: bind_result)
  qed
  then obtain fi t n where "\<not> (\<exists>f. fi = FILE f)" "?P n t" "release_handle fi t = (Ret fh, s')"
    by blast
  with released_handle [of fi t fh s' s] show "live_dir s' fh" "objects s fh = None"
    by (auto simp: live_dir_def balanced_def)
qed

section \<open>Steps keep the invariant\<close>

lemma session_ok_step:
  assumes ok: "session_ok k" and b: "balanced 0 0 s'" and kept: "kept t s'"
    and t: "\<And>fh. fh \<in> fs \<union> ds \<Longrightarrow> t fh = objects (fuse k) fh"
    and fs: "fs \<subseteq> files k" and ds: "ds \<subseteq> dirs k"
  shows "(\<forall>fh \<in> fs. fh = 0 \<or> live_file s' fh) \<and> (\<forall>fh \<in> ds. live_dir s' fh)"
proof (intro conjI ballI)
  fix fh assume "fh \<in> fs"
  with ok fs have "fh = 0 \<or> live_file (fuse k) fh" by (auto simp: session_ok_def)
  with live_file_kept [OF kept t] \<open>fh \<in> fs\<close> show "fh = 0 \<or> live_file s' fh" by blast
next
  fix fh assume "fh \<in> ds"
  with ok ds have "live_dir (fuse k) fh" by (auto simp: session_ok_def)
  with live_dir_kept [OF kept t] \<open>fh \<in> ds\<close> show "live_dir s' fh" by blast
qed

lemma session_ok_live: "session_ok k \<Longrightarrow> fh \<in> dirs k \<Longrightarrow> objects (fuse k) fh \<noteq> None"
  "session_ok k \<Longrightarrow> fh \<in> files k \<Longrightarrow> fh \<noteq> 0 \<Longrightarrow> objects (fuse k) fh \<noteq> None"
  by (auto simp: session_ok_def live_dir_def live_file_def)

lemma session_ok_null: "session_ok k \<Longrightarrow> 0 \<notin> dirs k"
  using table_ok_null [of "fuse k"] by (auto simp: session_ok_def live_dir_def balanced_def)

text \<open>A step that serves a request and leaves the kernel's tables alone.\<close>

lemma unchanged_tables_ok:
  assumes ok: "session_ok k" and run: "serve E filler req (fuse k) = (Ret rep, s')"
    and nr: "\<And>p fh. req \<noteq> Release p fh" "\<And>fh. req \<noteq> Releasedir fh"
  shows "session_ok (k\<lparr>fuse := s'\<rparr>)" "balanced 0 0 s'"
    "(\<forall>fh \<in> files k. fh = 0 \<or> live_file s' fh) \<and> (\<forall>fh \<in> dirs k. live_dir s' fh)"
proof -
  have b: "balanced 0 0 (fuse k)" using ok by (simp add: session_ok_def)
  note st = serve_step [OF b run nr]
  show "balanced 0 0 s'" by (rule st(1))
  show l: "(\<forall>fh \<in> files k. fh = 0 \<or> live_file s' fh) \<and> (\<forall>fh \<in> dirs k. live_dir s' fh)"
    by (rule session_ok_step [OF ok st]) auto
  show "session_ok (k\<lparr>fuse := s'\<rparr>)" using ok st(1) l by (auto simp: session_ok_def)
qed

lemma close_ok:
  assumes ok: "session_ok k" and run: "serve E filler req (fuse k) = (Ret rep, s')"
    and req: "(\<exists>p. req = Release p fh) \<or> req = Releasedir fh"
  shows "balanced 0 0 s'"
    "(\<forall>a \<in> files k - {fh}. a = 0 \<or> live_file s' a) \<and> (\<forall>a \<in> dirs k - {fh}. live_dir s' a)"
proof -
  let ?t = "(objects (fuse k))(fh := None)"
  have "balanced 0 0 (fuse k) \<and> kept ?t (fuse k)"
    using ok by (auto simp: session_ok_def kept_def)
  moreover have k: "keeps (\<lambda>s. balanced 0 0 s \<and> kept ?t s) (serve E filler req)"
    using req serve_release_keeps by blast
  ultimately have b: "balanced 0 0 s'" "kept ?t s'" using keepsD [OF k _ run] by auto
  show "balanced 0 0 s'" by (rule b(1))
  show "(\<forall>a \<in> files k - {fh}. a = 0 \<or> live_file s' a) \<and> (\<forall>a \<in> dirs k - {fh}. live_dir s' a)"
    by (rule session_ok_step [OF ok b]) auto
qed

lemma session_step_ok:
  assumes "session_ok k" "session_step E filler k req rep k'"
  shows "session_ok k'"
  using assms(2)
proof (cases rule: session_step.cases)
  case (Path s')
  have "\<And>p fh. req \<noteq> Release p fh" "\<And>fh. req \<noteq> Releasedir fh" using Path(2) by auto
  with unchanged_tables_ok(1) [OF assms(1) Path(3)] Path(1) show ?thesis by simp
next
  case (OpenFile p mode n fh s')
  have nr: "\<And>p fh. req \<noteq> Release p fh" "\<And>fh. req \<noteq> Releasedir fh" using OpenFile(3) by auto
  note u = unchanged_tables_ok [OF assms(1) OpenFile(4) nr]
  have b: "balanced 0 0 (fuse k)" using assms(1) by (simp add: session_ok_def)
  have new: "n = 0 \<Longrightarrow> fh \<noteq> 0 \<Longrightarrow> live_file s' fh \<and> objects (fuse k) fh = None"
    using OpenFile(3)
  proof
    assume z: "n = 0" "fh \<noteq> 0" and "req = Create p mode"
    with OpenFile(4) have "gridfs_create E p mode (fuse k) = (Ret (n, fh), s')"
      by (auto simp: serve_def ret_def dest!: bind_result)
    from create_handle [OF b this z(2)] show ?thesis by simp
  next
    assume z: "n = 0" "fh \<noteq> 0" and "req = Open p"
    with OpenFile(4) have "gridfs_open E p 0 (fuse k) = (Ret (0, fh), s')"
      by (auto simp: serve_def ret_def dest!: bind_result)
    from open_handle [OF b this] show ?thesis by simp
  qed
  have "n = 0 \<Longrightarrow> fh \<notin> dirs k"
    using new session_ok_live(1) [OF assms(1), of fh] session_ok_null [OF assms(1)]
    by (cases "fh = 0") auto
  then show ?thesis
    using assms(1) u new unfolding OpenFile(2) by (auto simp: session_ok_def opened_def)
next
  case (OpenDir p n fh s')
  note u = unchanged_tables_ok [OF assms(1) OpenDir(4)]
  have b: "balanced 0 0 (fuse k)" using assms(1) by (simp add: session_ok_def)
  have run: "gridfs_opendir E p 0 (fuse k) = (Ret (n, fh), s')"
    using OpenDir(4) by (auto simp: serve_def ret_def dest!: bind_result)
  have new: "n = 0 \<Longrightarrow> live_dir s' fh \<and> objects (fuse k) fh = None"
    using opendir_handle [OF b] run by auto
  have "n = 0 \<Longrightarrow> fh \<notin> files k"
    using new session_ok_live(2) [OF assms(1), of fh] u(2) table_ok_null [of s']
    by (cases "fh = 0") (auto simp: live_dir_def balanced_def)
  then show ?thesis
    using assms(1) u new unfolding OpenDir(3) by (auto simp: session_ok_def opened_def)
next
  case (UseFile fh sz off data s')
  have "\<And>p fh. req \<noteq> Release p fh" "\<And>fh. req \<noteq> Releasedir fh" using UseFile(2) by auto
  with unchanged_tables_ok(1) [OF assms(1) UseFile(4)] UseFile(1) show ?thesis by simp
next
  case (UseDir fh s')
  then show ?thesis using unchanged_tables_ok(1) [OF assms(1) UseDir(4)] by simp
next
  case (CloseFile fh p s')
  have "fh \<notin> dirs k" using CloseFile(3) assms(1) by (auto simp: session_ok_def)
  with close_ok [OF assms(1) CloseFile(4), of fh] assms(1) show ?thesis
    unfolding CloseFile(2) by (auto simp: session_ok_def)
next
  case (CloseDir fh s')
  have "fh \<notin> files k" using CloseDir(3) assms(1) by (auto simp: session_ok_def)
  with close_ok [OF assms(1) CloseDir(4), of fh] assms(1) show ?thesis
    unfolding CloseDir(2) by (auto simp: session_ok_def)
qed

lemma reachable_ok: "reachable E filler k0 k \<Longrightarrow> fresh k0 \<Longrightarrow> session_ok k"
  by (induction rule: reachable.induct) (auto intro: fresh_ok session_step_ok)

end
