(* ===== verification/File_Correct.thy ===== *)
theory File_Correct
  imports File_Entry
begin

text \<open>
  What reading and writing a file do under the laws. Reading is proved against the locale
  \<open>chunked_content\<close> (a content cut into chunks of one size), writing is an instance of the
  locale \<open>sequential_writer\<close> (blocks written one after the other add up to the content).
\<close>

section \<open>A content in chunks\<close>

locale chunked_content =
  fixes content :: "'b list" and csize :: nat and chunk :: "nat \<Rightarrow> 'b list"
  assumes chunk_eq: "chunk n = take csize (drop (n * csize) content)"
begin

lemma piece:
  assumes "off + k \<le> csize"
  shows "take k (drop off (chunk n)) = take k (drop (n * csize + off) content)"
proof -
  have "take k (drop off (chunk n)) = take (min k (csize - off)) (drop off (drop (n * csize) content))"
    by (simp add: chunk_eq drop_take)
  also have "min k (csize - off) = k" using assms by simp
  finally show ?thesis by (simp add: add.commute)
qed

lemma piece_available:
  assumes "off + k \<le> csize" "n * csize + off + k \<le> length content"
  shows "off + k \<le> length (chunk n)"
  using assms by (simp add: chunk_eq)

lemma chunks_reassemble: "concat (map chunk [0..<n]) = take (n * csize) content"
proof (induction n)
  case 0
  show ?case by simp
next
  case (Suc n)
  have "take (Suc n * csize) content = take (n * csize) content @ take csize (drop (n * csize) content)"
    using take_add [of "n * csize" csize content] by (simp only: mult_Suc add.commute)
  with Suc show ?case by (simp add: chunk_eq)
qed

end

interpretation doc_chunks: chunked_content "d_data d" "nat (d_chunk d)" "\<lambda>n. chunk_of d (int n)"
  for d
proof
  fix n
  show "chunk_of d (int n) = take (nat (d_chunk d)) (drop (n * nat (d_chunk d)) (d_data d))"
    by (simp add: chunk_of_def nat_mult_distrib)
qed

text \<open>The same with the integers of the code.\<close>

lemma doc_piece:
  assumes "0 \<le> n" "0 \<le> off" "0 \<le> k" "off + k \<le> d_chunk d"
    and "n * d_chunk d + off + k \<le> int (length (d_data d))"
  shows "take (nat k) (drop (nat off) (chunk_of d n)) =
      take (nat k) (drop (nat (n * d_chunk d + off)) (d_data d))"
    and "off + k \<le> int (length (chunk_of d n))"
proof -
  obtain n' off' k' where i: "n = int n'" "off = int off'" "k = int k'"
    using assms(1-3) by (metis nonneg_int_cases)
  obtain cs where cs: "d_chunk d = int cs" using assms by (metis nonneg_int_cases add_nonneg_nonneg order_trans)
  have l: "off' + k' \<le> nat (d_chunk d)" using assms(4) by (simp add: i cs)
  have "int (n' * cs + off' + k') \<le> int (length (d_data d))" using assms(5) by (simp add: i cs)
  then have l2: "n' * nat (d_chunk d) + off' + k' \<le> length (d_data d)"
    by (simp only: of_nat_le_iff cs nat_int)
  have "nat (n * d_chunk d + off) = n' * nat (d_chunk d) + off'"
    unfolding i cs by (simp add: nat_eq_iff)
  then show "take (nat k) (drop (nat off) (chunk_of d n)) =
      take (nat k) (drop (nat (n * d_chunk d + off)) (d_data d))"
    using doc_chunks.piece [OF l, of n'] by (simp add: i)
  show "off + k \<le> int (length (chunk_of d n))"
    using doc_chunks.piece_available [OF l l2] by (simp add: i)
qed

section \<open>Reading under the laws\<close>

lemma c_div_nonneg: "0 \<le> a \<Longrightarrow> 0 < b \<Longrightarrow> c_div a b = Ret (a div b)"
  by (cases "a = 0") (simp_all add: c_div_def signed_divide_int_def)

lemma c_mod_nonneg: "0 \<le> a \<Longrightarrow> 0 < b \<Longrightarrow> c_mod a b = Ret (a mod b)"
  by (cases "a = 0") (simp_all add: c_mod_def signed_modulo_int_def)

lemma take_drop_pieces:
  "0 \<le> k \<Longrightarrow> 0 \<le> p \<Longrightarrow> k \<le> n \<Longrightarrow>
   take (nat k) (drop (nat p) xs) @ take (nat (n - k)) (drop (nat (p + k)) xs) =
   take (nat n) (drop (nat p) xs)"
  using take_add [of "nat k" "nat (n - k)" "drop (nat p) xs"]
  by (simp add: nat_add_distrib nat_diff_distrib add.commute)

lemma assert_this:
  "P f \<Longrightarrow> assert_that nd (bind this_get (\<lambda>f. ret (P f))) (f, s) = (Ret (), (f, s))"
  by (simp add: assert_that_def bind_def comp_simps)

text \<open>What the body of the loop computes before it calls the private \<open>read\<close>.\<close>

definition next_piece :: "'y file_obj_scheme \<Rightarrow> int \<Rightarrow> int \<Rightarrow> int \<Rightarrow> ('s, int \<times> int \<times> int) comp" where
  "next_piece f sz offset read =
     bind (of_outcome (c_div (c_int (c_size_t (offset + read))) (c_int (theChunkSize f)))) (\<lambda>chunkN.
     let aligned_size = (if c_size_t (offset + sz) > theFileLength f
           then c_size_t (theFileLength f - offset) else sz);
         aligned_size = c_size_t (aligned_size - read)
     in
     bind (of_outcome (c_mod (c_int (c_size_t (offset + read))) (c_int (theChunkSize f)))) (\<lambda>m.
     let chunk_offset = c_size_t m;
         aligned_size = (if c_size_t (aligned_size + chunk_offset) > theChunkSize f
           then c_size_t (theChunkSize f - chunk_offset) else aligned_size)
     in ret (chunkN, aligned_size, c_off_t chunk_offset)))"

lemma read_loop_turn:
  "read_loop E (Suc fuel) sz offset read data = bind this_get (\<lambda>f.
     if read \<noteq> sz \<and> c_size_t (offset + read) < theFileLength f
     then bind (next_piece f sz offset read) (\<lambda>(n, k, m).
       bind (file_read_chunk E n k m) (\<lambda>(k', bs).
       read_loop E fuel sz offset (c_size_t (read + k')) (data @ bs)))
     else ret (read, data))"
  by (simp only: read_loop.simps next_piece_def bind_assoc bind_ret Let_def prod.case)

text \<open>
  One turn of the loop, whatever the environment does: which bytes of which chunk are read
  next, and that they stay within the chunk, the request and the file.
\<close>

lemma next_piece_run:
  fixes f :: "'y file_obj_scheme"
  assumes sizes: "theChunkSize f = c" "theFileLength f = D" "D \<le> 2 ^ 31" "0 < c" "c < 2 ^ 31"
    and r: "0 \<le> off" "0 \<le> r" "r < sz" "off + sz < 2 ^ 63" "off + r < D"
  obtains k where "next_piece f sz off r s = (Ret ((off + r) div c, k, (off + r) mod c), s)"
    "0 < k" "r + k \<le> sz" "off + r + k \<le> D" "(off + r) mod c + k \<le> c" "c_size_t (r + k) = r + k"
proof -
  let ?p = "off + r"
  let ?m = "?p mod c"
  let ?al = "(if off + sz > D then D - off else sz) - r"
  let ?k = "if ?al + ?m > c then c - ?m else ?al"
  have pow: "(2::int) ^ 63 < 2 ^ 64" "(2::int) ^ 31 < 2 ^ 62" "(2::int) ^ 62 < 2 ^ 63" by simp_all
  have m: "0 \<le> ?m" "?m < c" using sizes by simp_all
  have al: "0 < ?al" "r + ?al \<le> sz" "?p + ?al \<le> D" using r by auto
  have k: "0 < ?k" "r + ?k \<le> sz" "?p + ?k \<le> D" "?m + ?k \<le> c" "?k \<le> ?al"
    using al m by auto
  have casts: "c_size_t ?p = ?p" "c_size_t (off + sz) = off + sz" "c_int ?p = ?p" "c_int c = c"
    "c_size_t ?m = ?m" "c_off_t ?m = ?m" "c_size_t (r + ?k) = r + ?k"
    using r sizes m k pow by (intro c_size_t_id c_int_id c_off_t_id; linarith)+
  have al_cast: "(if off + sz > D then c_size_t (D - off) else sz) =
      (if off + sz > D then D - off else sz)"
  proof (cases "off + sz > D")
    case True
    have "c_size_t (D - off) = D - off" using r sizes pow by (intro c_size_t_id) linarith+
    then show ?thesis by simp
  qed simp
  have al_cast2: "c_size_t ?al = ?al" using al r pow by (intro c_size_t_id) linarith+
  have "?al \<le> 2 ^ 31" using al(3) r sizes by linarith
  moreover have "(2::int) ^ 31 + 2 ^ 31 < 2 ^ 64" by simp
  ultimately have "?al + ?m < 2 ^ 64" using m(2) sizes by linarith
  moreover have "0 \<le> ?al + ?m" using al(1) m(1) by linarith
  ultimately have al_cast3: "c_size_t (?al + ?m) = ?al + ?m" by (intro c_size_t_id)
  have "c_size_t (c - ?m) = c - ?m" using m sizes pow by (intro c_size_t_id) linarith+
  then have al_cast4: "(if ?al + ?m > c then c_size_t (c - ?m) else ?al) = ?k" by simp
  have dm: "c_div ?p c = Ret (?p div c)" "c_mod ?p c = Ret ?m"
    using r sizes by (simp_all add: c_div_nonneg c_mod_nonneg)
  have "next_piece f sz off r s = (Ret (?p div c, ?k, ?m), s)"
    by (simp only: next_piece_def bind_run sizes(1,2) casts dm Let_def comp_run
        al_cast al_cast2 al_cast3 al_cast4 outcome.case prod.case)
  then show thesis using that k casts(7) by blast
qed

lemma loop_turn:
  fixes f :: "'y file_obj_scheme" and s :: "('w, 'x) process_scheme"
  assumes sizes: "theChunkSize f = c" "theFileLength f = D" "D \<le> 2 ^ 31" "0 < c" "c < 2 ^ 31"
    and r: "0 \<le> off" "0 \<le> r" "r < sz" "off + sz < 2 ^ 63" "off + r < D"
  obtains k where "read_loop E (Suc fuel) sz off r acc (f, s) =
      bind (file_read_chunk E ((off + r) div c) k ((off + r) mod c))
        (\<lambda>(n, bs). read_loop E fuel sz off (c_size_t (r + n)) (acc @ bs)) (f, s)"
    "0 < k" "r + k \<le> sz" "off + r + k \<le> D" "(off + r) mod c + k \<le> c" "c_size_t (r + k) = r + k"
proof -
  obtain k where k: "next_piece f sz off r (f, s) = (Ret ((off + r) div c, k, (off + r) mod c), (f, s))"
    "0 < k" "r + k \<le> sz" "off + r + k \<le> D" "(off + r) mod c + k \<le> c" "c_size_t (r + k) = r + k"
    by (rule next_piece_run [OF assms])
  have "(2::int) ^ 63 < 2 ^ 64" by simp
  then have "c_size_t (off + r) = off + r" using r by (intro c_size_t_id) linarith+
  with k(1) r sizes(2) have "read_loop E (Suc fuel) sz off r acc (f, s) =
      bind (file_read_chunk E ((off + r) div c) k ((off + r) mod c))
        (\<lambda>(n, bs). read_loop E fuel sz off (c_size_t (r + n)) (acc @ bs)) (f, s)"
    unfolding read_loop_turn by (simp add: bind_run this_run)
  with that k(2-6) show thesis by blast
qed

text \<open>
  \<open>reader_ok ds d f\<close>: the object reads the document \<open>d\<close>; what it has cached of it is right.
\<close>

definition reader_ok :: "doc list \<Rightarrow> doc \<Rightarrow> 'y file_obj_scheme \<Rightarrow> bool" where
  "reader_ok ds d f \<longleftrightarrow> current ds f \<and> newest (thePath f) ds = Some d \<and> \<not> mutex_read f \<and>
     theChunkSize f \<in> {0, d_chunk d} \<and> theFileLength f \<in> {0, d_length d} \<and>
     (theCachedChunkN f = - 1 \<or>
      0 \<le> theCachedChunkN f \<and> theCachedChunk f = Some (chunk_of d (theCachedChunkN f)))"

definition sized :: "doc \<Rightarrow> 'y file_obj_scheme \<Rightarrow> bool" where
  "sized d f \<longleftrightarrow> theChunkSize f = d_chunk d \<and> theFileLength f = d_length d"

lemma fetched_file:
  assumes "fetched ds f f'"
  shows "theChunkSize f' = theChunkSize f" "theFileLength f' = theFileLength f"
    "theCachedChunkN f' = theCachedChunkN f" "theCachedChunk f' = theCachedChunk f"
    "mutex_read f' = mutex_read f" "thePath f' = thePath f" "current ds f'"
  using assms by (auto simp: fetched_def current_def)

context backend
begin

lemma fetch_chunk_run:
  assumes "current (docs (world s)) f" "newest (thePath f) (docs (world s)) = Some d"
    and "0 \<le> n" "n * d_chunk d < int (length (d_data d))"
    and "theCachedChunkN f = - 1 \<or>
      0 \<le> theCachedChunkN f \<and> theCachedChunk f = Some (chunk_of d (theCachedChunkN f))"
  shows "\<exists>f' s'. fetch_chunk E n (f, s) = (Ret (), (f', s')) \<and>
     theCachedChunkN f' = n \<and> theCachedChunk f' = Some (chunk_of d n) \<and>
     current (docs (world s)) f' \<and> thePath f' = thePath f \<and> theChunkSize f' = theChunkSize f \<and>
     theFileLength f' = theFileLength f \<and> mutex_read f' = mutex_read f \<and>
     evolves docs cached s (docs (world s)) s'"
proof (cases "n = theCachedChunkN f")
  case True
  then have "fetch_chunk E n (f, s) = (Ret (), (f, s))"
    by (simp add: fetch_chunk_def bind_def comp_simps)
  with True assms show ?thesis by (intro exI [of _ f] exI [of _ s]) auto
next
  case False
  obtain g f1 s1 where 1: "gridfile E (f, s) = (Ret g, (f1, s1))" "shows_doc g (Some d)"
    "fetched (docs (world s)) f f1" "evolves docs cached s (docs (world s)) s1"
    using gridfile_run [OF assms(1)] assms(2) by auto
  have d1: "docs (world s1) = docs (world s)" using evolves_docs [OF 1(4)] .
  have "d \<in> set (docs (world s1))" using newest_in [OF assms(2)] by (simp add: d1)
  then obtain s2 where 2: "call (get_chunk E g n) s1 = (Ret (chunk_of d n), s2)"
    "evolves docs cached s1 (docs (world s1)) s2"
    using get_chunk_evolves [OF 1(2) _ assms(3,4)] by blast
  let ?f = "f1\<lparr>theCachedChunk := Some (chunk_of d n), theCachedChunkN := n\<rparr>"
  have "fetch_chunk E n (f, s) = (Ret (), (?f, s2))"
    using False 1(1) 2(1) by (simp add: fetch_chunk_def bind_def comp_simps)
  moreover have "evolves docs cached s (docs (world s)) s2"
    using evolves_trans [OF 1(4) 2(2)] by (simp add: d1)
  ultimately show ?thesis
    using fetched_file [OF 1(3)] by (intro exI [of _ ?f] exI [of _ s2]) (auto simp: current_def)
qed

lemma file_read_chunk_run:
  assumes ok: "reader_ok (docs (world s)) d f" and sized: "sized d f"
    and len: "sound_length d" "d_length d < 2 ^ 62"
    and r: "0 \<le> n" "0 \<le> off" "0 < k" "off + k \<le> d_chunk d" "n * d_chunk d + off + k \<le> d_length d"
  shows "\<exists>f' s'. file_read_chunk E n k off (f, s) =
      (Ret (k, take (nat k) (drop (nat (n * d_chunk d + off)) (d_data d))), (f', s')) \<and>
     reader_ok (docs (world s)) d f' \<and> sized d f' \<and> thePath f' = thePath f \<and>
     evolves docs cached s (docs (world s)) s'"
proof -
  let ?f = "f\<lparr>mutex_read := True\<rparr>"
  have le: "d_length d \<le> int (length (d_data d))" using len(1) by (simp add: sound_length_def)
  have start: "n * d_chunk d < int (length (d_data d))" using r le by linarith
  obtain f1 s1 where 1: "fetch_chunk E n (?f, s) = (Ret (), (f1, s1))"
    "theCachedChunkN f1 = n" "theCachedChunk f1 = Some (chunk_of d n)"
    "current (docs (world s)) f1" "thePath f1 = thePath f" "theChunkSize f1 = theChunkSize f"
    "theFileLength f1 = theFileLength f" "mutex_read f1" "evolves docs cached s (docs (world s)) s1"
    using fetch_chunk_run [of s ?f d n] ok r(1) start by (auto simp: reader_ok_def current_def)
  have nn: "0 \<le> n * d_chunk d" using r by simp
  have "(2::int) ^ 62 < 2 ^ 64" by simp
  with nn have "off + k < 2 ^ 64" using r(5) len(2) by linarith
  then have cast: "c_size_t (off + k) = off + k" using r by (intro c_size_t_id) linarith+
  have "off + k \<le> d_length d" using nn r(5) by linarith
  then have asserts: "theChunkSize ?f \<noteq> 0" "c_size_t (off + k) \<le> theChunkSize ?f"
    "c_size_t (off + k) \<le> theFileLength ?f"
    using r sized by (auto simp: cast sized_def)
  note p = doc_piece [of n off k d]
  have b: "off + k \<le> int (length (chunk_of d n))" using p(2) r le by simp
  let ?f' = "f1\<lparr>mutex_read := False\<rparr>"
  have "file_read_chunk E n k off (f, s) =
      (Ret (k, take (nat k) (drop (nat off) (chunk_of d n))), (?f', s1))"
    using ok asserts 1(1,3) b r(2)
    by (simp add: file_read_chunk_def with_lock_def bind_run comp_simps with_dtor_def reader_ok_def
        assert_this)
  moreover have "take (nat k) (drop (nat off) (chunk_of d n)) =
      take (nat k) (drop (nat (n * d_chunk d + off)) (d_data d))"
    using p(1) r le by simp
  moreover have "reader_ok (docs (world s)) d ?f'" "sized d ?f'"
    using ok sized 1(2-7) r(1) by (auto simp: reader_ok_def current_def sized_def)
  ultimately show ?thesis using 1(5,9) by (intro exI [of _ ?f'] exI [of _ s1]) simp
qed

text \<open>Under the laws, the turn adds the bytes of the document.\<close>

lemma read_turn:
  assumes ok: "reader_ok (docs (world s)) d f" and sized: "sized d f"
    and len: "sound_length d" "d_length d \<le> 2 ^ 31"
    and cs: "0 < d_chunk d" "d_chunk d < 2 ^ 31"
    and r: "0 \<le> off" "0 \<le> r" "r < sz" "off + sz < 2 ^ 63" "off + r < d_length d"
  shows "\<exists>k f' s'. read_loop E (Suc fuel) sz off r acc (f, s) =
      read_loop E fuel sz off (r + k) (acc @ take (nat k) (drop (nat (off + r)) (d_data d))) (f', s') \<and>
     0 < k \<and> r + k \<le> sz \<and> off + r + k \<le> d_length d \<and>
     reader_ok (docs (world s)) d f' \<and> sized d f' \<and> thePath f' = thePath f \<and>
     evolves docs cached s (docs (world s)) s'"
proof -
  let ?p = "off + r" and ?c = "d_chunk d"
  have sz_eq: "theChunkSize f = ?c" "theFileLength f = d_length d" using sized by (simp_all add: sized_def)
  obtain k where k: "read_loop E (Suc fuel) sz off r acc (f, s) =
      bind (file_read_chunk E (?p div ?c) k (?p mod ?c))
        (\<lambda>(n, bs). read_loop E fuel sz off (c_size_t (r + n)) (acc @ bs)) (f, s)"
    "0 < k" "r + k \<le> sz" "?p + k \<le> d_length d" "?p mod ?c + k \<le> ?c" "c_size_t (r + k) = r + k"
    by (rule loop_turn [OF sz_eq len(2) cs r])
  have n: "0 \<le> ?p div ?c" "0 \<le> ?p mod ?c" using r cs by (simp_all add: pos_imp_zdiv_nonneg_iff)
  have split: "(?p div ?c) * ?c + ?p mod ?c = ?p" by simp
  have pow: "(2::int) ^ 31 < 2 ^ 62" by simp
  obtain f' s' where 1: "file_read_chunk E (?p div ?c) k (?p mod ?c) (f, s) =
      (Ret (k, take (nat k) (drop (nat ?p) (d_data d))), (f', s'))"
    "reader_ok (docs (world s)) d f'" "sized d f'" "thePath f' = thePath f"
    "evolves docs cached s (docs (world s)) s'"
    using file_read_chunk_run [OF ok sized len(1) _ n k(2,5)] k(4) len(2) pow split by fastforce
  have "read_loop E (Suc fuel) sz off r acc (f, s) =
      read_loop E fuel sz off (r + k) (acc @ take (nat k) (drop (nat ?p) (d_data d))) (f', s')"
    unfolding k(1)
      bind_Ret [where m = "file_read_chunk E (?p div ?c) k (?p mod ?c)", OF 1(1)]
    by (simp only: prod.case k(6))
  with 1 k(2-4) show ?thesis by blast
qed

text \<open>With a turn per missing byte of fuel, the loop reads to the end of the request or the file.\<close>

lemma read_loop_run:
  assumes len: "sound_length d" "d_length d \<le> 2 ^ 31"
    and cs: "0 < d_chunk d" "d_chunk d < 2 ^ 31"
    and b: "0 \<le> off" "off \<le> d_length d" "off + sz < 2 ^ 63"
  shows "reader_ok (docs (world s)) d f \<Longrightarrow> sized d f \<Longrightarrow> 0 \<le> r \<Longrightarrow>
     r \<le> min sz (d_length d - off) \<Longrightarrow> nat (sz - r) < fuel \<Longrightarrow>
     \<exists>f' s'. read_loop E fuel sz off r acc (f, s) =
       (Ret (min sz (d_length d - off), acc @
          take (nat (min sz (d_length d - off) - r)) (drop (nat (off + r)) (d_data d))), (f', s')) \<and>
     reader_ok (docs (world s)) d f' \<and> sized d f' \<and> thePath f' = thePath f \<and>
     evolves docs cached s (docs (world s)) s'"
proof (induction fuel arbitrary: r acc f s)
  case 0
  then show ?case by simp
next
  case (Suc fuel)
  let ?n = "min sz (d_length d - off)"
  have "(2::int) ^ 63 < 2 ^ 64" by simp
  then have cast: "c_size_t (off + r) = off + r" using Suc.prems b by (intro c_size_t_id) linarith+
  show ?case
  proof (cases "r < sz \<and> off + r < d_length d")
    case True
    obtain k f1 s1 where 1: "read_loop E (Suc fuel) sz off r acc (f, s) =
        read_loop E fuel sz off (r + k) (acc @ take (nat k) (drop (nat (off + r)) (d_data d))) (f1, s1)"
      "0 < k" "r + k \<le> sz" "off + r + k \<le> d_length d"
      "reader_ok (docs (world s)) d f1" "sized d f1" "thePath f1 = thePath f"
      "evolves docs cached s (docs (world s)) s1"
      using read_turn [OF Suc.prems(1,2) len cs b(1) Suc.prems(3) _ b(3)] True by blast
    have d1: "docs (world s1) = docs (world s)" using evolves_docs [OF 1(8)] .
    have fuel: "nat (sz - (r + k)) < fuel" using Suc.prems(5) 1(2,3) by linarith
    have rk: "0 \<le> r + k" "r + k \<le> ?n" using 1(2-4) Suc.prems(3) by simp_all
    obtain f2 s2 where 2: "read_loop E fuel sz off (r + k)
        (acc @ take (nat k) (drop (nat (off + r)) (d_data d))) (f1, s1) =
        (Ret (?n, (acc @ take (nat k) (drop (nat (off + r)) (d_data d))) @
          take (nat (?n - (r + k))) (drop (nat (off + (r + k))) (d_data d))), (f2, s2))"
      "reader_ok (docs (world s)) d f2" "sized d f2" "thePath f2 = thePath f1"
      "evolves docs cached s1 (docs (world s)) s2"
      using Suc.IH [of s1 f1 "r + k" "acc @ take (nat k) (drop (nat (off + r)) (d_data d))"]
        1(5,6) fuel rk unfolding d1 by blast
    have "take (nat k) (drop (nat (off + r)) (d_data d)) @
        take (nat (?n - r - k)) (drop (nat (off + r + k)) (d_data d)) =
        take (nat (?n - r)) (drop (nat (off + r)) (d_data d))"
      using 1(2-4) b Suc.prems by (intro take_drop_pieces) auto
    then have "read_loop E (Suc fuel) sz off r acc (f, s) =
        (Ret (?n, acc @ take (nat (?n - r)) (drop (nat (off + r)) (d_data d))), (f2, s2))"
      unfolding 1(1) 2(1) by (simp add: diff_diff_eq add.assoc)
    with 1(7) 2(2-4) evolves_trans [OF 1(8) 2(5)] show ?thesis by auto
  next
    case False
    then have r: "r = ?n" using Suc.prems by auto
    have "read_loop E (Suc fuel) sz off r acc (f, s) = (Ret (r, acc), (f, s))"
      using False Suc.prems by (auto simp: bind_run comp_simps cast sized_def)
    with r Suc.prems show ?thesis by (auto intro!: exI [of _ f] exI [of _ s])
  qed
qed

text \<open>The public \<open>read\<close>, from an object that has read of the document or not at all.\<close>

lemma fetch_size_run:
  assumes ok: "reader_ok (docs (world s)) d f"
    and len: "sound_length d" "d_length d < 2 ^ 62"
    and cs: "0 < d_chunk d" "d_chunk d < 2 ^ 31"
  shows "\<exists>f' s'. bind (fetch_chunk_size E) (\<lambda>_. fetch_length E) (f, s) = (Ret (), (f', s')) \<and>
     reader_ok (docs (world s)) d f' \<and> sized d f' \<and> thePath f' = thePath f \<and>
     evolves docs cached s (docs (world s)) s'"
proof -
  have cur: "current (docs (world s)) f" and new: "newest (thePath f) (docs (world s)) = Some d"
    and cs_f: "theChunkSize f = 0 \<or> theChunkSize f = d_chunk d"
    and len_f: "theFileLength f = 0 \<or> theFileLength f = d_length d"
    using ok by (auto simp: reader_ok_def)
  have casts: "c_uint (d_chunk d) = d_chunk d" "c_size_t (d_length d) = d_length d"
    using cs len by (auto simp: sound_length_def intro!: c_uint_id c_size_t_id)
  obtain g f1 s1 where 1: "gridfile E (f, s) = (Ret g, (f1, s1))"
    "shows_doc g (Some d)" "theGridFile f1 = Some g" "fetched (docs (world s)) f f1"
    "evolves docs cached s (docs (world s)) s1"
    using gridfile_run [OF cur] new by auto
  have g: "gf_chunk_size g = Inr (d_chunk d)" "gf_content_length g = Inr (d_length d)"
    using 1(2) by (simp_all add: shows_doc_def)
  have f1: "f1 = f\<lparr>theGridFile := Some g\<rparr>" using 1(3,4) by (auto simp: fetched_def)
  let ?h = "f\<lparr>theGridFile := Some g, theChunkSize := d_chunk d, theFileLength := d_length d\<rparr>"
  have ok1: "reader_ok (docs (world s)) d ?h" "sized d ?h"
    using ok 1(2) new by (auto simp: reader_ok_def sized_def current_def)
  have again: "gridfile E (f\<lparr>theGridFile := Some g, theChunkSize := c\<rparr>, s1) =
      (Ret g, (f\<lparr>theGridFile := Some g, theChunkSize := c\<rparr>, s1))" for c
    by (simp add: gridfile_def bind_run comp_simps)
  have h_cs: "theChunkSize f = d_chunk d \<Longrightarrow> f\<lparr>theChunkSize := d_chunk d\<rparr> = f"
    and h_len: "theFileLength f = d_length d \<Longrightarrow> f\<lparr>theFileLength := d_length d\<rparr> = f" by simp_all
  show ?thesis
  proof (cases "theChunkSize f = 0")
    case True
    show ?thesis
    proof (cases "theFileLength f = 0")
      case len0: True
      have "bind (fetch_chunk_size E) (\<lambda>_. fetch_length E) (f, s) = (Ret (), (?h, s1))"
        using True len0 1(1) g f1 casts again
        by (simp add: fetch_chunk_size_def fetch_length_def bind_run comp_simps)
      with ok1 1(5) show ?thesis by (intro exI [of _ ?h] exI [of _ s1]) simp
    next
      case False
      let ?h' = "f\<lparr>theGridFile := Some g, theChunkSize := d_chunk d\<rparr>"
      have "bind (fetch_chunk_size E) (\<lambda>_. fetch_length E) (f, s) = (Ret (), (?h', s1))"
        using True False 1(1) g f1 casts
        by (simp add: fetch_chunk_size_def fetch_length_def bind_run comp_simps)
      moreover have "?h' = ?h" using False len_f by simp
      ultimately show ?thesis using ok1 1(5) by (intro exI [of _ ?h] exI [of _ s1]) simp
    qed
  next
    case cs_set: False
    then have c: "theChunkSize f = d_chunk d" using cs_f by simp
    show ?thesis
    proof (cases "theFileLength f = 0")
      case len0: True
      have "bind (fetch_chunk_size E) (\<lambda>_. fetch_length E) (f, s) =
          (Ret (), (f\<lparr>theGridFile := Some g, theFileLength := d_length d\<rparr>, s1))"
        using cs_set len0 1(1) g f1 casts
        by (simp add: fetch_chunk_size_def fetch_length_def bind_run comp_simps)
      moreover have "f\<lparr>theGridFile := Some g, theFileLength := d_length d\<rparr> = ?h" using c by simp
      ultimately show ?thesis using ok1 1(5) by (intro exI [of _ ?h] exI [of _ s1]) simp
    next
      case False
      have "bind (fetch_chunk_size E) (\<lambda>_. fetch_length E) (f, s) = (Ret (), (f, s))"
        using cs_set False by (simp add: fetch_chunk_size_def fetch_length_def bind_run comp_simps)
      with ok c False len_f show ?thesis
        by (intro exI [of _ f] exI [of _ s]) (auto simp: sized_def)
    qed
  qed
qed

text \<open>
  The call fetches the sizes first. It returns the bytes of the file from the offset, as many
  as there are up to the size of the request; beyond the end of the file none.
\<close>

lemma file_read_sized:
  assumes ok: "reader_ok (docs (world s)) d f"
    and len: "sound_length d" "d_length d < 2 ^ 62"
    and cs: "0 < d_chunk d" "d_chunk d < 2 ^ 31"
    and off: "0 \<le> off" "off < 2 ^ 64"
  obtains f1 s1 where "file_read E sz off (f, s) = (if d_length d < off then ret (0, [])
      else read_loop E (Suc (nat sz)) sz off 0 []) (f1, s1)"
    "reader_ok (docs (world s)) d f1" "sized d f1" "thePath f1 = thePath f"
    "evolves docs cached s (docs (world s)) s1"
proof -
  obtain f1 s1 where 1: "bind (fetch_chunk_size E) (\<lambda>_. fetch_length E) (f, s) = (Ret (), (f1, s1))"
    "reader_ok (docs (world s)) d f1" "sized d f1" "thePath f1 = thePath f"
    "evolves docs cached s (docs (world s)) s1"
    using fetch_size_run [OF ok len cs] by blast
  have cast: "c_size_t off = off" using off by (intro c_size_t_id)
  have eq: "file_read E sz off = bind (bind (fetch_chunk_size E) (\<lambda>_. fetch_length E)) (\<lambda>_.
      bind this_get (\<lambda>f. if theFileLength f < c_size_t off then ret (0, [])
        else read_loop E (Suc (nat sz)) sz off 0 []))"
    unfolding file_read_def by (simp only: bind_assoc)
  have "file_read E sz off (f, s) = (if d_length d < off then ret (0, [])
      else read_loop E (Suc (nat sz)) sz off 0 []) (f1, s1)"
    unfolding eq using 1(3) by (simp only: bind_Ret [of "bind (fetch_chunk_size E) (\<lambda>_. fetch_length E)", OF 1(1)]
        bind_Ret [of this_get, OF this_run(1)] cast sized_def)
  with 1(2-5) that show thesis by blast
qed

lemma file_read_run:
  assumes ok: "reader_ok (docs (world s)) d f"
    and len: "sound_length d" "d_length d \<le> 2 ^ 31"
    and cs: "0 < d_chunk d" "d_chunk d < 2 ^ 31"
    and r: "0 \<le> off" "0 \<le> sz" "off + sz < 2 ^ 63"
  shows "\<exists>bs f' s'. file_read E sz off (f, s) = (Ret (int (length bs), bs), (f', s')) \<and>
     bs = take (nat sz) (drop (nat off) (doc_content d)) \<and>
     reader_ok (docs (world s)) d f' \<and> sized d f' \<and> thePath f' = thePath f \<and>
     evolves docs cached s (docs (world s)) s'"
proof -
  let ?bs = "take (nat sz) (drop (nat off) (doc_content d))"
  have content: "int (length (doc_content d)) = d_length d" "0 \<le> d_length d"
    using len(1) unfolding sound_length_def doc_content_def length_take by linarith+
  have "(2::int) ^ 63 < 2 ^ 64" "(2::int) ^ 31 < 2 ^ 62" by simp_all
  then have b: "off < 2 ^ 64" "d_length d < 2 ^ 62" using r len(2) by linarith+
  obtain f1 s1 where tail: "file_read E sz off (f, s) = (if d_length d < off then ret (0, [])
      else read_loop E (Suc (nat sz)) sz off 0 []) (f1, s1)"
    and 1: "reader_ok (docs (world s)) d f1" "sized d f1" "thePath f1 = thePath f"
    "evolves docs cached s (docs (world s)) s1"
    using file_read_sized [OF ok len(1) b(2) cs r(1) b(1)] by blast
  have d1: "docs (world s1) = docs (world s)" using evolves_docs [OF 1(4)] .
  show ?thesis
  proof (cases "d_length d < off")
    case True
    then have "?bs = []" using content r(1) by simp
    with True tail 1 show ?thesis
      by (intro exI [of _ "[]"] exI [of _ f1] exI [of _ s1]) (simp add: comp_simps)
  next
    case False
    let ?n = "min sz (d_length d - off)"
    obtain f2 s2 where 2: "read_loop E (Suc (nat sz)) sz off 0 [] (f1, s1) =
        (Ret (?n, take (nat ?n) (drop (nat off) (d_data d))), (f2, s2))"
      "reader_ok (docs (world s)) d f2" "sized d f2" "thePath f2 = thePath f1"
      "evolves docs cached s1 (docs (world s)) s2"
      using read_loop_run [OF len cs r(1) _ r(3), of s1 f1 0 "Suc (nat sz)" "[]"] False 1(1,2) r(2)
      unfolding d1 by auto
    have bs: "take (nat ?n) (drop (nat off) (d_data d)) = ?bs"
      using len(1) r(1,2) False
      by (cases "sz \<le> d_length d - off")
        (simp_all add: min_def nat_diff_distrib doc_content_def drop_take sound_length_def)
    have "int (length ?bs) = ?n"
      unfolding length_take length_drop using content r(1,2) False by linarith
    with 2(1) bs tail False have "file_read E sz off (f, s) = (Ret (int (length ?bs), ?bs), (f2, s2))"
      by simp
    with 1(3) 2(2-4) evolves_trans [OF 1(4) 2(5)] show ?thesis by auto
  qed
qed

text \<open>
  The casts to \<open>int\<close> of the position in the file: at \<open>2 ^ 32\<close> the loop takes its bytes from the
  start of the file.
\<close>

lemma read_loop_wrapped:
  assumes ok: "reader_ok (docs (world s)) d f" and sized: "sized d f"
    and len: "sound_length d" "2 ^ 32 + sz \<le> d_length d" "d_length d < 2 ^ 62"
    and cs: "0 < d_chunk d" "d_chunk d < 2 ^ 31"
    and sz: "0 < sz" "sz \<le> d_chunk d"
  shows "\<exists>f' s'. read_loop E (Suc (Suc fuel)) sz (2 ^ 32) 0 [] (f, s) =
    (Ret (sz, take (nat sz) (d_data d)), (f', s')) \<and> reader_ok (docs (world s)) d f' \<and>
    thePath f' = thePath f \<and> evolves docs cached s (docs (world s)) s'"
proof -
  have casts: "c_int (2 ^ 32) = 0" by (simp add: c_int_def signed_take_bit_eq_take_bit_shift take_bit_eq_mod)
  have b: "sz < 2 ^ 31" using sz cs by linarith
  have c: "c_int (d_chunk d) = d_chunk d" "c_size_t sz = sz" "c_size_t (2 ^ 32 + sz) = 2 ^ 32 + sz"
    "c_size_t 0 = 0" "c_off_t 0 = 0" "c_size_t (2 ^ 32) = 2 ^ 32"
    using cs sz b by (auto intro!: c_int_id c_size_t_id c_off_t_id)
  have sz_eq: "theFileLength f = d_length d" "theChunkSize f = d_chunk d"
    using sized by (simp_all add: sized_def)
  have dm: "c_div 0 (d_chunk d) = Ret 0" "c_mod 0 (d_chunk d) = Ret 0"
    using cs by (simp_all add: c_div_nonneg c_mod_nonneg)
  obtain f1 s1 where 1: "file_read_chunk E 0 sz 0 (f, s) =
      (Ret (sz, take (nat sz) (d_data d)), (f1, s1))"
    "reader_ok (docs (world s)) d f1" "sized d f1" "thePath f1 = thePath f"
    "evolves docs cached s (docs (world s)) s1"
    using file_read_chunk_run [OF ok sized len(1,3), of 0 0 sz] len(2) sz by auto
  have turn: "(0 = sz) = False" "(2 ^ 32 < d_length d) = True" "(2 ^ 32 + sz > d_length d) = False"
    "(sz > d_chunk d) = False"
    using len(2) sz by simp_all
  have "read_loop E (Suc (Suc fuel)) sz (2 ^ 32) 0 [] (f, s) =
      read_loop E (Suc fuel) sz (2 ^ 32) sz (take (nat sz) (d_data d)) (f1, s1)"
    by (simp only: read_loop.simps(2) [of E "Suc fuel"] bind_run this_run sz_eq casts c dm Let_def
        comp_run turn 1(1) add_0_right diff_zero add_0_left append_Nil prod.case outcome.case
        if_True if_False simp_thms)
  also have "\<dots> = (Ret (sz, take (nat sz) (d_data d)), (f1, s1))"
    by (simp add: bind_run comp_simps)
  finally show ?thesis using 1 by blast
qed

lemma file_read_wrapped:
  assumes ok: "reader_ok (docs (world s)) d f"
    and len: "sound_length d" "2 ^ 32 + sz \<le> d_length d" "d_length d < 2 ^ 62"
    and cs: "0 < d_chunk d" "d_chunk d < 2 ^ 31"
    and sz: "0 < sz" "sz \<le> d_chunk d"
  shows "\<exists>f' s'. file_read E sz (2 ^ 32) (f, s) = (Ret (sz, take (nat sz) (d_data d)), (f', s')) \<and>
    reader_ok (docs (world s)) d f' \<and> thePath f' = thePath f \<and>
    evolves docs cached s (docs (world s)) s'"
proof -
  obtain f1 s1 where 1: "file_read E sz (2 ^ 32) (f, s) = (if d_length d < 2 ^ 32 then ret (0, [])
      else read_loop E (Suc (nat sz)) sz (2 ^ 32) 0 []) (f1, s1)"
    "reader_ok (docs (world s)) d f1" "sized d f1" "thePath f1 = thePath f"
    "evolves docs cached s (docs (world s)) s1"
    using file_read_sized [OF ok len(1,3) cs, of "2 ^ 32"] by auto
  have d1: "docs (world s1) = docs (world s)" using evolves_docs [OF 1(5)] .
  obtain fuel where fuel: "Suc (nat sz) = Suc (Suc fuel)" using sz(1) by (metis Suc_nat_eq_nat_zadd1 add.commute gr0_implies_Suc zero_less_nat_eq)
  have big: "\<not> d_length d < 2 ^ 32" using len(2) sz(1) by linarith
  obtain f2 s2 where 2: "read_loop E (Suc (Suc fuel)) sz (2 ^ 32) 0 [] (f1, s1) =
      (Ret (sz, take (nat sz) (d_data d)), (f2, s2))" "reader_ok (docs (world s)) d f2"
    "thePath f2 = thePath f1" "evolves docs cached s1 (docs (world s)) s2"
    using read_loop_wrapped [of s1 d f1 sz fuel] 1(2,3) len cs sz unfolding d1 by blast
  show ?thesis
    using 1(1,4) 2 evolves_trans [OF 1(5) 2(4)] fuel big by auto
qed

end

end
