(* ===== verification/File_Write.thy ===== *)
theory File_Write
  imports File_Correct
begin

text \<open>
  Writing a file and storing it. The interface of a writer is the locale
  \<open>sequential_writer\<close>: it takes blocks one after the other and refuses any other position
  without a change. The write member function of a file over growing memory is an instance, and the
  stored document holds the blocks that were written.
\<close>

section \<open>The interface of a writer\<close>

primrec write_all :: "(bytes \<Rightarrow> int \<Rightarrow> ('s, int) comp) \<Rightarrow> int \<Rightarrow> bytes list \<Rightarrow> ('s, unit) comp" where
  "write_all w off [] = ret ()"
| "write_all w off (b # bs) = bind (w b off) (\<lambda>n. write_all w (off + n) bs)"

locale sequential_writer =
  fixes put :: "bytes \<Rightarrow> int \<Rightarrow> ('s, int) comp"
    and contents :: "'s \<Rightarrow> bytes"
    and ok :: "'s \<Rightarrow> bool"
    and capacity :: nat
  assumes write_next: "ok s \<Longrightarrow> length (contents s) + length b < capacity \<Longrightarrow>
      \<exists>s'. put b (int (length (contents s))) s = (Ret (int (length b)), s') \<and>
        contents s' = contents s @ b \<and> ok s'"
    and write_elsewhere: "ok s \<Longrightarrow> 0 \<le> off \<Longrightarrow> off < 2 ^ 63 \<Longrightarrow> off \<noteq> int (length (contents s)) \<Longrightarrow>
      \<exists>e s'. put b off s = (Throw e, s') \<and> contents s' = contents s \<and> ok s'"
begin

lemma write_all_run:
  assumes "ok s" "length (contents s) + length (concat bs) < capacity"
  shows "\<exists>s'. write_all put (int (length (contents s))) bs s = (Ret (), s') \<and>
    contents s' = contents s @ concat bs \<and> ok s'"
  using assms
proof (induction bs arbitrary: s)
  case Nil
  then show ?case by (simp add: comp_simps)
next
  case (Cons b bs)
  obtain s1 where 1: "put b (int (length (contents s))) s = (Ret (int (length b)), s1)"
    "contents s1 = contents s @ b" "ok s1"
    using write_next [OF Cons.prems(1), of b] Cons.prems(2) by auto
  obtain s2 where 2: "write_all put (int (length (contents s1))) bs s1 = (Ret (), s2)"
    "contents s2 = contents s1 @ concat bs" "ok s2"
    using Cons.IH [OF 1(3)] Cons.prems(2) 1(2) by auto
  then show ?case using 1 by (simp add: bind_run)
qed

text \<open>A block written twice is refused the second time.\<close>

lemma write_again:
  assumes "ok s" "b \<noteq> []" "length (contents s) + length b < capacity" "int capacity \<le> 2 ^ 63"
  shows "\<exists>e s'. bind (put b (int (length (contents s))))
      (\<lambda>_. put b (int (length (contents s)))) s = (Throw e, s') \<and>
    contents s' = contents s @ b \<and> ok s'"
proof -
  obtain s1 where 1: "put b (int (length (contents s))) s = (Ret (int (length b)), s1)"
    "contents s1 = contents s @ b" "ok s1"
    using write_next [OF assms(1,3)] by blast
  have "int (length (contents s)) < 2 ^ 63" using assms(3,4) by linarith
  then obtain e s2 where "put b (int (length (contents s))) s1 = (Throw e, s2)"
    "contents s2 = contents s1" "ok s2"
    using write_elsewhere [OF 1(3), of "int (length (contents s))" b] 1(2) assms(2) by auto
  with 1 show ?thesis by (simp add: bind_run)
qed

end

section \<open>The buffer of a file\<close>

definition buffer_ok :: "'y file_obj_scheme \<Rightarrow> bytes \<Rightarrow> bool" where
  "buffer_ok f bs \<longleftrightarrow> theData f = Mapped bs \<and> int (length bs) = theCurrentDataSize f \<and>
     0 < theCurrentDataSize f \<and> 0 < theChunkSize f \<and> theChunkSize f < 2 ^ 32 \<and>
     0 \<le> theWritten f \<and> theWritten f \<le> theCurrentDataSize f \<and>
     theCurrentDataSize f \<le> theWritten f + theChunkSize f"

definition writer_ok :: "'y file_obj_scheme \<Rightarrow> bool" where
  "writer_ok f \<longleftrightarrow> 0 \<le> theChunkSize f \<and> theChunkSize f < 2 ^ 32 \<and>
     (theCurrentDataSize f = 0 \<and> theWritten f = 0 \<and> \<not> theHasChanges f \<or> (\<exists>bs. buffer_ok f bs))"

text \<open>The bytes written so far.\<close>

definition written :: "'y file_obj_scheme \<Rightarrow> bytes" where
  "written f = (if theCurrentDataSize f = 0 then [] else case theData f of
     Mapped bs \<Rightarrow> take (nat (theWritten f)) bs | _ \<Rightarrow> [])"

lemma written_length: "writer_ok f \<Longrightarrow> int (length (written f)) = theWritten f"
  by (auto simp: writer_ok_def written_def buffer_ok_def)

lemma writer_ok_nonneg: "writer_ok f \<Longrightarrow> 0 \<le> theWritten f"
  by (auto simp: writer_ok_def buffer_ok_def)

lemma written_buffer: "buffer_ok f bs \<Longrightarrow> written f = take (nat (theWritten f)) bs"
  by (auto simp: written_def buffer_ok_def)

lemma zeros_length [simp]: "length (zeros n) = nat n"
  by (simp add: zeros_def)

lemma zeros_add: "0 \<le> a \<Longrightarrow> 0 \<le> b \<Longrightarrow> zeros a @ zeros b = zeros (a + b)"
  by (simp add: zeros_def replicate_add [symmetric] nat_add_distrib)

lemma zeros_0 [simp]: "zeros 0 = []"
  by (simp add: zeros_def)

lemma resize_grow: "int (length bs) \<le> n \<Longrightarrow> resize bs n = bs @ zeros (n - int (length bs))"
  by (simp add: resize_def)

lemma overwrite_length:
  "w + length data \<le> length bs \<Longrightarrow>
   length (take w bs @ data @ drop (w + length data) bs) = length bs"
  by simp

text \<open>A position other than the end of what was written is refused, whatever the environment.\<close>

definition sized_chunks :: "'w env \<Rightarrow> 'y file_obj_scheme \<Rightarrow> 'y file_obj_scheme" where
  "sized_chunks E f = (if theChunkSize f = 0
     then f\<lparr>theChunkSize := mongo_chunk_size (config E)\<rparr> else f)"

lemma sized_chunks_keeps [simp]:
  "theWritten (sized_chunks E f) = theWritten f" "theData (sized_chunks E f) = theData f"
  "theCurrentDataSize (sized_chunks E f) = theCurrentDataSize f"
  "theHasChanges (sized_chunks E f) = theHasChanges f" "thePath (sized_chunks E f) = thePath f"
  "theGridFile (sized_chunks E f) = theGridFile f" "written (sized_chunks E f) = written f"
  by (simp_all add: sized_chunks_def written_def split: mapping.split)

lemma sized_chunks_ok:
  "writer_ok f \<Longrightarrow> 0 < mongo_chunk_size (config E) \<Longrightarrow> mongo_chunk_size (config E) < 2 ^ 32 \<Longrightarrow>
   writer_ok (sized_chunks E f) \<and> 0 < theChunkSize (sized_chunks E f)"
  by (auto simp: writer_ok_def sized_chunks_def buffer_ok_def)

lemma file_write_elsewhere:
  assumes "theWritten f \<noteq> c_size_t offset"
  shows "file_write E data offset (f, s) =
    (Throw (StdException ''Appending to a file other than to the beginning of it is not allowed. ''),
     (sized_chunks E f, s))"
  using assms by (simp add: file_write_def Let_def bind_run comp_simps sized_chunks_def)

section \<open>Writing under the laws\<close>

context backend
begin

lemma extend_memory_run:
  assumes "theData f = Mapped bs" "int (length bs) = theCurrentDataSize f"
    and "0 < theChunkSize f" "theCurrentDataSize f + theChunkSize f < 2 ^ 64"
  shows "\<exists>s'. extend_memory E (f, s) =
      (Ret (), (f\<lparr>theData := Mapped (bs @ zeros (theChunkSize f)),
         theCurrentDataSize := theCurrentDataSize f + theChunkSize f\<rparr>, s')) \<and>
     evolves docs cached s (docs (world s)) s'"
proof -
  let ?n = "theCurrentDataSize f + theChunkSize f"
  have n: "c_size_t ?n = ?n" using assms by (intro c_size_t_id) auto
  have r: "resize bs ?n = bs @ zeros (theChunkSize f)"
    using assms by (subst resize_grow) auto
  have "0 < ?n" using assms(2,3) by linarith
  then show ?thesis
    using remap_memory_evolves [of ?n "theCurrentDataSize f" s] assms(1)
    by (auto simp: extend_memory_def bind_run comp_simps n r Let_def)
qed

text \<open>The loop ends: each turn adds a chunk, so a turn per missing byte is enough.\<close>

lemma extend_loop_run:
  assumes "0 < cs" "cs < 2 ^ 32" "target < 2 ^ 63"
  shows "theData f = Mapped bs \<Longrightarrow> int (length bs) = theCurrentDataSize f \<Longrightarrow>
     theChunkSize f = cs \<Longrightarrow> nat (target - theCurrentDataSize f) < fuel \<Longrightarrow>
     \<exists>k s'. extend_loop E fuel target (f, s) =
       (Ret (), (f\<lparr>theData := Mapped (bs @ zeros k), theCurrentDataSize := theCurrentDataSize f + k\<rparr>, s')) \<and>
     0 \<le> k \<and> target \<le> theCurrentDataSize f + k \<and>
     (k = 0 \<or> theCurrentDataSize f + k < target + cs) \<and> evolves docs cached s (docs (world s)) s'"
proof (induction fuel arbitrary: f bs s)
  case 0
  then show ?case by simp
next
  case (Suc fuel)
  show ?case
  proof (cases "theCurrentDataSize f < target")
    case False
    then have "extend_loop E (Suc fuel) target (f, s) = (Ret (), (f, s))"
      by (simp add: bind_run comp_simps)
    moreover have "f\<lparr>theData := Mapped (bs @ zeros 0), theCurrentDataSize := theCurrentDataSize f + 0\<rparr> = f"
      using Suc.prems(1) by simp
    ultimately show ?thesis using False by (intro exI [of _ 0] exI [of _ s]) simp
  next
    case True
    let ?f = "f\<lparr>theData := Mapped (bs @ zeros cs), theCurrentDataSize := theCurrentDataSize f + cs\<rparr>"
    have "(2::int) ^ 63 + 2 ^ 32 < 2 ^ 64" by simp
    then have room: "theCurrentDataSize f + cs < 2 ^ 64" using True assms by linarith
    obtain s1 where 1: "extend_memory E (f, s) = (Ret (), (?f, s1))"
      "evolves docs cached s (docs (world s)) s1"
      using extend_memory_run [OF Suc.prems(1,2), of s] room assms(1) Suc.prems(3) by auto
    have d1: "docs (world s1) = docs (world s)" using evolves_docs [OF 1(2)] .
    have IH: "\<exists>k s'. extend_loop E fuel target (?f, s1) =
        (Ret (), (?f\<lparr>theData := Mapped ((bs @ zeros cs) @ zeros k),
          theCurrentDataSize := theCurrentDataSize ?f + k\<rparr>, s')) \<and>
       0 \<le> k \<and> target \<le> theCurrentDataSize ?f + k \<and>
       (k = 0 \<or> theCurrentDataSize ?f + k < target + cs) \<and> evolves docs cached s1 (docs (world s1)) s'"
      using Suc.prems assms(1) True by (intro Suc.IH) auto
    then obtain k s2 where 2: "extend_loop E fuel target (?f, s1) =
        (Ret (), (?f\<lparr>theData := Mapped ((bs @ zeros cs) @ zeros k),
          theCurrentDataSize := theCurrentDataSize ?f + k\<rparr>, s2))"
      "0 \<le> k" "target \<le> theCurrentDataSize ?f + k"
      "k = 0 \<or> theCurrentDataSize ?f + k < target + cs" "evolves docs cached s1 (docs (world s)) s2"
      unfolding d1 by blast
    have "extend_loop E (Suc fuel) target (f, s) = (Ret (), (f\<lparr>theData := Mapped (bs @ zeros (cs + k)),
        theCurrentDataSize := theCurrentDataSize f + (cs + k)\<rparr>, s2))"
      using True 1(1) 2(1,2) assms(1) by (simp add: bind_run comp_simps zeros_add add.assoc)
    with 2 evolves_trans [OF 1(2) 2(5)] True assms(1) show ?thesis
      by (intro exI [of _ "cs + k"] exI [of _ s2]) auto
  qed
qed

text \<open>Memory for the first block.\<close>

lemma ensure_memory_run:
  assumes "writer_ok f" "0 < theChunkSize f"
  shows "\<exists>f' bs s'. (if theCurrentDataSize f = 0 then init_memory E else ret ()) (f, s) = (Ret (), (f', s')) \<and>
     buffer_ok f' bs \<and> take (nat (theWritten f)) bs = written f \<and>
     f' = f\<lparr>theData := Mapped bs, theCurrentDataSize := theCurrentDataSize f'\<rparr> \<and>
     evolves docs cached s (docs (world s)) s'"
proof (cases "theCurrentDataSize f = 0")
  case True
  then have w: "theWritten f = 0" using assms(1) by (auto simp: writer_ok_def buffer_ok_def)
  let ?f = "f\<lparr>theData := Mapped (zeros (theChunkSize f)), theCurrentDataSize := theChunkSize f\<rparr>"
  have "\<exists>s'. init_memory E (f, s) = (Ret (), (?f, s')) \<and> evolves docs cached s (docs (world s)) s'"
    using map_memory_evolves [of "theChunkSize f" s] assms(2)
    by (auto simp: init_memory_def bind_run comp_simps)
  moreover have "buffer_ok ?f (zeros (theChunkSize f))"
    using assms w by (auto simp: buffer_ok_def writer_ok_def)
  ultimately show ?thesis
    using True w by (intro exI [of _ ?f] exI [of _ "zeros (theChunkSize f)"]) (auto simp: written_def)
next
  case False
  then obtain bs where b: "buffer_ok f bs" using assms(1) by (auto simp: writer_ok_def)
  then have "f = f\<lparr>theData := Mapped bs, theCurrentDataSize := theCurrentDataSize f\<rparr>"
    by (simp add: buffer_ok_def)
  with False b show ?thesis
    by (intro exI [of _ f] exI [of _ bs] exI [of _ s]) (simp add: comp_simps written_buffer)
qed

lemma file_write_run:
  assumes ok: "writer_ok f"
    and cs: "0 < mongo_chunk_size (config E)" "mongo_chunk_size (config E) < 2 ^ 32"
    and room: "length (written f) + length data < 2 ^ 62"
  shows "\<exists>f' s'. file_write E data (int (length (written f))) (f, s) =
      (Ret (int (length data)), (f', s')) \<and>
     written f' = written f @ data \<and> writer_ok f' \<and> theHasChanges f' \<and> thePath f' = thePath f \<and>
     theGridFile f' = theGridFile f \<and> evolves docs cached s (docs (world s)) s'"
proof -
  let ?f1 = "sized_chunks E f" and ?w = "theWritten f" and ?n = "int (length data)"
  have ok1: "writer_ok ?f1" "0 < theChunkSize ?f1" using sized_chunks_ok [OF ok cs] by simp_all
  have w: "int (length (written f)) = ?w" "0 \<le> ?w"
    using written_length [OF ok] writer_ok_nonneg [OF ok] by simp_all
  have pow: "(2::int) ^ 62 < 2 ^ 63" "(2::int) ^ 63 < 2 ^ 64" by simp_all
  have "int (length (written f) + length data) < int (2 ^ 62)"
    using room by (simp only: of_nat_less_iff)
  then have bound: "?w + ?n < 2 ^ 62" using w(1) by simp
  then have casts: "c_size_t ?w = ?w" "c_size_t (?w + ?n) = ?w + ?n"
    using w(2) pow by (intro c_size_t_id; linarith)+
  obtain f2 bs s2 where 2: "(if theCurrentDataSize ?f1 = 0 then init_memory E else ret ()) (?f1, s) =
      (Ret (), (f2, s2))" "buffer_ok f2 bs" "take (nat ?w) bs = written f"
    "f2 = ?f1\<lparr>theData := Mapped bs, theCurrentDataSize := theCurrentDataSize f2\<rparr>"
    "evolves docs cached s (docs (world s)) s2"
    using ensure_memory_run [OF ok1, of s] by auto
  have f2: "theWritten f2 = ?w" "theChunkSize f2 = theChunkSize ?f1" "thePath f2 = thePath f"
    "theGridFile f2 = theGridFile f"
    by (subst 2(4); simp)+
  have b2: "theData f2 = Mapped bs" "int (length bs) = theCurrentDataSize f2"
    "theCurrentDataSize f2 \<le> ?w + theChunkSize f2" "?w \<le> theCurrentDataSize f2"
    "0 < theCurrentDataSize f2" "theChunkSize f2 < 2 ^ 32" "0 < theChunkSize f2"
    using 2(2) f2(1) by (simp_all add: buffer_ok_def)
  have fuel: "nat (?w + ?n - theCurrentDataSize f2) < Suc (nat (?w + ?n))" using b2(5) by linarith
  have target: "?w + ?n < 2 ^ 63" using bound pow by linarith
  obtain k s3 where 3: "extend_loop E (Suc (nat (?w + ?n))) (?w + ?n) (f2, s2) =
      (Ret (), (f2\<lparr>theData := Mapped (bs @ zeros k), theCurrentDataSize := theCurrentDataSize f2 + k\<rparr>, s3))"
    "0 \<le> k" "?w + ?n \<le> theCurrentDataSize f2 + k"
    "k = 0 \<or> theCurrentDataSize f2 + k < ?w + ?n + theChunkSize f2"
    "evolves docs cached s2 (docs (world s2)) s3"
    using extend_loop_run [OF b2(7,6) target b2(1,2) refl fuel, of s2] by blast
  let ?bs = "bs @ zeros k"
  let ?new = "take (nat ?w) ?bs @ data @ drop (nat ?w + length data) ?bs"
  let ?f4 = "f2\<lparr>theData := Mapped ?new, theCurrentDataSize := theCurrentDataSize f2 + k,
      theHasChanges := True, theWritten := ?w + ?n\<rparr>"
  have fits: "nat ?w + length data \<le> length ?bs" using 3(2,3) b2(2) w(2) by simp
  have run: "file_write E data ?w (f, s) = (Ret ?n, (?f4, s3))"
    using 2(1) 3(1) fits w(2) f2(1)
    by (simp add: file_write_def Let_def bind_run comp_simps sized_chunks_def [symmetric] casts copy_in_def)
  have take_w: "take (nat ?w) ?bs = written f"
    using 2(3) b2(2,4) by (simp add: nat_le_iff)
  have len_new: "int (length ?new) = theCurrentDataSize f2 + k"
    unfolding overwrite_length [OF fits] using 3(2) b2(2) by simp
  have n: "nat (?w + ?n) = length (written f) + length data" using w by linarith
  have buf: "buffer_ok ?f4 ?new"
    using len_new 3(2-4) b2(3-7) w(2) by (auto simp: buffer_ok_def)
  then have "written ?f4 = take (length (written f) + length data) ?new"
    using n by (simp add: written_buffer)
  then have "written ?f4 = written f @ data" unfolding take_w by simp
  moreover have "writer_ok ?f4"
    using buf b2(6,7) by (auto simp: writer_ok_def)
  moreover have "evolves docs cached s (docs (world s)) s3"
    using evolves_trans [OF 2(5) 3(5)] evolves_docs [OF 2(5)] by simp
  ultimately show ?thesis
    using run f2 unfolding w(1) by (intro exI [of _ ?f4] exI [of _ s3]) simp
qed

text \<open>So a file is a sequential writer.\<close>

lemma file_is_writer:
  assumes "0 < mongo_chunk_size (config E)" "mongo_chunk_size (config E) < 2 ^ 32"
  shows "sequential_writer (file_write E)
    (\<lambda>(f :: 'y file_obj_scheme, s :: ('w, 'x) process_scheme). written f) (\<lambda>(f, s). writer_ok f) (2 ^ 62)"
proof (unfold_locales, goal_cases)
  case (1 s b)
  then show ?case
    using file_write_run [OF _ assms, of "fst s" b "snd s"] by (cases s) fastforce
next
  case (2 s off b)
  obtain f t where s: "s = (f, t)" by (cases s)
  have "(2::int) ^ 63 < 2 ^ 64" by simp
  then have "c_size_t off = off" using 2(2,3) by (intro c_size_t_id) linarith+
  then have "theWritten f \<noteq> c_size_t off" using 2(1,4) written_length [of f] by (simp add: s)
  from file_write_elsewhere [OF this, of E b t] sized_chunks_ok [OF _ assms, of f] 2(1)
  show ?case by (simp add: s)
qed

section \<open>Storing under the laws\<close>

text \<open>
  The stored document holds what was written and keeps the attributes of the document that
  was there. \<open>theFileLength\<close> is copied from \<open>theWritten\<close> after it was reset.
\<close>

lemma file_store_fetched:
  assumes g: "gridfile E (f, s) = (Ret g, (f\<lparr>theGridFile := Some g\<rparr>, s1))" "gf_content_type g = Inr ct"
    "evolves docs cached s (docs (world s)) s1" and w: "writer_ok f"
  shows "\<exists>f' i cs s'. file_store E (f, s) = (Ret (), (f', s')) \<and>
     theWritten f' = 0 \<and> theCurrentDataSize f' = 0 \<and> \<not> theHasChanges f' \<and> theFileLength f' = 0 \<and>
     thePath f' = thePath f \<and>
     evolves docs cached s (docs (world s) @ [\<lparr>d_id = i, d_name = thePath f, d_type = ct,
       d_length = int (length (written f)), d_chunk = cs, d_data = written f\<rparr>]) s' \<and>
     i \<notin> d_id ` set (docs (world s)) \<and> 0 < cs \<and> cs < 2 ^ 31"
proof -
  let ?f1 = "f\<lparr>theGridFile := Some g\<rparr>"
  have bytes: "mapped_bytes (theData f) (theWritten f) = Ret (written f)"
    using w by (auto simp: mapped_bytes_def written_def writer_ok_def buffer_ok_def)
  obtain i cs s2 where 2: "call (store_file E (written f) (thePath f) ct) s1 = (Ret (), s2)"
    "evolves docs cached s1 (docs (world s1) @ [\<lparr>d_id = i, d_name = thePath f, d_type = ct,
       d_length = int (length (written f)), d_chunk = cs, d_data = written f\<rparr>]) s2"
    "i \<notin> d_id ` set (docs (world s1))" "0 < cs" "cs < 2 ^ 31"
    using store_file_evolves by blast
  obtain s3 where 3: "synchonizeUpdate E s2 = (Ret (), s3)"
    "evolves docs cached s2 (docs (world s2)) s3"
    using synchonizeUpdate_run by blast
  note d1 = evolves_docs [OF g(3)] and d2 = evolves_docs [OF 2(2)]
  let ?g = "if theCurrentDataSize ?f1 \<noteq> 0 then ?f1\<lparr>theData := NoMapping, theWritten := 0,
      theHasChanges := False, theCurrentDataSize := 0\<rparr> else ?f1"
  let ?f' = "?g\<lparr>theFileLength := theWritten ?g\<rparr>"
  have "file_store E (f, s) = (Ret (), (?f', s3))"
    using g(1,2) bytes 2(1) 3(1)
    by (simp add: file_store_def bind_run comp_simps free_memory_def)
  moreover have "theWritten ?f' = 0 \<and> theCurrentDataSize ?f' = 0 \<and> \<not> theHasChanges ?f' \<and>
      theFileLength ?f' = 0 \<and> thePath ?f' = thePath f"
    using w by (auto simp: writer_ok_def buffer_ok_def)
  moreover have "evolves docs cached s (docs (world s2)) s3"
    using evolves_trans [OF g(3) evolves_trans [OF 2(2) 3(2)]] .
  ultimately show ?thesis using 2(3-5) unfolding d1 d2 by blast
qed

lemma gridfile_shown:
  assumes "current (docs (world s)) f" "newest (thePath f) (docs (world s)) = Some d"
  obtains g s1 where "gridfile E (f, s) = (Ret g, (f\<lparr>theGridFile := Some g\<rparr>, s1))"
    "gf_content_type g = Inr (d_type d)" "evolves docs cached s (docs (world s)) s1"
proof -
  obtain g f1 s1 where 1: "gridfile E (f, s) = (Ret g, (f1, s1))" "shows_doc g (Some d)"
    "theGridFile f1 = Some g" "fetched (docs (world s)) f f1" "evolves docs cached s (docs (world s)) s1"
    using gridfile_run [OF assms(1)] assms(2) by auto
  moreover have "f1 = f\<lparr>theGridFile := Some g\<rparr>" using 1(3,4) by (auto simp: fetched_def)
  ultimately show thesis using that by (auto simp: shows_doc_def)
qed

lemma file_truncate_run:
  assumes "current (docs (world s)) e" "newest (thePath e) (docs (world s)) = Some d"
  shows "\<exists>e' s'. file_truncate E (e, s) = (Ret (), (e', s')) \<and>
     evolves docs cached s (update_docs (d_id d) (SetLength 0) (docs (world s))) s'"
proof -
  obtain g e1 s1 where 1: "gridfile E (e, s) = (Ret g, (e1, s1))" "shows_doc g (Some d)"
    "evolves docs cached s (docs (world s)) s1"
    using gridfile_run [OF assms(1)] assms(2) by auto
  have i: "gf_id g = Inr (d_id d)" using 1(2) by (simp add: shows_doc_def)
  obtain s2 where 2: "call (update_file E (filesCollection (config E)) (d_id d) (SetLength 0)) s1 = (Ret (), s2)"
    "evolves docs cached s1 (update_docs (d_id d) (SetLength 0) (docs (world s1))) s2"
    using update_file_evolves unfolding filesCollection_def by blast
  obtain s3 where 3: "synchonizeUpdate E s2 = (Ret (), s3)"
    "evolves docs cached s2 (docs (world s2)) s3"
    using synchonizeUpdate_run by blast
  have "file_truncate E (e, s) = (Ret (), (e1, s3))"
    using 1(1) 2(1) 3(1) by (simp add: file_truncate_def bind_run comp_simps i)
  with evolves_trans [OF 1(3) evolves_trans [OF 2(2) 3(2)]] evolves_docs [OF 1(3)] evolves_docs [OF 2(2)]
  show ?thesis by auto
qed

end

section \<open>The writer of a mounted filesystem\<close>

text \<open>
  \<open>Fuse::init\<close> sets the chunk size to 256 KiB and no option changes it; all that writing
  needs is that it is positive and fits in 32 bits.
\<close>

locale mounted = backend E docs cached
  for E :: "'w env" and docs :: "'w \<Rightarrow> doc list" and cached :: "'w \<Rightarrow> string \<rightharpoonup> cached_value" +
  assumes chunk_size: "0 < mongo_chunk_size (config E)" "mongo_chunk_size (config E) < 2 ^ 32"
begin

sublocale file_writer: sequential_writer "file_write E"
  "\<lambda>(f :: 'y file_obj_scheme, s :: ('w, 'x) process_scheme). written f" "\<lambda>(f, s). writer_ok f" "2 ^ 62"
  by (rule file_is_writer [OF chunk_size])

end

end
