(* ===== verification/Callbacks.thy ===== *)
theory Callbacks
  imports Session File_Write
begin

text \<open>
  What the callbacks do under the laws: the effect of each on the documents, its result on
  every branch, and that the cache of attributes stays right about the documents.
\<close>

section \<open>Truth and coherence\<close>

text \<open>The attributes of each path according to the documents.\<close>

definition truth :: "gridfs_config \<Rightarrow> doc list \<Rightarrow> string \<rightharpoonup> stat_buf" where
  "truth c ds p = (case newest p ds of
     None \<Rightarrow> None
   | Some d \<Rightarrow> (case stat_of_doc c d of Ret st \<Rightarrow> Some st | _ \<Rightarrow> None))"

lemma truth_cong: "newest p ds' = newest p ds \<Longrightarrow> truth c ds' p = truth c ds p"
  by (simp add: truth_def)

text \<open>A change of the documents of one path changes the truth at that path only.\<close>

lemma truth_changed:
  assumes "\<And>q. q \<noteq> p \<Longrightarrow> newest q ds' = newest q ds"
  shows "truth c ds' = (truth c ds)(p := truth c ds' p)"
  using assms by (auto simp: fun_eq_iff intro: truth_cong)

lemma map_le_elsewhere:
  assumes "e \<subseteq>\<^sub>m t" "e p = None" "\<And>q. q \<noteq> p \<Longrightarrow> t' q = t q"
  shows "e \<subseteq>\<^sub>m t'"
  unfolding map_le_def
proof
  fix q assume q: "q \<in> dom e"
  with assms(2) have "q \<noteq> p" by auto
  with assms(1,3) q show "e q = t' q" by (simp add: map_le_def)
qed

lemma map_le_forget: "e \<subseteq>\<^sub>m t \<Longrightarrow> e(p := None) \<subseteq>\<^sub>m t"
  by (auto simp: map_le_def)

definition only_path :: "string \<Rightarrow> doc list \<Rightarrow> doc list \<Rightarrow> bool" where
  "only_path p ds ds' \<longleftrightarrow> (\<forall>q. q \<noteq> p \<longrightarrow> newest q ds' = newest q ds)"

lemma only_path_refl [simp]: "only_path p ds ds"
  by (simp add: only_path_def)

lemma only_path_snoc: "d_name d = p \<Longrightarrow> only_path p ds (ds @ [d])"
  by (simp add: only_path_def newest_snoc)

lemma only_path_filter: "only_path p ds (filter (\<lambda>d. d_name d \<noteq> p) ds)"
  by (simp add: only_path_def newest_remove)

lemma only_path_update:
  "wf_docs ds \<Longrightarrow> newest p ds = Some d \<Longrightarrow> only_path p ds (update_docs (d_id d) f ds)"
  by (simp add: only_path_def newest_update_own)

text \<open>The cache holds attributes only, and they are the true ones.\<close>

definition coherent ::
  "'w env \<Rightarrow> ('w \<Rightarrow> doc list) \<Rightarrow> ('w \<Rightarrow> string \<rightharpoonup> cached_value) \<Rightarrow> ('w, 'x) process_scheme \<Rightarrow> bool" where
  "coherent E docs cached s \<longleftrightarrow>
     only_stats cached s \<and> entries_of cached s \<subseteq>\<^sub>m truth (config E) (docs (world s))"

text \<open>Only the outside world moved, and the cache has at most lost entries.\<close>

definition calm ::
  "('w \<Rightarrow> doc list) \<Rightarrow> ('w \<Rightarrow> string \<rightharpoonup> cached_value) \<Rightarrow> 'w \<Rightarrow> 'w \<Rightarrow> bool" where
  "calm docs cached v w \<longleftrightarrow> docs w = docs v \<and> cached w \<subseteq>\<^sub>m cached v"

text \<open>What a callback did that answered 0: one document has new attributes, no other path changed.\<close>

definition attrs_changed ::
  "'w env \<Rightarrow> ('w \<Rightarrow> doc list) \<Rightarrow> string \<Rightarrow> doc \<Rightarrow> (attrs \<Rightarrow> attrs) \<Rightarrow> attrs \<Rightarrow> ('w, 'x) process_scheme \<Rightarrow> ('w, 'x) process_scheme \<Rightarrow> bool" where
  "attrs_changed E docs p d g a s s' \<longleftrightarrow> (\<exists>ct. newest p (docs (world s')) = Some (d\<lparr>d_type := ct\<rparr>) \<and>
     parse_content_type (config E) ct = Ret (g a)) \<and> only_path p (docs (world s)) (docs (world s')) \<and>
     length (docs (world s')) = length (docs (world s)) \<and> (\<exists>w. s' = s\<lparr>world := w\<rparr>)"

text \<open>A document as \<open>storeFile\<close> adds it to a collection that holds \<open>ds\<close>, and as \<open>create\<close> makes it.\<close>

definition stored_doc :: "string \<Rightarrow> string \<Rightarrow> bytes \<Rightarrow> doc list \<Rightarrow> doc \<Rightarrow> bool" where
  "stored_doc p ct content ds d \<longleftrightarrow> d_name d = p \<and> d_type d = ct \<and> d_data d = content \<and>
     d_length d = int (length content) \<and> d_id d \<notin> d_id ` set ds \<and> 0 < d_chunk d \<and> d_chunk d < 2 ^ 31"

definition new_doc :: "string \<Rightarrow> u32 \<Rightarrow> u32 \<Rightarrow> u32 \<Rightarrow> bytes \<Rightarrow> doc list \<Rightarrow> doc \<Rightarrow> bool" where
  "new_doc p mode uid gid content ds d \<longleftrightarrow> (\<exists>t. - (2 ^ 63) \<le> t \<and> t < 2 ^ 63 \<and>
     stored_doc p (print_content_type mode uid gid t) content ds d)"

lemma stored_doc_wf: "wf_docs ds \<Longrightarrow> stored_doc p ct content ds d \<Longrightarrow> wf_docs (ds @ [d])"
  by (intro wf_docs_snoc) (auto simp: stored_doc_def)

lemma stored_doc_content: "stored_doc p ct content ds d \<Longrightarrow> doc_content d = content \<and> sound_length d"
  by (simp add: stored_doc_def doc_content_def sound_length_def)

lemma new_doc_wf: "wf_docs ds \<Longrightarrow> new_doc p mode uid gid content ds d \<Longrightarrow> wf_docs (ds @ [d])"
  using stored_doc_wf by (auto simp: new_doc_def)

lemma new_doc_attrs:
  assumes "new_doc p mode uid gid content ds d"
  obtains t where "parse_content_type c (d_type d) =
    Ret \<lparr>at_mode = mode, at_uid = uid, at_gid = gid, at_time = Some t\<rparr>"
proof -
  from assms obtain t where "- (2 ^ 63) \<le> t" "t < 2 ^ 63" "d_type d = print_content_type mode uid gid t"
    by (auto simp: new_doc_def stored_doc_def)
  with that parse_print_content_type [of t c mode uid gid] show thesis by simp
qed

lemma new_doc_stat:
  assumes "new_doc p mode uid gid content ds d"
  obtains t where "stat_of_doc c d = Ret \<lparr>st_mode = mode,
    st_nlink = (if mode AND S_IFDIR \<noteq> 0 then 2 else 1), st_uid = uid, st_gid = gid,
    st_size = (if mode AND S_IFDIR \<noteq> 0 then 4096 else c_off_t (int (length content))),
    st_atime = Some t, st_mtime = Some t, st_ctime = Some t\<rparr>"
proof -
  have len: "d_length d = int (length content)" using assms by (auto simp: new_doc_def stored_doc_def)
  obtain t where "parse_content_type c (d_type d) =
      Ret \<lparr>at_mode = mode, at_uid = uid, at_gid = gid, at_time = Some t\<rparr>"
    by (rule new_doc_attrs [OF assms])
  then show thesis by (intro that [of t]) (simp add: stat_of_doc_def len)
qed

context backend
begin

lemma coherent_right:
  "coherent E docs cached s \<longleftrightarrow>
   only_stats cached s \<and> memcache.right (truth (config E) (docs (world s))) s"
  by (simp add: coherent_def memcache.right_def)

lemma coherent_evolves:
  assumes "coherent E docs cached s" "evolves docs cached s (docs (world s)) s'"
  shows "coherent E docs cached s'"
proof -
  have "entries_of cached s' \<subseteq>\<^sub>m entries_of cached s" using evolves_entries [OF assms(2)] .
  moreover have "docs (world s') = docs (world s)" using evolves_docs [OF assms(2)] .
  ultimately show ?thesis
    using assms evolves_only_stats [OF assms(2)]
    by (auto simp: coherent_def memcache.right_def intro: map_le_trans)
qed

text \<open>After documents of a path changed and the path was forgotten, the cache is right again.\<close>

lemma coherent_forgotten:
  assumes "coherent E docs cached s" "only_path p (docs (world s)) (docs (world s'))"
    and "cached (world s') \<subseteq>\<^sub>m (cached (world s))(memcache_key p := None)"
  shows "coherent E docs cached s'"
proof -
  have "entries_of cached s' \<subseteq>\<^sub>m (entries_of cached s)(p := None)"
    using entries_of_update_le [OF assms(3)] by simp
  also have "\<dots> \<subseteq>\<^sub>m truth (config E) (docs (world s'))"
  proof (rule map_le_elsewhere [where p = p])
    show "(entries_of cached s)(p := None) \<subseteq>\<^sub>m truth (config E) (docs (world s))"
      using assms(1) by (intro map_le_forget) (simp add: coherent_def memcache.right_def)
    show "truth (config E) (docs (world s')) q = truth (config E) (docs (world s)) q" if "q \<noteq> p" for q
      using assms(2) that by (intro truth_cong) (simp add: only_path_def)
  qed simp
  finally show ?thesis
    using assms(1) only_stats_update [OF assms(3)]
    by (simp add: coherent_def memcache.right_def)
qed

text \<open>A new document at a path that had none: nothing is cached there.\<close>

lemma coherent_added:
  assumes "coherent E docs cached s" "newest p (docs (world s)) = None" "only_path p (docs (world s)) (docs (world s'))"
    and "cached (world s') \<subseteq>\<^sub>m cached (world s)"
  shows "coherent E docs cached s'"
proof -
  have "truth (config E) (docs (world s)) p = None" using assms(2) by (simp add: truth_def)
  then have "entries_of cached s p = None"
    using assms(1) unfolding coherent_def memcache.right_def map_le_def
    by (metis domIff)
  moreover have "entries_of cached s' \<subseteq>\<^sub>m entries_of cached s" by (rule entries_of_mono [OF assms(4)])
  moreover have "entries_of cached s \<subseteq>\<^sub>m truth (config E) (docs (world s'))"
  proof (rule map_le_elsewhere [where p = p])
    show "entries_of cached s \<subseteq>\<^sub>m truth (config E) (docs (world s))"
      using assms(1) by (simp add: coherent_def memcache.right_def)
    show "entries_of cached s p = None" by fact
    show "truth (config E) (docs (world s')) q = truth (config E) (docs (world s)) q" if "q \<noteq> p" for q
      using assms(3) that by (intro truth_cong) (simp add: only_path_def)
  qed
  ultimately have "entries_of cached s' \<subseteq>\<^sub>m truth (config E) (docs (world s'))"
    using map_le_trans by blast
  moreover have "only_stats cached s'"
    using only_stats_mono [OF assms(4)] assms(1) by (simp add: coherent_def)
  ultimately show ?thesis by (simp add: coherent_def memcache.right_def)
qed

section \<open>Scopes under the laws\<close>

lemma calm_trans: "calm docs cached u v \<Longrightarrow> calm docs cached v w \<Longrightarrow> calm docs cached u w"
  by (auto simp: calm_def intro: map_le_trans)

lemma evolves_world:
  assumes "evolves docs cached (t\<lparr>world := w\<rparr>) ds s'"
  obtains w' where "s' = t\<lparr>world := w'\<rparr>" "docs w' = ds" "cached w' \<subseteq>\<^sub>m cached w"
proof -
  from assms have "s' = (t\<lparr>world := w\<rparr>)\<lparr>world := world s'\<rparr>" by (simp only: evolves_def)
  then have "s' = t\<lparr>world := world s'\<rparr>" by simp
  with assms that [of "world s'"] show thesis by (simp add: evolves_def)
qed

lemma entry_exists_world:
  assumes "current (docs w) e"
  obtains e' w' where "entry_exists E (e, t\<lparr>world := w\<rparr>) =
      (Ret (newest (thePath e) (docs w) \<noteq> None), (e', t\<lparr>world := w'\<rparr>))"
    "current (docs w') e'" "thePath e' = thePath e" "calm docs cached w w'"
proof -
  obtain e' s' where 1: "entry_exists E (e, t\<lparr>world := w\<rparr>) =
      (Ret (newest (thePath e) (docs w) \<noteq> None), (e', s'))"
    "fetched (docs w) e e'" "evolves docs cached (t\<lparr>world := w\<rparr>) (docs w) s'"
    using entry_exists_run [of "t\<lparr>world := w\<rparr>" e] assms by auto
  from 1(3) obtain w' where w': "s' = t\<lparr>world := w'\<rparr>" "docs w' = docs w" "cached w' \<subseteq>\<^sub>m cached w"
    by (rule evolves_world)
  have "current (docs w') e'" "thePath e' = thePath e"
    using fetched_current [OF 1(2)] w'(2) by simp_all
  with 1(1) w' that [of e' w'] show thesis by (simp add: calm_def)
qed

lemma entry_create_world:
  obtains d w' where "entry_create E mode uid gid content (e, t\<lparr>world := w\<rparr>) =
      (Ret (), (e\<lparr>theGridFile := None\<rparr>, t\<lparr>world := w'\<rparr>))"
    "docs w' = docs w @ [d]" "new_doc (thePath e) mode uid gid content (docs w) d"
    "cached w' \<subseteq>\<^sub>m cached w"
proof -
  let ?s = "t\<lparr>world := w\<rparr>"
  obtain tm i cs s' where 1: "entry_create E mode uid gid content (e, ?s) =
      (Ret (), (e\<lparr>theGridFile := None\<rparr>, s'))"
    "evolves docs cached ?s (docs (world ?s) @ [\<lparr>d_id = i, d_name = thePath e,
       d_type = print_content_type mode uid gid tm, d_length = int (length content), d_chunk = cs,
       d_data = content\<rparr>]) s'"
    "i \<notin> d_id ` set (docs (world ?s))" "0 < cs" "cs < 2 ^ 31" "tm = fst (clock E (world ?s))"
    using entry_create_run by blast
  from 1(2) obtain w' where w': "s' = t\<lparr>world := w'\<rparr>" "docs w' = docs (world ?s) @ [\<lparr>d_id = i,
      d_name = thePath e, d_type = print_content_type mode uid gid tm,
      d_length = int (length content), d_chunk = cs, d_data = content\<rparr>]" "cached w' \<subseteq>\<^sub>m cached w"
    by (rule evolves_world)
  have "stored_doc (thePath e) (print_content_type mode uid gid tm) content (docs w) \<lparr>d_id = i,
      d_name = thePath e, d_type = print_content_type mode uid gid tm,
      d_length = int (length content), d_chunk = cs, d_data = content\<rparr>"
    using 1(3-5) by (simp add: stored_doc_def)
  then have "new_doc (thePath e) mode uid gid content (docs w) \<lparr>d_id = i, d_name = thePath e,
      d_type = print_content_type mode uid gid tm, d_length = int (length content), d_chunk = cs,
      d_data = content\<rparr>"
    using clock_range [of "world ?s"] unfolding 1(6) new_doc_def by blast
  with that [of w'] 1(1) w' show thesis by simp
qed

definition builds :: "(('w, 'x) process_scheme, 'o) comp \<Rightarrow> 'o \<Rightarrow> bool" where
  "builds ctor ob \<longleftrightarrow> (\<forall>s. \<exists>w. ctor s = (Ret ob, (take_connection s)\<lparr>world := w\<rparr>) \<and> calm docs cached (world s) w)"

lemma new_entry_builds: "builds (new_entry E p) \<lparr>thePath = p, theGridFile = None\<rparr>"
  unfolding builds_def
proof
  fix s :: "('w, 'x) process_scheme"
  obtain s' where "new_entry E p s = (Ret \<lparr>thePath = p, theGridFile = None\<rparr>, take_connection s')"
    "evolves docs cached s (docs (world s)) s'"
    using new_entry_run by blast
  moreover from this(2) have "take_connection s' = (take_connection s)\<lparr>world := world s'\<rparr>"
    unfolding evolves_def take_connection_def
    by (metis process.select_convs(2) process.surjective process.update_convs(1,2))
  ultimately show "\<exists>w. new_entry E p s =
      (Ret \<lparr>thePath = p, theGridFile = None\<rparr>, (take_connection s)\<lparr>world := w\<rparr>) \<and> calm docs cached (world s) w"
    by (auto simp: calm_def evolves_def)
qed

lemma new_file_builds: "builds (new_file E p) (file_of_entry \<lparr>thePath = p, theGridFile = None\<rparr>)"
  using new_entry_builds [of p] unfolding builds_def new_file_def bind_def
  by (force simp: ret_def)

lemma drop_take [simp]: "drop_connection (take_connection s) = s"
  "drop_connection ((take_connection s)\<lparr>world := w\<rparr>) = s\<lparr>world := w\<rparr>"
  by (simp_all add: drop_connection_def take_connection_def)

lemma local_object_run:
  assumes "builds ctor ob"
    and "\<And>w. calm docs cached (world s) w \<Longrightarrow> \<exists>a ob' w'. body (ob, (take_connection s)\<lparr>world := w\<rparr>) =
      (Ret a, (ob', (take_connection s)\<lparr>world := w'\<rparr>)) \<and> R a w'"
  shows "\<exists>a w'. local_object ctor drop_connection body s = (Ret a, s\<lparr>world := w'\<rparr>) \<and> R a w'"
proof -
  obtain w where c: "ctor s = (Ret ob, (take_connection s)\<lparr>world := w\<rparr>)" "calm docs cached (world s) w"
    using assms(1) unfolding builds_def by blast
  obtain a ob' w' where "body (ob, (take_connection s)\<lparr>world := w\<rparr>) =
      (Ret a, (ob', (take_connection s)\<lparr>world := w'\<rparr>))" "R a w'"
    using assms(2) [OF c(2)] by blast
  with c(1) local_object_Ret [of ctor s ob _ body a ob' _ drop_connection] show ?thesis by auto
qed

lemma forget_path_run:
  "\<exists>w'. forget_path E p s = (Ret (), s\<lparr>world := w'\<rparr>) \<and> docs w' = docs (world s) \<and>
     cached w' \<subseteq>\<^sub>m (cached (world s))(memcache_key p := None)"
proof -
  let ?t = "memcache_acquire s"
  obtain s' where r: "memcache_remove E p ?t = (Ret (), s')"
    "cached (world s') \<subseteq>\<^sub>m (cached (world ?t))(memcache_key p := None)"
    "evolves docs cached ?t (docs (world ?t)) s'"
    using memcache_remove_run by blast
  have "memcache_release s' = s\<lparr>world := world s'\<rparr>"
    using r(3) unfolding evolves_def memcache_acquire_def memcache_release_def
    by (metis diff_Suc_1 process.select_convs(3) process.surjective process.update_convs(1,3))
  moreover have "forget_path E p s = (Ret (), memcache_release s')"
    unfolding forget_path_def by (rule with_memcache_run [of "memcache_remove E p", OF r(1)])
  moreover have "docs (world s') = docs (world s)" using evolves_docs [OF r(3)]
    by (simp add: memcache_acquire_def)
  moreover have "cached (world s') \<subseteq>\<^sub>m (cached (world s))(memcache_key p := None)"
    using r(2) by (simp add: memcache_acquire_def)
  ultimately show ?thesis by auto
qed

section \<open>Callbacks that change a document\<close>

text \<open>
  \<open>changes p pre f m\<close>: on an object of the path \<open>p\<close> the member function \<open>m\<close> turns the
  documents \<open>ds\<close> into \<open>f d ds\<close>, where \<open>d\<close> is the newest document of the path.
\<close>

definition changes ::
  "string \<Rightarrow> (doc \<Rightarrow> bool) \<Rightarrow> (doc \<Rightarrow> doc list \<Rightarrow> doc list) \<Rightarrow> ('y, 'w, 'x, unit) entry_comp \<Rightarrow> bool" where
  "changes p pre f m \<longleftrightarrow> (\<forall>e s d. current (docs (world s)) e \<longrightarrow> thePath e = p \<longrightarrow>
     newest p (docs (world s)) = Some d \<longrightarrow> pre d \<longrightarrow>
     (\<exists>e' s'. m (e, s) = (Ret (), (e', s')) \<and> evolves docs cached s (f d (docs (world s))) s'))"

lemma changesD:
  assumes "changes p pre f m" "current (docs w) e" "thePath e = p" "newest p (docs w) = Some d" "pre d"
  obtains e' w' where "m (e, t\<lparr>world := w\<rparr>) = (Ret (), (e', t\<lparr>world := w'\<rparr>))"
    "docs w' = f d (docs w)" "cached w' \<subseteq>\<^sub>m cached w"
proof -
  have "current (docs (world (t\<lparr>world := w\<rparr>))) e" "newest p (docs (world (t\<lparr>world := w\<rparr>))) = Some d"
    using assms(2,4) by simp_all
  then obtain e' s' where "m (e, t\<lparr>world := w\<rparr>) = (Ret (), (e', s'))"
    "evolves docs cached (t\<lparr>world := w\<rparr>) (f d (docs (world (t\<lparr>world := w\<rparr>)))) s'"
    using assms(1,3,5) unfolding changes_def by blast
  with that show thesis by (auto elim: evolves_world)
qed

definition change_callback ::
  "string \<Rightarrow> (('w, 'x) process_scheme, 'y entry_scheme) comp \<Rightarrow> ('y, 'w, 'x, unit) entry_comp \<Rightarrow>
    (('w, 'x) process_scheme, int) comp" where
  "change_callback p ctor m = catch_with (local_object ctor drop_connection
     (bind (entry_exists E) (\<lambda>ex. if \<not> ex then ret (- ENOENT)
       else bind m (\<lambda>_. bind (outside (forget_path E p)) (\<lambda>_. ret 0))))) (- EIO)"

lemma change_missing:
  assumes "builds ctor ob" "thePath ob = p" "theGridFile ob = None" "newest p (docs (world s)) = None"
  shows "\<exists>w'. change_callback p ctor m s = (Ret (- ENOENT), s\<lparr>world := w'\<rparr>) \<and> calm docs cached (world s) w'"
proof -
  let ?body = "bind (entry_exists E) (\<lambda>ex. if \<not> ex then ret (- ENOENT)
    else bind m (\<lambda>_. bind (outside (forget_path E p)) (\<lambda>_. ret 0)))"
  have "\<exists>a w'. local_object ctor drop_connection ?body s = (Ret a, s\<lparr>world := w'\<rparr>) \<and>
      (a = - ENOENT \<and> calm docs cached (world s) w')"
  proof (rule local_object_run [OF assms(1)])
    fix w assume w: "calm docs cached (world s) w"
    then have d: "docs w = docs (world s)" by (simp add: calm_def)
    have "current (docs w) ob" using assms(3) by (simp add: current_def)
    then obtain e' w' where 1: "entry_exists E (ob, (take_connection s)\<lparr>world := w\<rparr>) =
        (Ret False, (e', (take_connection s)\<lparr>world := w'\<rparr>))" "calm docs cached w w'"
      by (rule entry_exists_world [where t = "take_connection s"]) (use assms(2,4) d in simp)
    then show "\<exists>a ob' w'. ?body (ob, (take_connection s)\<lparr>world := w\<rparr>) =
        (Ret a, ob', (take_connection s)\<lparr>world := w'\<rparr>) \<and> a = - ENOENT \<and> calm docs cached (world s) w'"
      using calm_trans [OF w] by (auto simp: bind_run comp_simps)
  qed
  then show ?thesis unfolding change_callback_def by (auto simp: catch_with_def)
qed

lemma change_present:
  assumes "builds ctor ob" "thePath ob = p" "theGridFile ob = None"
    and "newest p (docs (world s)) = Some d" "changes p pre f m" "pre d"
  shows "\<exists>w'. change_callback p ctor m s = (Ret 0, s\<lparr>world := w'\<rparr>) \<and>
    docs w' = f d (docs (world s)) \<and> cached w' \<subseteq>\<^sub>m (cached (world s))(memcache_key p := None)"
proof -
  let ?body = "bind (entry_exists E) (\<lambda>ex. if \<not> ex then ret (- ENOENT)
    else bind m (\<lambda>_. bind (outside (forget_path E p)) (\<lambda>_. ret 0)))"
  let ?R = "\<lambda>a w'. a = 0 \<and> docs w' = f d (docs (world s)) \<and>
      cached w' \<subseteq>\<^sub>m (cached (world s))(memcache_key p := None)"
  let ?t = "take_connection s"
  have "\<exists>a w'. local_object ctor drop_connection ?body s = (Ret a, s\<lparr>world := w'\<rparr>) \<and> ?R a w'"
  proof (rule local_object_run [OF assms(1)])
    fix w assume w: "calm docs cached (world s) w"
    then have dw: "docs w = docs (world s)" by (simp add: calm_def)
    have "current (docs w) ob" using assms(3) by (simp add: current_def)
    then obtain e1 w1 where 1: "entry_exists E (ob, ?t\<lparr>world := w\<rparr>) = (Ret True, (e1, ?t\<lparr>world := w1\<rparr>))"
      "current (docs w1) e1" "thePath e1 = p" "calm docs cached w w1"
      by (rule entry_exists_world [where t = ?t]) (use assms(2,4) dw in simp)
    have d1: "docs w1 = docs (world s)" and c1: "cached w1 \<subseteq>\<^sub>m cached (world s)"
      using w 1(4) by (auto simp: calm_def intro: map_le_trans)
    obtain e2 w2 where 2: "m (e1, ?t\<lparr>world := w1\<rparr>) = (Ret (), (e2, ?t\<lparr>world := w2\<rparr>))"
      and w2: "docs w2 = f d (docs (world s))" "cached w2 \<subseteq>\<^sub>m cached w1"
      by (rule changesD [OF assms(5) 1(2,3), of d ?t]) (use assms(4,6) d1 in auto)
    obtain w3 where 3: "forget_path E p (?t\<lparr>world := w2\<rparr>) = (Ret (), ?t\<lparr>world := w3\<rparr>)"
      "docs w3 = docs w2" "cached w3 \<subseteq>\<^sub>m (cached w2)(memcache_key p := None)"
      using forget_path_run [of p "?t\<lparr>world := w2\<rparr>"] by auto
    have "(cached w2)(memcache_key p := None) \<subseteq>\<^sub>m (cached (world s))(memcache_key p := None)"
      using map_le_trans [OF w2(2) c1] by (auto simp: map_le_def)
    with 3 w2(1) have "?R 0 w3" using map_le_trans by fastforce
    with 1(1) 2 3(1) show "\<exists>a ob' w'. ?body (ob, ?t\<lparr>world := w\<rparr>) =
        (Ret a, ob', ?t\<lparr>world := w'\<rparr>) \<and> ?R a w'"
      by (intro exI [of _ 0] exI [of _ e2] exI [of _ w3]) (simp add: bind_run comp_simps)
  qed
  then show ?thesis unfolding change_callback_def by (auto simp: catch_with_def)
qed

text \<open>The callbacks of this shape.\<close>

lemmas change_shape = change_callback_def Let_def bind_assoc

lemma change_callbacks:
  "gridfs_chmod E q mode = change_callback (configure_path (config E) q)
     (new_entry E (configure_path (config E) q)) (entry_chmod E mode)"
  "gridfs_chown E q uid gid = change_callback (configure_path (config E) q)
     (new_entry E (configure_path (config E) q)) (entry_chown E uid gid)"
  "gridfs_unlink E q = change_callback (configure_path (config E) q)
     (new_entry E (configure_path (config E) q)) (entry_remove E)"
  "\<not> is_proc (config E) (configure_path (config E) q) \<Longrightarrow>
   gridfs_utimens E q time = change_callback (configure_path (config E) q)
     (new_file E (configure_path (config E) q)) (entry_utimes E time)"
  "gridfs_truncate E q 0 = change_callback (configure_path (config E) q)
     (new_file E (configure_path (config E) q)) (file_truncate E)"
  by (simp_all add: gridfs_chmod_def gridfs_chown_def gridfs_unlink_def gridfs_utimens_def
      gridfs_truncate_def change_callback_def Let_def)

text \<open>Attributes rewritten by \<open>g\<close>, in the terms of the codec.\<close>

lemma changes_attrs_path:
  assumes "changes_attrs m g"
  shows "changes p (\<lambda>d. content_type.rewritten (config E) g (d_type d) \<noteq> None)
    (\<lambda>d ds. update_docs (d_id d)
       (SetContentType (the (content_type.rewritten (config E) g (d_type d)))) ds) m"
  unfolding changes_def
proof (intro allI impI)
  fix e :: "'a entry_scheme" and s :: "('w, 'b) process_scheme" and d
  assume h: "current (docs (world s)) e" "thePath e = p" "newest p (docs (world s)) = Some d"
    and r: "content_type.rewritten (config E) g (d_type d) \<noteq> None"
  from r obtain a t where a: "parse_content_type (config E) (d_type d) = Ret a" "at_time (g a) = Some t"
    "content_type.rewritten (config E) g (d_type d) =
      Some (print_content_type (at_mode (g a)) (at_uid (g a)) (at_gid (g a)) t)"
    by (auto simp: content_type.rewritten_def split: outcome.splits option.splits)
  with assms h show "\<exists>e' s'. m (e, s) = (Ret (), e', s') \<and>
      evolves docs cached s (update_docs (d_id d)
        (SetContentType (the (content_type.rewritten (config E) g (d_type d)))) (docs (world s))) s'"
    unfolding changes_attrs_def by auto
qed

text \<open>The documents after such a callback answered 0.\<close>

lemma attrs_callback_docs:
  assumes "changes_attrs m g" "builds ctor ob" "thePath ob = p" "theGridFile ob = None"
    and co: "coherent E docs cached s" and wf: "wf_docs (docs (world s))"
    and d: "newest p (docs (world s)) = Some d"
    and a: "parse_content_type (config E) (d_type d) = Ret a" "at_time (g a) = Some t" "time_fits t"
  shows "\<exists>w ct. change_callback p ctor m s = (Ret 0, s\<lparr>world := w\<rparr>) \<and>
    docs w = update_docs (d_id d) (SetContentType ct) (docs (world s)) \<and>
    newest p (docs w) = Some (d\<lparr>d_type := ct\<rparr>) \<and> parse_content_type (config E) ct = Ret (g a) \<and>
    coherent E docs cached (s\<lparr>world := w\<rparr>)"
proof -
  obtain ct where ct: "content_type.rewritten (config E) g (d_type d) = Some ct"
    "parse_content_type (config E) ct = Ret (g a)"
    using content_type.decode_rewritten [where f = g, OF a(1,2,3)] by blast
  have pre: "content_type.rewritten (config E) g (d_type d) \<noteq> None" using ct by simp
  obtain w' where w': "change_callback p ctor m s = (Ret 0, s\<lparr>world := w'\<rparr>)"
    "docs w' = update_docs (d_id d) (SetContentType ct) (docs (world s))"
    "cached w' \<subseteq>\<^sub>m (cached (world s))(memcache_key p := None)"
    using change_present [OF assms(2-4) d changes_attrs_path [OF assms(1)] pre] ct(1) by auto
  have "newest p (docs w') = Some (d\<lparr>d_type := ct\<rparr>)"
    using newest_update_own [OF wf d] w'(2) by (simp add: apply_set_def)
  moreover have "only_path p (docs (world s)) (docs w')"
    using only_path_update [OF wf d] w'(2) by simp
  then have "coherent E docs cached (s\<lparr>world := w'\<rparr>)"
    using coherent_forgotten [OF co, of p "s\<lparr>world := w'\<rparr>"] w'(3) by simp
  ultimately show ?thesis using w'(1,2) ct(2) by blast
qed

lemma attrs_callback:
  assumes "changes_attrs m g" "builds ctor ob" "thePath ob = p" "theGridFile ob = None"
    and "coherent E docs cached s" and wf: "wf_docs (docs (world s))"
    and d: "newest p (docs (world s)) = Some d"
    and "parse_content_type (config E) (d_type d) = Ret a" "at_time (g a) = Some t" "time_fits t"
  shows "\<exists>s'. change_callback p ctor m s = (Ret 0, s') \<and> attrs_changed E docs p d g a s s' \<and>
    coherent E docs cached s'"
proof -
  obtain w ct where w: "change_callback p ctor m s = (Ret 0, s\<lparr>world := w\<rparr>)"
    "docs w = update_docs (d_id d) (SetContentType ct) (docs (world s))"
    "newest p (docs w) = Some (d\<lparr>d_type := ct\<rparr>)" "parse_content_type (config E) ct = Ret (g a)"
    "coherent E docs cached (s\<lparr>world := w\<rparr>)"
    using attrs_callback_docs [OF assms] by blast
  have "only_path p (docs (world s)) (docs w)" "length (docs w) = length (docs (world s))"
    using only_path_update [OF wf d] w(2) by (simp_all add: update_docs_def)
  with w show ?thesis by (auto simp: attrs_changed_def)
qed

end

end
