(* ===== verification/Path_Callbacks.thy ===== *)
theory Path_Callbacks
  imports Callbacks
begin

text \<open>
  The callbacks that work on a path: \<open>getattr\<close> with its cache, making and removing
  entries, symbolic links.
\<close>

context backend
begin

section \<open>getattr\<close>

lemma with_memcache_world:
  assumes "m (memcache_acquire s) = (Ret a, (memcache_acquire s)\<lparr>world := w\<rparr>)"
  shows "with_memcache m s = (Ret a, s\<lparr>world := w\<rparr>)"
proof -
  have "memcache_release ((memcache_acquire s)\<lparr>world := w\<rparr>) = s\<lparr>world := w\<rparr>"
    by (simp add: memcache_release_def memcache_acquire_def)
  with with_memcache_run [of m, OF assms] show ?thesis by simp
qed

lemma coherent_acquire [simp]: "coherent E docs cached (memcache_acquire s) = coherent E docs cached s"
  by (simp add: coherent_def memcache_acquire_def only_stats_def entries_of_def fun_eq_iff map_le_def dom_def)

lemma coherent_take [simp]: "coherent E docs cached (take_connection s) = coherent E docs cached s"
  by (simp add: coherent_def take_connection_def only_stats_def entries_of_def fun_eq_iff map_le_def dom_def)

lemma coherent_world:
  "coherent E docs cached (s\<lparr>world := w\<rparr>) = coherent E docs cached (t\<lparr>world := w\<rparr>)"
  by (simp add: coherent_def only_stats_def entries_of_def fun_eq_iff map_le_def dom_def)

lemma coherent_calm:
  "coherent E docs cached s \<Longrightarrow> calm docs cached (world s) w \<Longrightarrow> coherent E docs cached (s\<lparr>world := w\<rparr>)"
  by (rule coherent_evolves) (auto simp: calm_def intro: evolvesI)

lemma coherent_set:
  assumes "coherent E docs cached s" "truth (config E) (docs (world s)) p = Some st"
    and "docs (world s') = docs (world s)"
    and "cached (world s') \<subseteq>\<^sub>m (cached (world s))(memcache_key p \<mapsto> StatBytes st)"
  shows "coherent E docs cached s'"
proof -
  have "entries_of cached s' \<subseteq>\<^sub>m (entries_of cached s)(p \<mapsto> st)"
    using entries_of_update_le [OF assms(4)] by simp
  also have "\<dots> \<subseteq>\<^sub>m truth (config E) (docs (world s))"
    using assms(1,2) by (auto simp: coherent_def map_le_def)
  finally show ?thesis
    using assms(1,3) only_stats_update [OF assms(4)] by (simp add: coherent_def)
qed

text \<open>A miss: the document is looked up, and its attributes are cached.\<close>

lemma getattr_miss:
  fixes s :: "('w, 'x) process_scheme"
  assumes co: "coherent E docs cached s"
    and d: "newest p (docs (world s)) = Some d" "stat_of_doc (config E) d = Ret st"
  shows "\<exists>w. local_object (new_entry E p) drop_connection
      (bind (entry_exists E) (\<lambda>ex. if \<not> ex then ret (- ENOENT, None)
        else bind (entry_stat E) (\<lambda>st. bind (outside (memcache_set E p st)) (\<lambda>_. ret (0, Some st))))) s =
      (Ret (0, Some st), s\<lparr>world := w\<rparr>) \<and> docs w = docs (world s) \<and>
      coherent E docs cached (s\<lparr>world := w\<rparr>)"
proof -
  let ?body = "bind (entry_exists E) (\<lambda>ex. if \<not> ex then ret (- ENOENT, None)
        else bind (entry_stat E) (\<lambda>st. bind (outside (memcache_set E p st)) (\<lambda>_. ret (0, Some st))))"
  let ?R = "\<lambda>a w. a = (0, Some st) \<and> docs w = docs (world s) \<and> coherent E docs cached (s\<lparr>world := w\<rparr>)"
  let ?t = "take_connection s"
  let ?e = "\<lparr>thePath = p, theGridFile = None\<rparr>"
  have "\<exists>a w. local_object (new_entry E p) drop_connection ?body s = (Ret a, s\<lparr>world := w\<rparr>) \<and> ?R a w"
  proof (rule local_object_run [OF new_entry_builds])
    fix w assume w: "calm docs cached (world s) w"
    then have dw: "docs w = docs (world s)" by (simp add: calm_def)
    have "current (docs w) ?e" by (simp add: current_def)
    then obtain e1 w1 where 1: "entry_exists E (?e, ?t\<lparr>world := w\<rparr>) = (Ret True, (e1, ?t\<lparr>world := w1\<rparr>))"
      "current (docs w1) e1" "thePath e1 = p" "calm docs cached w w1"
      by (rule entry_exists_world [where t = ?t]) (use d(1) dw in simp)
    have c1: "calm docs cached (world s) w1" using calm_trans [OF w 1(4)] .
    then have d1: "docs w1 = docs (world s)" by (simp add: calm_def)
    obtain e2 s2 where 2: "entry_stat E (e1, ?t\<lparr>world := w1\<rparr>) = (Ret st, (e2, s2))"
      "evolves docs cached (?t\<lparr>world := w1\<rparr>) (docs w1) s2"
      using entry_stat_run [of "?t\<lparr>world := w1\<rparr>" e1 d] 1(2,3) d d1 by auto
    from 2(2) obtain w2 where w2: "s2 = ?t\<lparr>world := w2\<rparr>" "docs w2 = docs w1" "cached w2 \<subseteq>\<^sub>m cached w1"
      by (rule evolves_world)
    have c2: "coherent E docs cached (s\<lparr>world := w2\<rparr>)"
      using w2(2,3) calm_trans [OF c1, of w2] by (intro coherent_calm [OF co]) (simp add: calm_def)
    obtain s3 where 3: "memcache_set E p st (?t\<lparr>world := w2\<rparr>) = (Ret (), s3)"
      "docs (world s3) = docs w2" "cached (world s3) \<subseteq>\<^sub>m (cached w2)(memcache_key p \<mapsto> StatBytes st)"
      "s3 = (?t\<lparr>world := w2\<rparr>)\<lparr>world := world s3\<rparr>"
      using memcache_set_run [of p st "?t\<lparr>world := w2\<rparr>"] by auto
    have "truth (config E) (docs w2) p = Some st" using d w2(2) d1 by (simp add: truth_def)
    then have "coherent E docs cached (s\<lparr>world := world s3\<rparr>)"
      using 3(2,3) by (intro coherent_set [OF c2]) simp_all
    then have "?R (0, Some st) (world s3)" using 3(2) w2(2) d1 by simp
    moreover have "?body (?e, ?t\<lparr>world := w\<rparr>) = (Ret (0, Some st), (e2, ?t\<lparr>world := world s3\<rparr>))"
      using 1(1) 2(1) 3(1,4) w2(1) by (simp add: bind_run comp_simps)
    ultimately show "\<exists>a ob' w'. ?body (?e, ?t\<lparr>world := w\<rparr>) = (Ret a, ob', ?t\<lparr>world := w'\<rparr>) \<and> ?R a w'"
      by blast
  qed
  then show ?thesis by blast
qed

lemma getattr_miss_none:
  fixes s :: "('w, 'x) process_scheme"
  assumes d: "newest p (docs (world s)) = None"
  shows "\<exists>w. local_object (new_entry E p) drop_connection
      (bind (entry_exists E) (\<lambda>ex. if \<not> ex then ret (- ENOENT, None)
        else bind (entry_stat E) (\<lambda>st. bind (outside (memcache_set E p st)) (\<lambda>_. ret (0, Some st))))) s =
      (Ret (- ENOENT, None), s\<lparr>world := w\<rparr>) \<and> calm docs cached (world s) w"
proof -
  let ?body = "bind (entry_exists E) (\<lambda>ex. if \<not> ex then ret (- ENOENT, None)
        else bind (entry_stat E) (\<lambda>st. bind (outside (memcache_set E p st)) (\<lambda>_. ret (0, Some st))))"
  let ?e = "\<lparr>thePath = p, theGridFile = None\<rparr>" and ?t = "take_connection s"
  have "\<exists>a w. local_object (new_entry E p) drop_connection ?body s = (Ret a, s\<lparr>world := w\<rparr>) \<and>
      a = (- ENOENT, None) \<and> calm docs cached (world s) w"
  proof (rule local_object_run [OF new_entry_builds])
    fix w assume w: "calm docs cached (world s) w"
    then have dw: "docs w = docs (world s)" by (simp add: calm_def)
    have "current (docs w) ?e" by (simp add: current_def)
    then obtain e1 w1 where 1: "entry_exists E (?e, ?t\<lparr>world := w\<rparr>) = (Ret False, (e1, ?t\<lparr>world := w1\<rparr>))"
      "calm docs cached w w1"
      by (rule entry_exists_world [where t = ?t]) (use d dw in simp)
    then show "\<exists>a ob' w'. ?body (?e, ?t\<lparr>world := w\<rparr>) = (Ret a, ob', ?t\<lparr>world := w'\<rparr>) \<and>
        a = (- ENOENT, None) \<and> calm docs cached (world s) w'"
      using calm_trans [OF w 1(2)] by (auto simp: bind_run comp_simps)
  qed
  then show ?thesis by blast
qed

lemma getattr_run:
  fixes s :: "('w, 'x) fuse_state_scheme"
  assumes co: "coherent E docs cached s" and p: "p = configure_path (config E) q"
    and np: "\<not> is_proc (config E) p"
  shows "newest p (docs (world s)) = None \<Longrightarrow>
      \<exists>w. gridfs_getattr E q st0 s = (Ret (- ENOENT, None), s\<lparr>world := w\<rparr>) \<and>
        docs w = docs (world s) \<and> coherent E docs cached (s\<lparr>world := w\<rparr>)"
    and "newest p (docs (world s)) = Some d \<Longrightarrow> stat_of_doc (config E) d = Ret st \<Longrightarrow>
      \<exists>w. gridfs_getattr E q st0 s = (Ret (0, Some st), s\<lparr>world := w\<rparr>) \<and>
        docs w = docs (world s) \<and> coherent E docs cached (s\<lparr>world := w\<rparr>)"
proof -
  let ?t = "memcache_acquire s"
  let ?look = "local_object (new_entry E p) drop_connection
      (bind (entry_exists E) (\<lambda>ex. if \<not> ex then ret (- ENOENT, None)
        else bind (entry_stat E) (\<lambda>st. bind (outside (memcache_set E p st)) (\<lambda>_. ret (0, Some st)))))"
  let ?m = "bind (memcache_get E p) (\<lambda>hit. case hit of
      Some st \<Rightarrow> ret (0, Some st) | None \<Rightarrow> catch_with ?look (- EIO, None))"
  have shape: "gridfs_getattr E q st0 = with_memcache ?m"
    using np by (simp add: gridfs_getattr_def p [symmetric] Let_def)
  have ws: "world ?t = world s" by (simp add: memcache_acquire_def)
  have "only_stats cached ?t" using co by (simp add: coherent_def memcache_acquire_def only_stats_def)
  then obtain s1 where 1: "memcache_get E p ?t = (Ret (entries_of cached ?t p), s1)"
    "evolves docs cached ?t (docs (world ?t)) s1"
    using memcache_get_run by blast
  have "evolves docs cached (?t\<lparr>world := world s\<rparr>) (docs (world s)) s1"
    using 1(2) by (simp add: memcache_acquire_def)
  then obtain w1 where w1: "s1 = ?t\<lparr>world := w1\<rparr>" "docs w1 = docs (world s)" "cached w1 \<subseteq>\<^sub>m cached (world s)"
    by (rule evolves_world)
  have co1: "coherent E docs cached (?t\<lparr>world := w1\<rparr>)"
    using co w1 coherent_calm [of ?t w1] ws by (simp add: calm_def)
  have hit: "entries_of cached ?t p = None \<or> entries_of cached ?t p = truth (config E) (docs (world s)) p"
    using co ws by (auto simp: coherent_def entries_of_def map_le_def dom_def split: option.splits cached_value.splits)
  note co_s = coherent_world [where s = s and t = ?t]
  {
    assume none: "newest p (docs (world s)) = None"
    then have "entries_of cached ?t p = None" using hit by (auto simp: truth_def)
    moreover obtain w where w: "?look (?t\<lparr>world := w1\<rparr>) = (Ret (- ENOENT, None), (?t\<lparr>world := w1\<rparr>)\<lparr>world := w\<rparr>)"
      "calm docs cached w1 w"
      using getattr_miss_none [of p "?t\<lparr>world := w1\<rparr>"] none w1(2) by auto
    ultimately have "?m ?t = (Ret (- ENOENT, None), ?t\<lparr>world := w\<rparr>)"
      using 1(1) w1(1) by (simp add: bind_run catch_with_def)
    then have "gridfs_getattr E q st0 s = (Ret (- ENOENT, None), s\<lparr>world := w\<rparr>)"
      unfolding shape by (rule with_memcache_world)
    moreover have "coherent E docs cached (s\<lparr>world := w\<rparr>)"
      using coherent_calm [OF co1, of w] w(2) by (simp add: co_s)
    moreover have "docs w = docs (world s)" using w(2) w1(2) by (simp add: calm_def)
    ultimately show "\<exists>w. gridfs_getattr E q st0 s = (Ret (- ENOENT, None), s\<lparr>world := w\<rparr>) \<and>
        docs w = docs (world s) \<and> coherent E docs cached (s\<lparr>world := w\<rparr>)" by blast
  next
    assume some: "newest p (docs (world s)) = Some d" and st: "stat_of_doc (config E) d = Ret st"
    then have t: "truth (config E) (docs (world s)) p = Some st" by (simp add: truth_def)
    show "\<exists>w. gridfs_getattr E q st0 s = (Ret (0, Some st), s\<lparr>world := w\<rparr>) \<and>
        docs w = docs (world s) \<and> coherent E docs cached (s\<lparr>world := w\<rparr>)"
    proof (cases "entries_of cached ?t p")
      case None
      obtain w where w: "?look (?t\<lparr>world := w1\<rparr>) = (Ret (0, Some st), (?t\<lparr>world := w1\<rparr>)\<lparr>world := w\<rparr>)"
        "docs w = docs w1" "coherent E docs cached (?t\<lparr>world := w\<rparr>)"
        using getattr_miss [OF co1, of p d st] some st w1(2) by auto
      then have "?m ?t = (Ret (0, Some st), ?t\<lparr>world := w\<rparr>)"
        using 1(1) w1(1) None by (simp add: bind_run catch_with_def)
      then have "gridfs_getattr E q st0 s = (Ret (0, Some st), s\<lparr>world := w\<rparr>)"
        unfolding shape by (rule with_memcache_world)
      with w w1(2) show ?thesis by (auto simp: co_s)
    next
      case (Some st')
      then have "st' = st" using hit t by simp
      then have "?m ?t = (Ret (0, Some st), ?t\<lparr>world := w1\<rparr>)"
        using 1(1) w1(1) Some by (simp add: bind_run comp_simps)
      then have "gridfs_getattr E q st0 s = (Ret (0, Some st), s\<lparr>world := w1\<rparr>)"
        unfolding shape by (rule with_memcache_world)
      with co1 w1(2) show ?thesis by (auto simp: co_s)
    qed
  }
qed

section \<open>Making entries\<close>

lemma mkdir_run:
  fixes s :: "('w, 'x) fuse_state_scheme"
  assumes p: "p = configure_path (config E) q"
  shows "\<exists>d w. gridfs_mkdir E q mode s = (Ret 0, s\<lparr>world := w\<rparr>) \<and> docs w = docs (world s) @ [d] \<and>
    new_doc p (S_IFDIR OR mode) (default_uid (config E)) (default_gid (config E)) [] (docs (world s)) d \<and>
    cached w \<subseteq>\<^sub>m cached (world s)"
proof -
  let ?e = "\<lparr>thePath = p, theGridFile = None\<rparr>" and ?t = "take_connection s"
  let ?body = "bind (entry_create E (S_IFDIR OR mode) (default_uid (config E)) (default_gid (config E)) [])
    (\<lambda>_. ret (0::int))"
  let ?R = "\<lambda>a w. a = 0 \<and> (\<exists>d. docs w = docs (world s) @ [d] \<and> new_doc p (S_IFDIR OR mode)
    (default_uid (config E)) (default_gid (config E)) [] (docs (world s)) d) \<and> cached w \<subseteq>\<^sub>m cached (world s)"
  have "\<exists>a w. local_object (new_entry E p) drop_connection ?body s = (Ret a, s\<lparr>world := w\<rparr>) \<and> ?R a w"
  proof (rule local_object_run [OF new_entry_builds])
    fix w assume w: "calm docs cached (world s) w"
    obtain d w' where 1: "entry_create E (S_IFDIR OR mode) (default_uid (config E)) (default_gid (config E)) []
        (?e, ?t\<lparr>world := w\<rparr>) = (Ret (), (?e\<lparr>theGridFile := None\<rparr>, ?t\<lparr>world := w'\<rparr>))"
      "docs w' = docs w @ [d]" "new_doc (thePath ?e) (S_IFDIR OR mode) (default_uid (config E))
        (default_gid (config E)) [] (docs w) d" "cached w' \<subseteq>\<^sub>m cached w"
      by (rule entry_create_world)
    then have "?R 0 w'" using w by (auto simp: calm_def intro: map_le_trans)
    moreover have "?body (?e, ?t\<lparr>world := w\<rparr>) = (Ret 0, (?e\<lparr>theGridFile := None\<rparr>, ?t\<lparr>world := w'\<rparr>))"
      using 1(1) by (simp add: bind_run comp_simps)
    ultimately show "\<exists>a ob' w'. ?body (?e, ?t\<lparr>world := w\<rparr>) = (Ret a, ob', ?t\<lparr>world := w'\<rparr>) \<and> ?R a w'"
      by blast
  qed
  then obtain w where "local_object (new_entry E p) drop_connection ?body s = (Ret 0, s\<lparr>world := w\<rparr>)"
    and R: "?R 0 w" by blast
  then have "gridfs_mkdir E q mode s = (Ret 0, s\<lparr>world := w\<rparr>)"
    unfolding gridfs_mkdir_def p [symmetric] Let_def by (simp add: catch_with_def)
  with R show ?thesis by blast
qed

lemma symlink_run:
  fixes s :: "('w, 'x) fuse_state_scheme"
  assumes p: "p = configure_path (config E) q"
  shows "newest p (docs (world s)) \<noteq> None \<Longrightarrow>
      \<exists>w. gridfs_symlink E old q s = (Ret (- EEXIST), s\<lparr>world := w\<rparr>) \<and> calm docs cached (world s) w"
    and "newest p (docs (world s)) = None \<Longrightarrow>
      \<exists>d w. gridfs_symlink E old q s = (Ret 0, s\<lparr>world := w\<rparr>) \<and> docs w = docs (world s) @ [d] \<and>
        new_doc p (S_IFLNK OR 0x1FF) (default_uid (config E)) (default_gid (config E)) old (docs (world s)) d \<and>
        cached w \<subseteq>\<^sub>m cached (world s)"
proof -
  let ?e = "\<lparr>thePath = p, theGridFile = None\<rparr>" and ?t = "take_connection s"
  let ?make = "entry_create E (S_IFLNK OR 0x1FF) (default_uid (config E)) (default_gid (config E)) old"
  let ?body = "bind (entry_exists E) (\<lambda>ex. if ex then ret (- EEXIST) else bind ?make (\<lambda>_. ret 0))"
  let ?new = "\<lambda>w. \<exists>d. docs w = docs (world s) @ [d] \<and> new_doc p (S_IFLNK OR 0x1FF)
    (default_uid (config E)) (default_gid (config E)) old (docs (world s)) d"
  let ?R = "\<lambda>a w. if newest p (docs (world s)) = None then a = 0 \<and> ?new w \<and> cached w \<subseteq>\<^sub>m cached (world s)
    else a = - EEXIST \<and> calm docs cached (world s) w"
  have "\<exists>a w. local_object (new_entry E p) drop_connection ?body s = (Ret a, s\<lparr>world := w\<rparr>) \<and> ?R a w"
  proof (rule local_object_run [OF new_entry_builds])
    fix w assume w: "calm docs cached (world s) w"
    then have dw: "docs w = docs (world s)" by (simp add: calm_def)
    have "current (docs w) ?e" by (simp add: current_def)
    then obtain e1 w1 where 1: "entry_exists E (?e, ?t\<lparr>world := w\<rparr>) =
        (Ret (newest p (docs (world s)) \<noteq> None), (e1, ?t\<lparr>world := w1\<rparr>))"
      "thePath e1 = p" "calm docs cached w w1"
      by (rule entry_exists_world [where t = ?t]) (use dw in simp)
    have c1: "calm docs cached (world s) w1" using calm_trans [OF w 1(3)] .
    show "\<exists>a ob' w'. ?body (?e, ?t\<lparr>world := w\<rparr>) = (Ret a, ob', ?t\<lparr>world := w'\<rparr>) \<and> ?R a w'"
    proof (cases "newest p (docs (world s)) = None")
      case False
      with 1 c1 show ?thesis by (auto simp: bind_run comp_simps)
    next
      case True
      obtain d w2 where 2: "?make (e1, ?t\<lparr>world := w1\<rparr>) =
          (Ret (), (e1\<lparr>theGridFile := None\<rparr>, ?t\<lparr>world := w2\<rparr>))"
        "docs w2 = docs w1 @ [d]" "new_doc (thePath e1) (S_IFLNK OR 0x1FF) (default_uid (config E))
          (default_gid (config E)) old (docs w1) d" "cached w2 \<subseteq>\<^sub>m cached w1"
        by (rule entry_create_world)
      then have "?new w2 \<and> cached w2 \<subseteq>\<^sub>m cached (world s)"
        using c1 1(2) by (auto simp: calm_def intro: map_le_trans)
      with 1(1) 2(1) True show ?thesis by (auto simp: bind_run comp_simps)
    qed
  qed
  then obtain a w where "gridfs_symlink E old q s = (Ret a, s\<lparr>world := w\<rparr>)" "?R a w"
    unfolding gridfs_symlink_def p [symmetric] Let_def by (auto simp: catch_with_def)
  then show "newest p (docs (world s)) \<noteq> None \<Longrightarrow>
      \<exists>w. gridfs_symlink E old q s = (Ret (- EEXIST), s\<lparr>world := w\<rparr>) \<and> calm docs cached (world s) w"
    and "newest p (docs (world s)) = None \<Longrightarrow>
      \<exists>d w. gridfs_symlink E old q s = (Ret 0, s\<lparr>world := w\<rparr>) \<and> docs w = docs (world s) @ [d] \<and>
        new_doc p (S_IFLNK OR 0x1FF) (default_uid (config E)) (default_gid (config E)) old (docs (world s)) d \<and>
        cached w \<subseteq>\<^sub>m cached (world s)"
    by auto
qed

section \<open>Removing entries\<close>

lemma remove_changes: "changes p (\<lambda>_. True) (\<lambda>d ds. filter (\<lambda>d. d_name d \<noteq> p) ds) (entry_remove E)"
  unfolding changes_def using entry_remove_run by blast

lemma truncate_changes:
  "changes p (\<lambda>_. True) (\<lambda>d ds. update_docs (d_id d) (SetLength 0) ds) (file_truncate E)"
  unfolding changes_def using file_truncate_run by blast

lemma coherent_change:
  assumes "coherent E docs cached s" "docs w = ds" "only_path p (docs (world s)) ds"
    and "cached w \<subseteq>\<^sub>m (cached (world s))(memcache_key p := None)"
  shows "coherent E docs cached (s\<lparr>world := w\<rparr>)"
  using coherent_forgotten [OF assms(1), of p "s\<lparr>world := w\<rparr>"] assms(2-4) by simp

lemma unlink_run:
  fixes s :: "('w, 'x) fuse_state_scheme"
  assumes p: "p = configure_path (config E) q" and co: "coherent E docs cached s"
  shows "\<exists>w. gridfs_unlink E q s =
      (Ret (if newest p (docs (world s)) = None then - ENOENT else 0), s\<lparr>world := w\<rparr>) \<and>
     docs w = filter (\<lambda>d. d_name d \<noteq> p) (docs (world s)) \<and> coherent E docs cached (s\<lparr>world := w\<rparr>)"
proof (cases "newest p (docs (world s))")
  case None
  obtain w where "gridfs_unlink E q s = (Ret (- ENOENT), s\<lparr>world := w\<rparr>)" "calm docs cached (world s) w"
    using change_missing [OF new_entry_builds [of p] _ _ None, of "entry_remove E"]
    unfolding change_callbacks p [symmetric] by auto
  moreover have "filter (\<lambda>d. d_name d \<noteq> p) (docs (world s)) = docs (world s)"
    using None by (simp add: newest_None_iff)
  moreover have "docs w = docs (world s)" using calculation(2) by (simp add: calm_def)
  ultimately show ?thesis using None coherent_calm [OF co] by auto
next
  case (Some d)
  obtain w where "gridfs_unlink E q s = (Ret 0, s\<lparr>world := w\<rparr>)"
    "docs w = filter (\<lambda>d. d_name d \<noteq> p) (docs (world s))"
    "cached w \<subseteq>\<^sub>m (cached (world s))(memcache_key p := None)"
    using change_present [OF new_entry_builds [of p] _ _ Some remove_changes]
    unfolding change_callbacks p [symmetric] by auto
  with coherent_change [OF co this(2) only_path_filter this(3)] Some show ?thesis by auto
qed

text \<open>\<open>rmdir\<close> removes a directory without entries only.\<close>

lemma rmdir_pattern_run:
  fixes s :: "('w, 'x) fuse_state_scheme"
  assumes p: "p = configure_path (config E) q" and co: "coherent E docs cached s"
    and pat: "parse_pcre (list_regex p) = Some pat"
  shows "\<exists>w. gridfs_rmdir E q s =
      (Ret (if newest p (docs (world s)) = None then - ENOENT
            else if matched pat (docs (world s)) then - ENOTEMPTY else 0), s\<lparr>world := w\<rparr>) \<and>
     docs w = (if newest p (docs (world s)) = None \<or> matched pat (docs (world s))
       then docs (world s) else filter (\<lambda>d. d_name d \<noteq> p) (docs (world s))) \<and>
     coherent E docs cached (s\<lparr>world := w\<rparr>)"
proof -
  let ?e = "\<lparr>thePath = p, theGridFile = None\<rparr>" and ?t = "take_connection s"
  let ?tail = "bind (entry_remove E) (\<lambda>_. bind (outside (forget_path E p)) (\<lambda>_. ret 0))"
  let ?body = "bind (entry_exists E) (\<lambda>ex. if \<not> ex then ret (- ENOENT)
    else bind (directory_isEmpty E) (\<lambda>empty. if \<not> empty then ret (- ENOTEMPTY) else ?tail))"
  let ?none = "newest p (docs (world s)) = None" and ?full = "matched pat (docs (world s))"
  let ?n = "if ?none then - ENOENT else if ?full then - ENOTEMPTY else 0"
  let ?ds = "if ?none \<or> ?full then docs (world s) else filter (\<lambda>d. d_name d \<noteq> p) (docs (world s))"
  let ?R = "\<lambda>a w. a = ?n \<and> docs w = ?ds \<and> coherent E docs cached (s\<lparr>world := w\<rparr>)"
  have "\<exists>a w. local_object (new_entry E p) drop_connection ?body s = (Ret a, s\<lparr>world := w\<rparr>) \<and> ?R a w"
  proof (rule local_object_run [OF new_entry_builds])
    fix w assume w: "calm docs cached (world s) w"
    then have dw: "docs w = docs (world s)" by (simp add: calm_def)
    have "current (docs w) ?e" by (simp add: current_def)
    then obtain e1 w1 where 1: "entry_exists E (?e, ?t\<lparr>world := w\<rparr>) =
        (Ret (\<not> ?none), (e1, ?t\<lparr>world := w1\<rparr>))" "current (docs w1) e1" "thePath e1 = p"
      "calm docs cached w w1"
      by (rule entry_exists_world [where t = ?t]) (use dw in simp)
    have c1: "calm docs cached (world s) w1" using calm_trans [OF w 1(4)] .
    then have d1: "docs w1 = docs (world s)" by (simp add: calm_def)
    have pat1: "parse_pcre (list_regex (thePath e1)) = Some pat" using pat 1(3) by simp
    obtain s2 where 2: "directory_isEmpty E (e1, ?t\<lparr>world := w1\<rparr>) = (Ret (\<not> ?full), (e1, s2))"
      "evolves docs cached (?t\<lparr>world := w1\<rparr>) (docs w1) s2"
      using directory_isEmpty_run [OF pat1, of "?t\<lparr>world := w1\<rparr>"] 1(3) d1 by auto
    from 2(2) obtain w2 where w2: "s2 = ?t\<lparr>world := w2\<rparr>" "docs w2 = docs w1" "cached w2 \<subseteq>\<^sub>m cached w1"
      by (rule evolves_world)
    have c2: "calm docs cached (world s) w2" using calm_trans [OF c1] w2 by (simp add: calm_def)
    show "\<exists>a ob' w'. ?body (?e, ?t\<lparr>world := w\<rparr>) = (Ret a, ob', ?t\<lparr>world := w'\<rparr>) \<and> ?R a w'"
    proof (cases "?none \<or> ?full")
      case stop: True
      show ?thesis
      proof (cases "?none")
        case True
        then show ?thesis using 1(1) coherent_calm [OF co c1] d1 by (simp add: bind_run comp_simps) blast
      next
        case False
        with stop have full: "?full" by blast
        have "?R (- ENOTEMPTY) w2" using False full coherent_calm [OF co c2] d1 w2(2) by auto
        moreover have "?body (?e, ?t\<lparr>world := w\<rparr>) = (Ret (- ENOTEMPTY), (e1, ?t\<lparr>world := w2\<rparr>))"
          using False full 1(1) 2(1) w2(1) by (simp add: bind_run comp_simps)
        ultimately show ?thesis by blast
      qed
    next
      case False
      obtain s3 where 3: "entry_remove E (e1, ?t\<lparr>world := w2\<rparr>) = (Ret (), (e1, s3))"
        "evolves docs cached (?t\<lparr>world := w2\<rparr>) (filter (\<lambda>d. d_name d \<noteq> p) (docs w2)) s3"
        using entry_remove_run [of e1 "?t\<lparr>world := w2\<rparr>"] 1(3) by auto
      from 3(2) obtain w3 where w3: "s3 = ?t\<lparr>world := w3\<rparr>"
        "docs w3 = filter (\<lambda>d. d_name d \<noteq> p) (docs w2)" "cached w3 \<subseteq>\<^sub>m cached w2"
        by (rule evolves_world)
      obtain w4 where 4: "forget_path E p (?t\<lparr>world := w3\<rparr>) = (Ret (), ?t\<lparr>world := w4\<rparr>)"
        "docs w4 = docs w3" "cached w4 \<subseteq>\<^sub>m (cached w3)(memcache_key p := None)"
        using forget_path_run [of p "?t\<lparr>world := w3\<rparr>"] by auto
      have "cached w3 \<subseteq>\<^sub>m cached (world s)"
        using map_le_trans [OF w3(3)] c2 by (auto simp: calm_def)
      then have "(cached w3)(memcache_key p := None) \<subseteq>\<^sub>m (cached (world s))(memcache_key p := None)"
        by (auto simp: map_le_def)
      then have "cached w4 \<subseteq>\<^sub>m (cached (world s))(memcache_key p := None)"
        using map_le_trans [OF 4(3)] by blast
      moreover have "docs w4 = filter (\<lambda>d. d_name d \<noteq> p) (docs (world s))"
        using 4(2) w3(2) w2(2) d1 by simp
      ultimately have "?R 0 w4"
        using False coherent_change [OF co _ only_path_filter] by auto
      with False 1(1) 2(1) 3(1) 4(1) w2(1) w3(1) show ?thesis
        by (intro exI [of _ 0] exI [of _ e1] exI [of _ w4]) (simp add: bind_run comp_simps)
    qed
  qed
  then obtain w where "local_object (new_entry E p) drop_connection ?body s = (Ret ?n, s\<lparr>world := w\<rparr>)"
    and R: "?R ?n w" by blast
  then have "gridfs_rmdir E q s = (Ret ?n, s\<lparr>world := w\<rparr>)"
    unfolding gridfs_rmdir_def p [symmetric] Let_def by (simp only: catch_with_Ret)
  with R show ?thesis by blast
qed

lemma rmdir_run:
  fixes s :: "('w, 'x) fuse_state_scheme"
  assumes p: "p = configure_path (config E) q" and co: "coherent E docs cached s"
    and brace: "CHR ''{'' \<notin> set p"
  shows "\<exists>w. gridfs_rmdir E q s =
      (Ret (if newest p (docs (world s)) = None then - ENOENT
            else if children p (docs (world s)) \<noteq> {} then - ENOTEMPTY else 0), s\<lparr>world := w\<rparr>) \<and>
     docs w = (if newest p (docs (world s)) = None \<or> children p (docs (world s)) \<noteq> {}
       then docs (world s) else filter (\<lambda>d. d_name d \<noteq> p) (docs (world s))) \<and>
     coherent E docs cached (s\<lparr>world := w\<rparr>)"
  using rmdir_pattern_run [OF p co parse_list_regex [OF brace]] unfolding matched_children .

section \<open>Reading a link, cutting a file\<close>

lemma readlink_run:
  fixes s :: "('w, 'x) fuse_state_scheme"
  assumes p: "p = configure_path (config E) q" and d: "newest p (docs (world s)) = Some d"
    and len: "d_length d = int (length (d_data d))" "d_length d < 2 ^ 64"
    and sz: "0 < sz" "sz < 2 ^ 64"
  shows "\<exists>w. gridfs_readlink E q sz s =
      (Ret (0, Some (take (nat (sz - 1)) (d_data d) @ [CHR 0x00])), s\<lparr>world := w\<rparr>) \<and>
     calm docs cached (world s) w"
proof -
  let ?e = "\<lparr>thePath = p, theGridFile = None\<rparr>" and ?t = "take_connection s"
  let ?body = "bind (entry_exists E) (\<lambda>ex. if \<not> ex then ret (- ENOENT, None)
    else bind (symlink_read E sz) (\<lambda>link. ret (0, Some link)))"
  let ?a = "(0, Some (take (nat (sz - 1)) (d_data d) @ [CHR 0x00]))"
  have "\<exists>a w. local_object (new_entry E p) drop_connection ?body s = (Ret a, s\<lparr>world := w\<rparr>) \<and>
      a = ?a \<and> calm docs cached (world s) w"
  proof (rule local_object_run [OF new_entry_builds])
    fix w assume w: "calm docs cached (world s) w"
    then have dw: "docs w = docs (world s)" by (simp add: calm_def)
    have "current (docs w) ?e" by (simp add: current_def)
    then obtain e1 w1 where 1: "entry_exists E (?e, ?t\<lparr>world := w\<rparr>) =
        (Ret True, (e1, ?t\<lparr>world := w1\<rparr>))" "current (docs w1) e1" "thePath e1 = p"
      "calm docs cached w w1"
      by (rule entry_exists_world [where t = ?t]) (use d dw in simp)
    have c1: "calm docs cached (world s) w1" using calm_trans [OF w 1(4)] .
    then have d1: "docs w1 = docs (world s)" by (simp add: calm_def)
    obtain e2 s2 where 2: "symlink_read E sz (e1, ?t\<lparr>world := w1\<rparr>) =
        (Ret (take (nat (sz - 1)) (d_data d) @ [CHR 0x00]), (e2, s2))"
      "evolves docs cached (?t\<lparr>world := w1\<rparr>) (docs w1) s2"
      using symlink_read_run [of "?t\<lparr>world := w1\<rparr>" e1 d sz] 1(2,3) d d1 len sz by auto
    from 2(2) obtain w2 where w2: "s2 = ?t\<lparr>world := w2\<rparr>" "docs w2 = docs w1" "cached w2 \<subseteq>\<^sub>m cached w1"
      by (rule evolves_world)
    have "calm docs cached (world s) w2" using calm_trans [OF c1] w2 by (simp add: calm_def)
    moreover have "?body (?e, ?t\<lparr>world := w\<rparr>) = (Ret ?a, (e2, ?t\<lparr>world := w2\<rparr>))"
      using 1(1) 2(1) w2(1) by (simp add: bind_run comp_simps)
    ultimately show "\<exists>a ob' w'. ?body (?e, ?t\<lparr>world := w\<rparr>) = (Ret a, ob', ?t\<lparr>world := w'\<rparr>) \<and>
        a = ?a \<and> calm docs cached (world s) w'"
      by blast
  qed
  then obtain w where "local_object (new_entry E p) drop_connection ?body s = (Ret ?a, s\<lparr>world := w\<rparr>)"
    and c: "calm docs cached (world s) w" by blast
  then have "gridfs_readlink E q sz s = (Ret ?a, s\<lparr>world := w\<rparr>)"
    unfolding gridfs_readlink_def p [symmetric] Let_def by (simp only: catch_with_Ret)
  with c show ?thesis by blast
qed

lemma truncate_refused_run:
  fixes s :: "('w, 'x) fuse_state_scheme"
  assumes p: "p = configure_path (config E) q" and r: "off \<noteq> 0 \<or> newest p (docs (world s)) = None"
  shows "\<exists>w. gridfs_truncate E q off s =
      (Ret (if newest p (docs (world s)) = None then - ENOENT else - EIO), s\<lparr>world := w\<rparr>) \<and>
     calm docs cached (world s) w"
proof -
  let ?none = "newest p (docs (world s)) = None" and ?t = "take_connection s"
  let ?f = "file_of_entry \<lparr>thePath = p, theGridFile = None\<rparr>"
  let ?body = "bind (entry_exists E) (\<lambda>ex. if \<not> ex then ret (- ENOENT)
    else if off = 0 then bind (file_truncate E) (\<lambda>_. bind (outside (forget_path E p)) (\<lambda>_. ret 0))
    else ret (- EIO))"
  let ?R = "\<lambda>a w. a = (if ?none then - ENOENT else - EIO) \<and> calm docs cached (world s) w"
  have "\<exists>a w. local_object (new_file E p) drop_connection ?body s = (Ret a, s\<lparr>world := w\<rparr>) \<and> ?R a w"
  proof (rule local_object_run [OF new_file_builds])
    fix w assume w: "calm docs cached (world s) w"
    then have dw: "docs w = docs (world s)" by (simp add: calm_def)
    have "current (docs w) ?f" "thePath ?f = p" by (simp_all add: current_def file_of_entry_def)
    then obtain e1 w1 where 1: "entry_exists E (?f, ?t\<lparr>world := w\<rparr>) =
        (Ret (\<not> ?none), (e1, ?t\<lparr>world := w1\<rparr>))" "calm docs cached w w1"
      using entry_exists_world [of w ?f ?t] dw by metis
    have "?body (?f, ?t\<lparr>world := w\<rparr>) =
        (Ret (if ?none then - ENOENT else - EIO), (e1, ?t\<lparr>world := w1\<rparr>))"
      using 1(1) r by (auto simp: bind_run comp_simps)
    then show "\<exists>a ob' w'. ?body (?f, ?t\<lparr>world := w\<rparr>) = (Ret a, ob', ?t\<lparr>world := w'\<rparr>) \<and> ?R a w'"
      using calm_trans [OF w 1(2)] by blast
  qed
  then obtain w where "local_object (new_file E p) drop_connection ?body s =
      (Ret (if ?none then - ENOENT else - EIO), s\<lparr>world := w\<rparr>)" and c: "calm docs cached (world s) w"
    by blast
  then have "gridfs_truncate E q off s = (Ret (if ?none then - ENOENT else - EIO), s\<lparr>world := w\<rparr>)"
    unfolding gridfs_truncate_def p [symmetric] Let_def by (simp only: catch_with_Ret)
  with c show ?thesis by blast
qed

lemma truncate_run:
  fixes s :: "('w, 'x) fuse_state_scheme"
  assumes p: "p = configure_path (config E) q" and co: "coherent E docs cached s"
    and wf: "wf_docs (docs (world s))" and d: "newest p (docs (world s)) = Some d"
  shows "\<exists>w. gridfs_truncate E q 0 s = (Ret 0, s\<lparr>world := w\<rparr>) \<and>
     newest p (docs w) = Some (d\<lparr>d_length := 0\<rparr>) \<and> only_path p (docs (world s)) (docs w) \<and>
     wf_docs (docs w) \<and> coherent E docs cached (s\<lparr>world := w\<rparr>)"
proof -
  obtain w where w: "gridfs_truncate E q 0 s = (Ret 0, s\<lparr>world := w\<rparr>)"
    "docs w = update_docs (d_id d) (SetLength 0) (docs (world s))"
    "cached w \<subseteq>\<^sub>m (cached (world s))(memcache_key p := None)"
    using change_present [OF new_file_builds [of p] _ _ d truncate_changes]
    unfolding change_callbacks p [symmetric] by (auto simp: file_of_entry_def)
  have "newest p (docs w) = Some (d\<lparr>d_length := 0\<rparr>)"
    using newest_update_own [OF wf d] w(2) by (simp add: apply_set_def)
  moreover have only: "only_path p (docs (world s)) (docs w)"
    using only_path_update [OF wf d] w(2) by simp
  moreover have "wf_docs (docs w)" using wf_docs_update [OF wf] w(2) by simp
  moreover have "coherent E docs cached (s\<lparr>world := w\<rparr>)"
    using coherent_change [OF co refl only w(3)] .
  ultimately show ?thesis using w(1) by blast
qed

end

lemma local_object_result:
  assumes "local_object ctor d body s = (Ret a, s')"
  shows "\<exists>x y. body x = (Ret a, y)"
  using assms by (auto simp: local_object_def lifetime_def bind_def split: prod.splits outcome.splits)

text \<open>Truncating to any other length is refused, whatever the servers do.\<close>

lemma truncate_other:
  assumes "off \<noteq> 0"
  shows "fst (gridfs_truncate E q off s) \<noteq> Ret 0"
proof
  let ?p = "configure_path (config E) q"
  let ?body = "bind (entry_exists E) (\<lambda>ex. if \<not> ex then ret (- ENOENT) else ret (- EIO))"
  assume "fst (gridfs_truncate E q off s) = Ret 0"
  then obtain s' where run: "gridfs_truncate E q off s = (Ret 0, s')" by (metis prod.collapse)
  have "gridfs_truncate E q off s =
      catch_with (local_object (new_file E ?p) drop_connection ?body) (- EIO) s"
    using assms by (simp add: gridfs_truncate_def Let_def)
  then have "catch_with (local_object (new_file E ?p) drop_connection ?body) (- EIO) s = (Ret 0, s')"
    using run by simp
  from catch_with_result [of "local_object (new_file E ?p) drop_connection ?body", OF this]
  have "local_object (new_file E ?p) drop_connection ?body s = (Ret 0, s')"
    by (simp add: EIO_def)
  from local_object_result [OF this] show False
    by (auto simp: ret_def ENOENT_def EIO_def split: if_splits dest!: bind_result)
qed

end
