(* ===== verification/Fuse_Main.thy ===== *)
theory Fuse_Main
  imports Path_Callbacks
begin

text \<open>
  The class \<open>Fuse\<close> of src/gridfs_fuse.cpp with \<open>main\<close> of bin/main.cpp: the defaults of the
  configuration, the options, the level of the log, the checks of \<open>init\<close>, the root
  directory, and the authentication hook of src/auth_hook.cpp. \<open>fuse_opt_parse\<close> and
  \<open>fuse_main\<close> belong to libfuse and are parameters.
\<close>

section \<open>Log levels\<close>

datatype syslog_level =
  LOG_EMERG | LOG_ALERT | LOG_CRIT | LOG_ERR | LOG_WARNING | LOG_NOTICE | LOG_INFO | LOG_DEBUG

fun priority :: "syslog_level \<Rightarrow> nat" where
  "priority LOG_EMERG = 0"
| "priority LOG_ALERT = 1"
| "priority LOG_CRIT = 2"
| "priority LOG_ERR = 3"
| "priority LOG_WARNING = 4"
| "priority LOG_NOTICE = 5"
| "priority LOG_INFO = 6"
| "priority LOG_DEBUG = 7"

lemma priority_inj: "priority a = priority b \<Longrightarrow> a = b"
  by (cases a; cases b) simp_all

instantiation syslog_level :: linorder
begin

definition less_eq_syslog_level :: "syslog_level \<Rightarrow> syslog_level \<Rightarrow> bool" where
  "less_eq_syslog_level a b \<longleftrightarrow> priority a \<le> priority b"

definition less_syslog_level :: "syslog_level \<Rightarrow> syslog_level \<Rightarrow> bool" where
  "less_syslog_level a b \<longleftrightarrow> priority a < priority b"

instance
  by standard (auto simp: less_eq_syslog_level_def less_syslog_level_def intro: priority_inj)

end

text \<open>\<open>LOG_UPTO\<close> and the test that \<open>syslog\<close> makes of the mask.\<close>

definition LOG_UPTO :: "syslog_level \<Rightarrow> u32" where
  "LOG_UPTO l = push_bit (priority l + 1) 1 - 1"

definition logged :: "u32 \<Rightarrow> syslog_level \<Rightarrow> bool" where
  "logged m l \<longleftrightarrow> bit m (priority l)"

definition level_of :: "string \<Rightarrow> syslog_level" where
  "level_of lvl =
     (if lvl = ''EMERG'' then LOG_EMERG
      else if lvl = ''ALERT'' then LOG_ALERT
      else if lvl = ''CRIT'' then LOG_CRIT
      else if lvl = ''ERR'' then LOG_ERR
      else if lvl = ''WARNING'' then LOG_WARNING
      else if lvl = ''NOTICE'' then LOG_NOTICE
      else if lvl = ''INFO'' then LOG_INFO
      else if lvl = ''DEBUG'' then LOG_DEBUG
      else LOG_ERR)"

text \<open>The mask that \<open>initSyslog\<close> sets.\<close>

definition initSyslog :: "gridfs_config \<Rightarrow> u32" where
  "initSyslog c = LOG_UPTO (level_of (case log_level c of Some l \<Rightarrow> l | None \<Rightarrow> ''ERR''))"

lemma logged_upto: "logged (LOG_UPTO m) l \<longleftrightarrow> l \<le> m"
  by (cases m; cases l) (simp_all add: logged_def LOG_UPTO_def less_eq_syslog_level_def)

section \<open>Options\<close>

datatype option_field =
    MongoConnString | MongoUser | MongoPassword | MongoDb | MongoCollectionPrefix | PathPrefix
  | LogLevel | DefaultUid | DefaultGid

datatype key = KEY_HELP | KEY_VERSION

text \<open>The table \<open>Fuse::opts\<close>: templates of options with a value, and switches with a key.\<close>

definition opts :: "(string \<times> option_field) list" where
  "opts = [(''mongo_conn_string=%s'', MongoConnString), (''mongo_user=%s'', MongoUser),
     (''mongo_password=%s'', MongoPassword), (''mongo_db=%s'', MongoDb),
     (''mongo_collection_prefix=%s'', MongoCollectionPrefix), (''path_prefix=%s'', PathPrefix),
     (''log_level=%s'', LogLevel), (''default_uid=%u'', DefaultUid), (''default_gid=%u'', DefaultGid)]"

definition opt_keys :: "(string \<times> key) list" where
  "opt_keys = [(''-V'', KEY_VERSION), (''-v'', KEY_VERSION), (''--version'', KEY_VERSION),
     (''-h'', KEY_HELP), (''-H'', KEY_HELP), (''--help'', KEY_HELP)]"

text \<open>
  What \<open>fuse_opt_parse\<close> meets in the arguments, in order: an option with the template that it
  matches and the text or number behind it, a switch, or anything else, which stays an argument. Which
  field a template sets and which key a switch has is looked up in the table.
\<close>

datatype opt_event = Text string string | Number string u32 | Switch string | Other string

definition set_text :: "option_field \<Rightarrow> string \<Rightarrow> gridfs_config \<Rightarrow> gridfs_config" where
  "set_text f v c = (case f of
     MongoConnString \<Rightarrow> c\<lparr>mongo_conn_string := v\<rparr>
   | MongoUser \<Rightarrow> c\<lparr>mongo_user := v\<rparr>
   | MongoPassword \<Rightarrow> c\<lparr>mongo_password := v\<rparr>
   | MongoDb \<Rightarrow> c\<lparr>mongo_db := v\<rparr>
   | MongoCollectionPrefix \<Rightarrow> c\<lparr>mongo_collection_prefix := v\<rparr>
   | PathPrefix \<Rightarrow> c\<lparr>path_prefix := v\<rparr>
   | LogLevel \<Rightarrow> c\<lparr>log_level := Some v\<rparr>
   | _ \<Rightarrow> c)"

definition set_number :: "option_field \<Rightarrow> u32 \<Rightarrow> gridfs_config \<Rightarrow> gridfs_config" where
  "set_number f v c = (case f of
     DefaultUid \<Rightarrow> c\<lparr>default_uid := v\<rparr> | DefaultGid \<Rightarrow> c\<lparr>default_gid := v\<rparr> | _ \<Rightarrow> c)"

text \<open>An option sets the field of the entry of the table whose template it matches.\<close>

definition set_option ::
  "(option_field \<Rightarrow> 'v \<Rightarrow> gridfs_config \<Rightarrow> gridfs_config) \<Rightarrow> string \<Rightarrow> 'v \<Rightarrow> gridfs_config \<Rightarrow> gridfs_config"
where
  "set_option setter t v c = (case map_of opts t of Some f \<Rightarrow> setter f v c | None \<Rightarrow> c)"

section \<open>Initialisation\<close>

text \<open>The authentication hook: src/auth_hook.h, with its constructor.\<close>

record auth_hook =
  theUsername :: string
  thePassword :: string
  theDBName :: string

definition new_auth_hook :: "string \<Rightarrow> string \<Rightarrow> string \<Rightarrow> auth_hook" where
  "new_auth_hook db user password = \<lparr>theUsername = user, thePassword = password, theDBName = db\<rparr>"

text \<open>The calls that acquire and release what the process holds until its end, in their order.\<close>

datatype resource_call =
    Openlog | Memcached_create | Memcached_pool_create nat nat | Pool_behavior_ketama
  | Memcached_pool_destroy | Memcached_free | Fuse_opt_free_args | Closelog

text \<open>
  The global object \<open>FUSE\<close>, and what \<open>init\<close> sets up: the configuration, the arguments for
  \<open>fuse_main\<close>, the mask of the log, whether the two pointers to libmemcached are set, and the
  authentication hook. \<open>fuse_runs\<close> collects the arguments of the calls of \<open>fuse_main\<close> before an exit.
\<close>

record startup =
  st_config :: gridfs_config
  st_args :: "string list"
  st_logmask :: u32
  theMemcachePool :: bool
  theMaster :: bool
  st_hook :: "auth_hook option"
  fuse_runs :: "string list list"
  st_calls :: "resource_call list"

definition resource :: "resource_call \<Rightarrow> startup \<Rightarrow> startup" where
  "resource c st = st\<lparr>st_calls := st_calls st @ [c]\<rparr>"

definition MONGO_DEFAULT_CHUNK_SIZE :: int where "MONGO_DEFAULT_CHUNK_SIZE = 256 * 1024"

definition default_config :: "u32 \<Rightarrow> u32 \<Rightarrow> gridfs_config" where
  "default_config uid gid = \<lparr>mongo_conn_string = ''localhost:27017'', mongo_user = '''',
     mongo_password = '''', mongo_db = '''', mongo_collection_prefix = ''fs'', path_prefix = '''',
     log_level = Some ''ERROR'', log_file = ''console'', default_uid = uid, default_gid = gid,
     mongo_chunk_size = MONGO_DEFAULT_CHUNK_SIZE\<rparr>"

definition opt_proc :: "key \<Rightarrow> (startup, unit) comp" where
  "opt_proc k = (case k of
     KEY_HELP \<Rightarrow>
       bind (modify (\<lambda>st. st\<lparr>st_args := st_args st @ [''-ho'']\<rparr>)) (\<lambda>_.
       bind (modify (\<lambda>st. st\<lparr>fuse_runs := fuse_runs st @ [st_args st]\<rparr>)) (\<lambda>_.
       exit_process 1))
   | KEY_VERSION \<Rightarrow>
       bind (modify (\<lambda>st. st\<lparr>st_args := st_args st @ [''--version'']\<rparr>)) (\<lambda>_.
       bind (modify (\<lambda>st. st\<lparr>fuse_runs := fuse_runs st @ [st_args st]\<rparr>)) (\<lambda>_.
       exit_process 0)))"

fun parse_options :: "opt_event list \<Rightarrow> (startup, unit) comp" where
  "parse_options [] = ret ()"
| "parse_options (e # es) = bind (case e of
       Text t v \<Rightarrow> modify (\<lambda>st. st\<lparr>st_config := set_option set_text t v (st_config st)\<rparr>)
     | Number t v \<Rightarrow> modify (\<lambda>st. st\<lparr>st_config := set_option set_number t v (st_config st)\<rparr>)
     | Switch t \<Rightarrow> (case map_of opt_keys t of Some k \<Rightarrow> opt_proc k | None \<Rightarrow> ret ())
     | Other a \<Rightarrow> modify (\<lambda>st. st\<lparr>st_args := st_args st @ [a]\<rparr>)) (\<lambda>_. parse_options es)"

definition add_args :: "string list \<Rightarrow> (startup, unit) comp" where
  "add_args as = modify (\<lambda>st. st\<lparr>st_args := st_args st @ as\<rparr>)"

definition fuse_init :: "u32 \<Rightarrow> u32 \<Rightarrow> opt_event list \<Rightarrow> (startup, unit) comp" where
  "fuse_init uid gid events =
     bind (modify (\<lambda>st. st\<lparr>st_config := default_config uid gid, st_args := []\<rparr>)) (\<lambda>_.
     bind (parse_options events) (\<lambda>_.
     bind (modify (\<lambda>st. resource Openlog (st\<lparr>st_logmask := initSyslog (st_config st)\<rparr>))) (\<lambda>_.
     bind get_state (\<lambda>st.
       if mongo_chunk_size (st_config st) \<ge> 200 * 1024 * 1024 then exit_process 1
       else
         let chunk_size = dec_int (mongo_chunk_size (st_config st)) in
         bind (add_args [''-o'', ''max_read='' @ chunk_size]) (\<lambda>_.
         bind (add_args [''-o'', ''max_write='' @ chunk_size]) (\<lambda>_.
         bind (add_args [''-o'', ''big_writes'']) (\<lambda>_.
           if mongo_db (st_config st) = '''' then exit_process 1
           else
             bind (modify (\<lambda>st. (resource Memcached_create st)\<lparr>theMaster := True\<rparr>)) (\<lambda>_.
             bind (modify (\<lambda>st. (resource (Memcached_pool_create 100 200) st)\<lparr>theMemcachePool := True\<rparr>)) (\<lambda>_.
             bind (modify (resource Pool_behavior_ketama)) (\<lambda>_.
               if mongo_user (st_config st) \<noteq> '''' then
                 modify (\<lambda>st. st\<lparr>st_hook := Some (new_auth_hook (mongo_db (st_config st))
                   (mongo_user (st_config st)) (mongo_password (st_config st)))\<rparr>)
               else ret ()))))))))))"

text \<open>
  The constructor and the destructor of the global object. The destructor runs when \<open>main\<close> returns
  and when the process ends by \<open>exit\<close>, wherever that is called.
\<close>

definition new_fuse :: startup where
  "new_fuse = \<lparr>st_config = (default_config 0 0)\<lparr>mongo_conn_string := [], mongo_collection_prefix := [],
     log_level := None, log_file := [], mongo_chunk_size := 0\<rparr>, st_args = [], st_logmask = 0xFF,
     theMemcachePool = False, theMaster = False, st_hook = None, fuse_runs = [], st_calls = []\<rparr>"

definition destroy_fuse :: "startup \<Rightarrow> startup" where
  "destroy_fuse st =
     (let st = (if theMemcachePool st then resource Memcached_pool_destroy st else st);
          st = (if theMaster st then resource Memcached_free st else st);
          st = (resource Fuse_opt_free_args st)\<lparr>st_args := []\<rparr>
      in resource Closelog st)"

section \<open>The authentication hook\<close>

text \<open>
  \<open>AuthHook::onCreate\<close>, where \<open>auth\<close> is the login of the new connection: a refused login ends the process with 3,
  an exception of the standard hierarchy (the driver's are in it) with 4.
\<close>

definition onCreate ::
  "auth_hook \<Rightarrow> (string \<Rightarrow> string \<Rightarrow> string \<Rightarrow> exn + bool) \<Rightarrow> ('s, unit) comp" where
  "onCreate h auth = (case auth (theDBName h) (theUsername h) (thePassword h) of
     Inr True \<Rightarrow> ret ()
   | Inr False \<Rightarrow> exit_process 3
   | Inl UnknownException \<Rightarrow> throw UnknownException
   | Inl _ \<Rightarrow> exit_process 4)"

section \<open>The root directory\<close>

definition createRootDir :: "'w env \<Rightarrow> ('w, 'x, unit) callback" where
  "createRootDir E =
     local_object (new_entry E (path_prefix (config E))) drop_connection
       (bind (entry_exists E) (\<lambda>ex.
         if \<not> ex then bind (outside (gridfs_mkdir E '''' (S_IFDIR OR 0x1ED))) (\<lambda>_. ret ())
         else ret ()))"

text \<open>\<open>main\<close>: \<open>serve_fuse\<close> is \<open>fuse_main\<close> with the arguments of \<open>init\<close>.\<close>

definition main_program ::
  "(gridfs_config \<Rightarrow> 'w env) \<Rightarrow> u32 \<Rightarrow> u32 \<Rightarrow> opt_event list \<Rightarrow> startup
    \<Rightarrow> ('w env \<Rightarrow> string list \<Rightarrow> ('w, 'x, int) callback) \<Rightarrow> ('w, 'x, int) callback" where
  "main_program env_of uid gid events st0 serve_fuse =
     (case fuse_init uid gid events st0 of
        (Ret _, st) \<Rightarrow>
          (let E = env_of (st_config st) in
           bind (createRootDir E) (\<lambda>_. serve_fuse E (st_args st)))
      | (Throw e, _) \<Rightarrow> throw e
      | (Fault x, _) \<Rightarrow> fault x
      | (Exit n, _) \<Rightarrow> exit_process n)"

section \<open>What initialisation does\<close>

text \<open>The options in effect, and the arguments left, when no switch is among the events.\<close>

fun apply_events :: "opt_event list \<Rightarrow> gridfs_config \<times> string list \<Rightarrow> gridfs_config \<times> string list" where
  "apply_events [] cs = cs"
| "apply_events (Text t v # es) (c, as) = apply_events es (set_option set_text t v c, as)"
| "apply_events (Number t v # es) (c, as) = apply_events es (set_option set_number t v c, as)"
| "apply_events (Other a # es) (c, as) = apply_events es (c, as @ [a])"
| "apply_events (Switch t # es) (c, as) = apply_events es (c, as)"

definition no_switch :: "opt_event list \<Rightarrow> bool" where
  "no_switch es \<longleftrightarrow> (\<forall>e\<in>set es. case e of Switch t \<Rightarrow> False | _ \<Rightarrow> True)"

lemma no_switch_simps [simp]:
  "no_switch []"
  "no_switch (Text t v # es) = no_switch es"
  "no_switch (Number t n # es) = no_switch es"
  "no_switch (Other a # es) = no_switch es"
  "\<not> no_switch (Switch t # es)"
  by (simp_all add: no_switch_def)

text \<open>What parsing does when no switch comes, and that the first switch ends the process.\<close>

lemma parse_options_run:
  "no_switch es \<Longrightarrow> \<exists>st'. parse_options es st = (Ret (), st') \<and>
     (st_config st', st_args st') = apply_events es (st_config st, st_args st) \<and>
     st_hook st' = st_hook st \<and> theMemcachePool st' = theMemcachePool st \<and> theMaster st' = theMaster st \<and>
     st_calls st' = st_calls st"
proof (induction es arbitrary: st)
  case (Cons e es)
  then show ?case
    using Cons.IH [of "st\<lparr>st_config := c, st_args := a\<rparr>" for c a]
    by (cases e) (fastforce simp: bind_run comp_simps)+
qed (simp add: comp_simps)

lemma parse_options_switch_run:
  assumes "no_switch es" and "map_of opt_keys t = Some k"
  shows "parse_options (es @ Switch t # es') st =
    (Exit (case k of KEY_HELP \<Rightarrow> 1 | KEY_VERSION \<Rightarrow> 0),
     (let as = snd (apply_events es (st_config st, st_args st)) @
        [case k of KEY_HELP \<Rightarrow> ''-ho'' | KEY_VERSION \<Rightarrow> ''--version'']
      in st\<lparr>st_config := fst (apply_events es (st_config st, st_args st)), st_args := as,
        fuse_runs := fuse_runs st @ [as]\<rparr>))"
  using assms(1)
proof (induction es arbitrary: st)
  case Nil
  then show ?case using assms(2)
    by (cases k) (simp_all add: opt_proc_def bind_run comp_simps Let_def)
next
  case (Cons e es)
  then show ?case by (cases e) (simp_all add: bind_run comp_simps Let_def)
qed

text \<open>No option reaches the chunk size.\<close>

lemma set_keeps_chunk_size [simp]:
  "mongo_chunk_size (set_text f v c) = mongo_chunk_size c"
  "mongo_chunk_size (set_number f n c) = mongo_chunk_size c"
  by (simp_all add: set_text_def set_number_def split: option_field.split)

lemma set_option_keeps_chunk_size [simp]:
  "mongo_chunk_size (set_option set_text t v c) = mongo_chunk_size c"
  "mongo_chunk_size (set_option set_number t n c) = mongo_chunk_size c"
  by (simp_all add: set_option_def split: option.split)

lemma apply_events_chunk_size:
  "mongo_chunk_size (fst (apply_events es (c, as))) = mongo_chunk_size c"
  by (induction es "(c, as)" arbitrary: c as rule: apply_events.induct) simp_all

definition fuse_args :: "string list \<Rightarrow> string list" where
  "fuse_args as = as @ [''-o'', ''max_read=262144'', ''-o'', ''max_write=262144'', ''-o'', ''big_writes'']"

lemma fuse_init_run:
  assumes "no_switch es" and c: "apply_events es (default_config uid gid, []) = (c, as)"
    and h: "st_hook st = None"
  shows "mongo_db c = '''' \<Longrightarrow> fst (fuse_init uid gid es st) = Exit 1"
    and "mongo_db c \<noteq> '''' \<Longrightarrow> \<exists>st'. fuse_init uid gid es st = (Ret (), st') \<and> st_config st' = c \<and>
      st_args st' = fuse_args as \<and> st_logmask st' = initSyslog c \<and> theMemcachePool st' \<and> theMaster st' \<and>
      st_hook st' = (if mongo_user c = '''' then None
        else Some (new_auth_hook (mongo_db c) (mongo_user c) (mongo_password c)))"
proof -
  let ?st = "st\<lparr>st_config := default_config uid gid, st_args := []\<rparr>"
  obtain st1 where 1: "parse_options es ?st = (Ret (), st1)" "st_config st1 = c" "st_args st1 = as"
    "st_hook st1 = None"
    using parse_options_run [OF assms(1), of ?st] c h by auto
  have "mongo_chunk_size c = 262144"
    using apply_events_chunk_size [of es "default_config uid gid" "[]"] c
    by (simp add: default_config_def MONGO_DEFAULT_CHUNK_SIZE_def)
  moreover have "dec_int 262144 = ''262144''"
    by (simp add: dec_int_def dec.simps digit_chars)
  ultimately show "mongo_db c = '''' \<Longrightarrow> fst (fuse_init uid gid es st) = Exit 1"
    and "mongo_db c \<noteq> '''' \<Longrightarrow> \<exists>st'. fuse_init uid gid es st = (Ret (), st') \<and> st_config st' = c \<and>
      st_args st' = fuse_args as \<and> st_logmask st' = initSyslog c \<and> theMemcachePool st' \<and> theMaster st' \<and>
      st_hook st' = (if mongo_user c = '''' then None
        else Some (new_auth_hook (mongo_db c) (mongo_user c) (mongo_password c)))"
    using 1 by (simp_all add: fuse_init_def bind_run comp_simps add_args_def Let_def fuse_args_def resource_def)
qed

section \<open>The root directory under the laws\<close>

context backend
begin

lemma createRootDir_run:
  fixes s :: "('w, 'x) fuse_state_scheme"
  assumes root: "p = configure_path (config E) ''''"
  shows "\<exists>w. createRootDir E s = (Ret (), s\<lparr>world := w\<rparr>) \<and>
    (if newest (path_prefix (config E)) (docs (world s)) \<noteq> None then docs w = docs (world s)
     else \<exists>d. docs w = docs (world s) @ [d] \<and>
       new_doc p (S_IFDIR OR 0x1ED) (default_uid (config E)) (default_gid (config E)) [] (docs (world s)) d)"
proof -
  let ?pre = "path_prefix (config E)" and ?t = "take_connection s"
  let ?e = "\<lparr>thePath = ?pre, theGridFile = None\<rparr>"
  let ?body = "bind (entry_exists E) (\<lambda>ex.
      if \<not> ex then bind (outside (gridfs_mkdir E '''' (S_IFDIR OR 0x1ED))) (\<lambda>_. ret ()) else ret ())"
  let ?R = "\<lambda>a :: unit. \<lambda>w. if newest ?pre (docs (world s)) \<noteq> None then docs w = docs (world s)
     else \<exists>d. docs w = docs (world s) @ [d] \<and>
       new_doc p (S_IFDIR OR 0x1ED) (default_uid (config E)) (default_gid (config E)) [] (docs (world s)) d"
  have "\<exists>a w. local_object (new_entry E ?pre) drop_connection ?body s = (Ret a, s\<lparr>world := w\<rparr>) \<and> ?R a w"
  proof (rule local_object_run [OF new_entry_builds])
    fix w assume w: "calm docs cached (world s) w"
    then have dw: "docs w = docs (world s)" by (simp add: calm_def)
    have "current (docs w) ?e" by (simp add: current_def)
    then obtain e1 w1 where 1: "entry_exists E (?e, ?t\<lparr>world := w\<rparr>) =
        (Ret (newest ?pre (docs (world s)) \<noteq> None), (e1, ?t\<lparr>world := w1\<rparr>))" "calm docs cached w w1"
      by (rule entry_exists_world [where t = ?t]) (use dw in simp)
    have d1: "docs w1 = docs (world s)" using 1(2) dw by (simp add: calm_def)
    show "\<exists>a ob' w'. ?body (?e, ?t\<lparr>world := w\<rparr>) = (Ret a, ob', ?t\<lparr>world := w'\<rparr>) \<and> ?R a w'"
    proof (cases "newest ?pre (docs (world s)) = None")
      case False
      show ?thesis using 1(1) d1
        by (intro exI [of _ "()"] exI [of _ e1] exI [of _ w1])
          (simp add: bind_run comp_simps False del: not_None_eq)
    next
      case True
      obtain d w2 where 2: "gridfs_mkdir E '''' (S_IFDIR OR 0x1ED) (?t\<lparr>world := w1\<rparr>) =
          (Ret 0, (?t\<lparr>world := w1\<rparr>)\<lparr>world := w2\<rparr>)" "docs w2 = docs w1 @ [d]"
        "new_doc p (S_IFDIR OR (S_IFDIR OR 0x1ED)) (default_uid (config E)) (default_gid (config E)) []
          (docs w1) d"
        using mkdir_run [OF root, of "S_IFDIR OR 0x1ED" "?t\<lparr>world := w1\<rparr>"] by auto
      have "S_IFDIR OR (S_IFDIR OR 0x1ED) = S_IFDIR OR (0x1ED :: u32)" by (simp add: S_IFDIR_def)
      then show ?thesis using True 1(1) 2 d1
        by (intro exI [of _ "()"] exI [of _ e1] exI [of _ w2]) (simp add: bind_run comp_simps)
    qed
  qed
  then show ?thesis unfolding createRootDir_def by auto
qed

end

end
