(* ===== verification/Open_Files.thy ===== *)
theory Open_Files
  imports Path_Callbacks
begin

text \<open>
  Files from \<open>create\<close> or \<open>open\<close> to \<open>release\<close>: what each callback does to the object behind the
  handle and to the documents, and the whole way of a content from the writer to the reader.
\<close>

section \<open>Steps on an open file\<close>

text \<open>
  \<open>file_step fh f' s s'\<close>: the object behind \<open>fh\<close> is now \<open>f'\<close>; the documents are as they were,
  the cache has at most lost entries, nothing else of the process changed.
\<close>

definition file_step ::
  "('w \<Rightarrow> doc list) \<Rightarrow> ('w \<Rightarrow> string \<rightharpoonup> cached_value) \<Rightarrow> nat \<Rightarrow> file_obj
    \<Rightarrow> ('w, 'x) fuse_state_scheme \<Rightarrow> ('w, 'x) fuse_state_scheme \<Rightarrow> bool" where
  "file_step docs cached fh f' s s' \<longleftrightarrow> objects s' = (objects s)(fh \<mapsto> FILE f') \<and>
     next_addr s' = next_addr s \<and> conns s' = conns s \<and> caches s' = caches s \<and>
     calm docs cached (world s) (world s')"

lemma file_step_trans:
  "file_step docs cached fh f s s' \<Longrightarrow> file_step docs cached fh f' s' s'' \<Longrightarrow>
   file_step docs cached fh f' s s''"
  by (auto simp: file_step_def calm_def intro: map_le_trans)

lemma file_step_refl:
  "objects s fh = Some (FILE f) \<Longrightarrow> file_step docs cached fh f s s"
  by (auto simp: file_step_def calm_def)

text \<open>
  \<open>new_handle fh f s s'\<close>: the file object \<open>f\<close> is reachable through the new handle \<open>fh\<close> and
  holds a connection; apart from it only the outside world changed.
\<close>

definition new_handle ::
  "nat \<Rightarrow> file_obj \<Rightarrow> ('w, 'x) fuse_state_scheme \<Rightarrow> ('w, 'x) fuse_state_scheme \<Rightarrow> bool" where
  "new_handle fh f s s' \<longleftrightarrow> fh = next_addr s \<and> objects s' = (objects s)(fh \<mapsto> FILE f) \<and>
     next_addr s' = Suc (next_addr s) \<and> conns s' = Suc (conns s) \<and> caches s' = caches s"

text \<open>The handle is gone and its connection went back to the pool.\<close>

definition closed ::
  "nat \<Rightarrow> ('w, 'x) fuse_state_scheme \<Rightarrow> ('w, 'x) fuse_state_scheme \<Rightarrow> bool" where
  "closed fh s s' \<longleftrightarrow> objects s' = (objects s)(fh := None) \<and> next_addr s' = next_addr s \<and>
     conns s' = conns s - 1 \<and> caches s' = caches s"

abbreviation fresh_file :: "string \<Rightarrow> file_obj" where
  "fresh_file p \<equiv> file_of_entry \<lparr>thePath = p, theGridFile = None\<rparr>"

context mounted
begin

lemma with_file_run:
  fixes s :: "('w, 'x) fuse_state_scheme"
  assumes "m (f, s) = (r, (f', s1))" "evolves docs cached s ds s1"
  shows "\<exists>s'. with_file fh f m s = (r, s') \<and> objects s' = (objects s)(fh \<mapsto> FILE f') \<and>
     next_addr s' = next_addr s \<and> conns s' = conns s \<and> caches s' = caches s \<and>
     docs (world s') = ds \<and> cached (world s') \<subseteq>\<^sub>m cached (world s)"
proof -
  have s1: "s1 = s\<lparr>world := world s1\<rparr>" using assms(2) by (simp only: evolves_def)
  have "objects s1 = objects s" "next_addr s1 = next_addr s" "conns s1 = conns s" "caches s1 = caches s"
    by (subst s1; simp)+
  with assms show ?thesis by (auto simp: with_file_def evolves_def)
qed

text \<open>Writing at the end of what was written\<close>

lemma write_run:
  fixes s :: "('w, 'x) fuse_state_scheme"
  assumes "fh \<noteq> 0" "objects s fh = Some (FILE f)" "writer_ok f"
    and len: "length (written f) + length data < 2 ^ 31"
  shows "\<exists>f' s'. gridfs_write E data (int (length (written f))) fh s = (Ret (int (length data)), s') \<and>
    file_step docs cached fh f' s s' \<and> written f' = written f @ data \<and> writer_ok f' \<and>
    theHasChanges f' \<and> thePath f' = thePath f \<and> theGridFile f' = theGridFile f"
proof -
  have "length (written f) + length data < 2 ^ 62" using len by simp
  then obtain f' s1 where 1: "file_write E data (int (length (written f))) (f, s) =
      (Ret (int (length data)), (f', s1))"
    "written f' = written f @ data" "writer_ok f'" "theHasChanges f'" "thePath f' = thePath f"
    "theGridFile f' = theGridFile f" "evolves docs cached s (docs (world s)) s1"
    using file_write_run [OF assms(3) chunk_size, of data s] by blast
  obtain s' where 2: "with_file fh f (file_write E data (int (length (written f)))) s =
      (Ret (int (length data)), s')" "file_step docs cached fh f' s s'"
    using with_file_run [of "file_write E data (int (length (written f)))", OF 1(1,7), of fh]
    by (auto simp: file_step_def calm_def)
  have "int (length data) < int (2 ^ 31)" using len by (simp only: of_nat_less_iff)
  then have "c_int (int (length data)) = int (length data)" by (intro c_int_id) auto
  then have "gridfs_write E data (int (length (written f))) fh s = (Ret (int (length data)), s')"
    using assms(1,2) 2(1) by (simp add: gridfs_write_def assert_that_true bind_run comp_simps
        deref_def catch_with_def)
  with 1 2(2) show ?thesis by blast
qed

text \<open>Any other position\<close>

lemma write_elsewhere_run:
  fixes s :: "('w, 'x) fuse_state_scheme"
  assumes "fh \<noteq> 0" "objects s fh = Some (FILE f)" "theWritten f \<noteq> c_size_t off"
  shows "\<exists>f' s'. gridfs_write E data off fh s = (Ret (- EIO), s') \<and>
    file_step docs cached fh f' s s' \<and> written f' = written f \<and> theHasChanges f' = theHasChanges f \<and>
    (writer_ok f \<longrightarrow> writer_ok f') \<and> thePath f' = thePath f \<and> theGridFile f' = theGridFile f"
proof -
  have "with_file fh f (file_write E data off) s = (Throw (StdException
      ''Appending to a file other than to the beginning of it is not allowed. ''),
      s\<lparr>objects := (objects s)(fh \<mapsto> FILE (sized_chunks E f))\<rparr>)"
    by (simp add: with_file_def file_write_elsewhere [OF assms(3)])
  then have "gridfs_write E data off fh s =
      (Ret (- EIO), s\<lparr>objects := (objects s)(fh \<mapsto> FILE (sized_chunks E f))\<rparr>)"
    using assms(1,2) by (simp add: gridfs_write_def assert_that_true bind_run comp_simps
        deref_def catch_with_def)
  moreover have "writer_ok f \<longrightarrow> writer_ok (sized_chunks E f)"
    using sized_chunks_ok [OF _ chunk_size, of f] by blast
  ultimately show ?thesis by (auto simp: file_step_def calm_def)
qed

text \<open>Blocks one after the other\<close>

lemma write_blocks_run:
  assumes "fh \<noteq> 0"
  shows "objects s fh = Some (FILE f) \<Longrightarrow> writer_ok f \<Longrightarrow>
    length (written f) + length (concat bs) < 2 ^ 31 \<Longrightarrow>
    \<exists>f' s'. write_all (\<lambda>b off. gridfs_write E b off fh) (int (length (written f))) bs s = (Ret (), s') \<and>
      file_step docs cached fh f' s s' \<and> written f' = written f @ concat bs \<and> writer_ok f' \<and>
      theHasChanges f' = (theHasChanges f \<or> bs \<noteq> []) \<and> thePath f' = thePath f \<and>
      theGridFile f' = theGridFile f"
proof (induction bs arbitrary: f s)
  case Nil
  then show ?case
    by (intro exI [of _ f] exI [of _ s]) (simp add: comp_simps file_step_refl)
next
  case (Cons b bs)
  have "length (written f) + length b < 2 ^ 31" using Cons.prems(3) by simp
  then obtain f1 s1 where 1: "gridfs_write E b (int (length (written f))) fh s = (Ret (int (length b)), s1)"
    "file_step docs cached fh f1 s s1" "written f1 = written f @ b" "writer_ok f1"
    "theHasChanges f1" "thePath f1 = thePath f" "theGridFile f1 = theGridFile f"
    using write_run [OF assms Cons.prems(1,2), of b] by blast
  have "objects s1 fh = Some (FILE f1)" using 1(2) by (simp add: file_step_def)
  moreover have "length (written f1) + length (concat bs) < 2 ^ 31" using Cons.prems(3) 1(3) by simp
  ultimately obtain f2 s2 where 2: "write_all (\<lambda>b off. gridfs_write E b off fh)
      (int (length (written f1))) bs s1 = (Ret (), s2)"
    "file_step docs cached fh f2 s1 s2" "written f2 = written f1 @ concat bs" "writer_ok f2"
    "theHasChanges f2 = (theHasChanges f1 \<or> bs \<noteq> [])" "thePath f2 = thePath f1"
    "theGridFile f2 = theGridFile f1"
    using Cons.IH [of s1 f1] 1(4) by blast
  have "write_all (\<lambda>b off. gridfs_write E b off fh) (int (length (written f))) (b # bs) s = (Ret (), s2)"
    using 1(1,3) 2(1) by (simp add: bind_run)
  with 1 2 file_step_trans [OF 1(2) 2(2)] show ?case by auto
qed

text \<open>Reading\<close>

lemma read_run:
  fixes s :: "('w, 'x) fuse_state_scheme"
  assumes "fh \<noteq> 0" "objects s fh = Some (FILE f)" "reader_ok (docs (world s)) d f"
    and len: "sound_length d" "d_length d < 2 ^ 31"
    and cs: "0 < d_chunk d" "d_chunk d < 2 ^ 31"
    and r: "0 \<le> off" "0 \<le> sz" "off + sz < 2 ^ 63"
  shows "\<exists>f' s'. gridfs_read E sz off fh s =
      (Ret (int (length (take (nat sz) (drop (nat off) (doc_content d)))),
        take (nat sz) (drop (nat off) (doc_content d))), s') \<and>
    file_step docs cached fh f' s s' \<and> reader_ok (docs (world s')) d f' \<and> thePath f' = thePath f \<and>
    writer_part f' = writer_part f \<and> (linked f \<longrightarrow> theGridFile f' \<noteq> None \<and> linked f') \<and>
    (\<forall>g. theGridFile f = Some g \<longrightarrow> theGridFile f' = Some g)"
proof -
  let ?bs = "take (nat sz) (drop (nat off) (doc_content d))"
  have "d_length d \<le> 2 ^ 31" using len(2) by simp
  then obtain f' s1 where 1: "file_read E sz off (f, s) = (Ret (int (length ?bs), ?bs), (f', s1))"
    "reader_ok (docs (world s)) d f'" "thePath f' = thePath f" "evolves docs cached s (docs (world s)) s1"
    "sized d f'"
    using file_read_run [OF assms(3) len(1) _ cs r] by blast
  have lk: "linked f \<Longrightarrow> theGridFile f' \<noteq> None \<and> linked f'"
    using read_links(1) [OF 1(1)] 1(5) cs(1) by (auto simp: linked_def sized_def)
  obtain s' where 2: "with_file fh f (file_read E sz off) s = (Ret (int (length ?bs), ?bs), s')"
    "file_step docs cached fh f' s s'"
    using with_file_run [of "file_read E sz off", OF 1(1,4), of fh] by (auto simp: file_step_def calm_def)
  have "int (length ?bs) \<le> d_length d"
    using len(1) by (auto simp: doc_content_def sound_length_def)
  then have "c_int (int (length ?bs)) = int (length ?bs)" using len(2) by (intro c_int_id) linarith+
  then have "gridfs_read E sz off fh s = (Ret (int (length ?bs), ?bs), s')"
    using assms(1,2) 2(1) by (simp add: gridfs_read_def assert_that_true bind_run comp_simps
        deref_def catch_with_def)
  moreover have "docs (world s') = docs (world s)" using 2(2) by (simp add: file_step_def calm_def)
  ultimately show ?thesis
    using 1(2,3) 2(2) lk file_read_buffer [OF 1(1) goes_on.simps(1) [THEN iffD2, OF TrueI]] read_links(2) [OF 1(1)]
    by (intro exI [of _ f'] exI [of _ s']) simp
qed

section \<open>Opening\<close>

lemma lifetime_run:
  assumes "builds ctor ob"
    and "\<And>w. calm docs cached (world s) w \<Longrightarrow> \<exists>a ob' w'. body (ob, (take_connection s)\<lparr>world := w\<rparr>) =
      (Ret a, (ob', (take_connection s)\<lparr>world := w'\<rparr>)) \<and> R a ob' w'"
  shows "\<exists>a ob' w'. lifetime ctor body d k s = k a ob' ((take_connection s)\<lparr>world := w'\<rparr>) \<and> R a ob' w'"
proof -
  obtain w where c: "ctor s = (Ret ob, (take_connection s)\<lparr>world := w\<rparr>)" "calm docs cached (world s) w"
    using assms(1) unfolding builds_def by blast
  obtain a ob' w' where "body (ob, (take_connection s)\<lparr>world := w\<rparr>) =
      (Ret a, (ob', (take_connection s)\<lparr>world := w'\<rparr>))" "R a ob' w'"
    using assms(2) [OF c(2)] by blast
  with lifetime_Ret [of ctor s ob _ body a ob' _ d k] c(1) show ?thesis by auto
qed

lemma release_new:
  "\<exists>s'. bind (release_handle (FILE f)) (\<lambda>fh. ret (a, fh)) ((take_connection s)\<lparr>world := w\<rparr>) =
      (Ret (a, next_addr s), s') \<and> new_handle (next_addr s) f s s' \<and> world s' = w"
  by (simp add: bind_run release_handle_def comp_simps new_handle_def take_connection_def)

text \<open>What a fresh file object may do\<close>

lemma fresh_file_ok:
  "writer_ok (fresh_file p)" "written (fresh_file p) = []" "\<not> theHasChanges (fresh_file p)"
  "thePath (fresh_file p) = p" "current ds (fresh_file p)" "theCurrentDataSize (fresh_file p) = 0"
  "theGridFile (fresh_file p) = None" "theChunkSize (fresh_file p) = 0"
  "newest p ds = Some d \<Longrightarrow> reader_ok ds d (fresh_file p)"
  by (simp_all add: file_of_entry_def writer_ok_def written_def current_def reader_ok_def)

lemma open_run:
  fixes s :: "('w, 'x) fuse_state_scheme"
  assumes p: "p = configure_path (config E) q" and np: "\<not> is_proc (config E) p"
    and d: "newest p (docs (world s)) = Some d"
  shows "\<exists>f s'. gridfs_open E q fh0 s = (Ret (0, next_addr s), s') \<and> new_handle (next_addr s) f s s' \<and>
    calm docs cached (world s) (world s') \<and> reader_ok (docs (world s')) d f \<and> writer_ok f \<and>
    written f = [] \<and> \<not> theHasChanges f \<and> thePath f = p \<and> theCurrentDataSize f = 0 \<and>
    (ndebug E \<longrightarrow> f = fresh_file p) \<and> (ndebug E \<or> theGridFile f \<noteq> None)"
proof -
  let ?body = "assert_that (ndebug E) (entry_exists E)" and ?t = "take_connection s"
  let ?k = "\<lambda>_ lFile. bind (release_handle (FILE lFile)) (\<lambda>fh. ret (0::int, fh))"
  let ?R = "\<lambda>a f w. calm docs cached (world s) w \<and> reader_ok (docs w) d f \<and> writer_ok f \<and>
    written f = [] \<and> \<not> theHasChanges f \<and> thePath f = p \<and> theCurrentDataSize f = 0 \<and>
    (ndebug E \<longrightarrow> f = fresh_file p) \<and> (ndebug E \<or> theGridFile f \<noteq> None)"
  have "\<exists>(a :: unit) f w. lifetime (new_file E p) ?body drop_connection ?k s = ?k a f (?t\<lparr>world := w\<rparr>) \<and> ?R a f w"
  proof (rule lifetime_run [OF new_file_builds])
    fix w assume w: "calm docs cached (world s) w"
    then have dw: "docs w = docs (world s)" by (simp add: calm_def)
    show "\<exists>a ob' w'. ?body (fresh_file p, ?t\<lparr>world := w\<rparr>) = (Ret a, ob', ?t\<lparr>world := w'\<rparr>) \<and> ?R a ob' w'"
    proof (cases "ndebug E")
      case True
      then show ?thesis using w d dw
        by (intro exI [of _ "()"] exI [of _ "fresh_file p"] exI [of _ w])
          (simp add: comp_simps fresh_file_ok)
    next
      case False
      obtain e1 s1 where 1: "entry_exists E (fresh_file p, ?t\<lparr>world := w\<rparr>) = (Ret True, (e1, s1))"
        "fetched (docs w) (fresh_file p) e1" "evolves docs cached (?t\<lparr>world := w\<rparr>) (docs w) s1"
        using entry_exists_run [of "?t\<lparr>world := w\<rparr>" "fresh_file p"] d dw
        by (auto simp: fresh_file_ok)
      from 1(3) obtain w1 where w1: "s1 = ?t\<lparr>world := w1\<rparr>" "docs w1 = docs w" "cached w1 \<subseteq>\<^sub>m cached w"
        by (rule evolves_world)
      obtain g where g: "e1 = (fresh_file p)\<lparr>theGridFile := Some g\<rparr>" "shows_doc g (newest p (docs w))"
        using 1(2) by (auto simp: fetched_def fresh_file_ok)
      have "reader_ok (docs w1) d e1" "writer_ok e1" "written e1 = []" "\<not> theHasChanges e1" "thePath e1 = p"
          "theCurrentDataSize e1 = 0" "theGridFile e1 \<noteq> None"
        using g d dw w1(2)
        by (simp_all add: file_of_entry_def reader_ok_def current_def writer_ok_def written_def)
      moreover have "calm docs cached (world s) w1"
        using calm_trans [OF w] w1(2,3) by (simp add: calm_def)
      ultimately show ?thesis using False 1(1) w1(1)
        by (intro exI [of _ "()"] exI [of _ e1] exI [of _ w1]) (simp add: comp_simps bind_run)
    qed
  qed
  then obtain a f w where l: "lifetime (new_file E p) ?body drop_connection ?k s = ?k a f (?t\<lparr>world := w\<rparr>)"
    and R: "?R a f w" by blast
  obtain s' where s': "?k a f (?t\<lparr>world := w\<rparr>) = (Ret (0, next_addr s), s')"
    "new_handle (next_addr s) f s s'" "world s' = w"
    using release_new [where f = f and a = 0 and s = s and w = w] by blast
  have "gridfs_open E q fh0 s = (Ret (0, next_addr s), s')"
    unfolding gridfs_open_def p [symmetric] Let_def
    using np l s'(1) by (simp add: catch_with_def)
  with R s' show ?thesis by blast
qed

lemma create_run:
  fixes s :: "('w, 'x) fuse_state_scheme"
  assumes p: "p = configure_path (config E) q" and np: "\<not> is_proc (config E) p"
  shows "newest p (docs (world s)) = None \<Longrightarrow>
      \<exists>d s'. gridfs_create E q mode s = (Ret (0, next_addr s), s') \<and>
        new_handle (next_addr s) (fresh_file p) s s' \<and> docs (world s') = docs (world s) @ [d] \<and>
        new_doc p (S_IFREG OR mode) (default_uid (config E)) (default_gid (config E)) []
          (docs (world s)) d \<and>
        cached (world s') \<subseteq>\<^sub>m cached (world s)"
    and "newest p (docs (world s)) \<noteq> None \<Longrightarrow>
      \<exists>f s'. gridfs_create E q mode s = (Ret (- EEXIST, next_addr s), s') \<and>
        new_handle (next_addr s) f s s' \<and> calm docs cached (world s) (world s')"
proof -
  let ?make = "entry_create E (S_IFREG OR mode) (default_uid (config E)) (default_gid (config E)) []"
  let ?body = "bind (entry_exists E) (\<lambda>ex. if ex then ret (- EEXIST) else bind ?make (\<lambda>_. ret 0))"
  let ?t = "take_connection s"
  let ?k = "\<lambda>result lFile. bind (release_handle (FILE lFile)) (\<lambda>fh. ret (result, fh))"
  let ?new = "\<lambda>w. \<exists>d. docs w = docs (world s) @ [d] \<and> new_doc p (S_IFREG OR mode)
    (default_uid (config E)) (default_gid (config E)) [] (docs (world s)) d"
  let ?R = "\<lambda>a f w. if newest p (docs (world s)) = None
    then a = 0 \<and> f = fresh_file p \<and> ?new w \<and> cached w \<subseteq>\<^sub>m cached (world s)
    else a = - EEXIST \<and> calm docs cached (world s) w"
  have "\<exists>a f w. lifetime (new_file E p) ?body drop_connection ?k s = ?k a f (?t\<lparr>world := w\<rparr>) \<and> ?R a f w"
  proof (rule lifetime_run [OF new_file_builds])
    fix w assume w: "calm docs cached (world s) w"
    then have dw: "docs w = docs (world s)" by (simp add: calm_def)
    obtain e1 s1 where 1: "entry_exists E (fresh_file p, ?t\<lparr>world := w\<rparr>) =
        (Ret (newest p (docs (world s)) \<noteq> None), (e1, s1))"
      "fetched (docs w) (fresh_file p) e1" "evolves docs cached (?t\<lparr>world := w\<rparr>) (docs w) s1"
      using entry_exists_run [of "?t\<lparr>world := w\<rparr>" "fresh_file p"] dw by (auto simp: fresh_file_ok)
    from 1(3) obtain w1 where w1: "s1 = ?t\<lparr>world := w1\<rparr>" "docs w1 = docs w" "cached w1 \<subseteq>\<^sub>m cached w"
      by (rule evolves_world)
    have c1: "calm docs cached (world s) w1"
      using calm_trans [OF w] w1(2,3) by (simp add: calm_def)
    obtain g where g: "e1 = (fresh_file p)\<lparr>theGridFile := Some g\<rparr>"
      using 1(2) by (auto simp: fetched_def)
    then have renewed: "e1\<lparr>theGridFile := None\<rparr> = fresh_file p" "thePath e1 = p"
      by (simp_all add: file_of_entry_def)
    show "\<exists>a ob' w'. ?body (fresh_file p, ?t\<lparr>world := w\<rparr>) = (Ret a, ob', ?t\<lparr>world := w'\<rparr>) \<and> ?R a ob' w'"
    proof (cases "newest p (docs (world s)) = None")
      case False
      show ?thesis using 1(1) w1(1) c1
        by (intro exI [of _ "- EEXIST"] exI [of _ e1] exI [of _ w1])
          (simp add: bind_run comp_simps False del: not_None_eq)
    next
      case True
      obtain d w2 where 2: "?make (e1, ?t\<lparr>world := w1\<rparr>) =
          (Ret (), (e1\<lparr>theGridFile := None\<rparr>, ?t\<lparr>world := w2\<rparr>))"
        "docs w2 = docs w1 @ [d]" "new_doc (thePath e1) (S_IFREG OR mode) (default_uid (config E))
          (default_gid (config E)) [] (docs w1) d" "cached w2 \<subseteq>\<^sub>m cached w1"
        by (rule entry_create_world)
      then have "?new w2 \<and> cached w2 \<subseteq>\<^sub>m cached (world s)"
        using c1 renewed(2) by (auto simp: calm_def intro: map_le_trans)
      with 1(1) 2(1) w1(1) True show ?thesis unfolding renewed(1)
        by (intro exI [of _ 0] exI [of _ "fresh_file p"] exI [of _ w2]) (simp add: bind_run comp_simps)
    qed
  qed
  then obtain a f w where l: "lifetime (new_file E p) ?body drop_connection ?k s = ?k a f (?t\<lparr>world := w\<rparr>)"
    and R: "?R a f w" by blast
  obtain s' where s': "?k a f (?t\<lparr>world := w\<rparr>) = (Ret (a, next_addr s), s')"
    "new_handle (next_addr s) f s s'" "world s' = w"
    using release_new [where f = f and a = a and s = s and w = w] by blast
  have run: "gridfs_create E q mode s = (Ret (a, next_addr s), s')"
    unfolding gridfs_create_def p [symmetric] Let_def
    using np l s'(1) by (simp add: catch_with_def)
  show "newest p (docs (world s)) = None \<Longrightarrow>
      \<exists>d s'. gridfs_create E q mode s = (Ret (0, next_addr s), s') \<and>
        new_handle (next_addr s) (fresh_file p) s s' \<and> docs (world s') = docs (world s) @ [d] \<and>
        new_doc p (S_IFREG OR mode) (default_uid (config E)) (default_gid (config E)) []
          (docs (world s)) d \<and>
        cached (world s') \<subseteq>\<^sub>m cached (world s)"
    using R run s' by auto
  show "newest p (docs (world s)) \<noteq> None \<Longrightarrow>
      \<exists>f s'. gridfs_create E q mode s = (Ret (- EEXIST, next_addr s), s') \<and>
        new_handle (next_addr s) f s s' \<and> calm docs cached (world s) (world s')"
    using R run s' by auto
qed

section \<open>Closing\<close>

lemma destroy_file_closed:
  assumes "objects s fh = Some (FILE f)"
  shows "closed fh s (destroy_handle fh s)" "world (destroy_handle fh s) = world s"
  using assms by (simp_all add: closed_def destroy_handle_def destroy_object_def drop_connection_def)

text \<open>Nothing was written: the documents stay.\<close>

lemma release_clean_run:
  assumes "fh \<noteq> 0" "objects s fh = Some (FILE f)" "\<not> theHasChanges f"
  shows "gridfs_release E q fh s = (Ret 0, destroy_handle fh s)"
  using assms by (simp add: gridfs_release_def Let_def bind_run deref_def comp_simps catch_with_def
      with_dtor_def)

text \<open>Something was written: a new document holds it, with the attributes of the old one.\<close>

lemma release_fetched:
  fixes s :: "('w, 'x) fuse_state_scheme"
  assumes p: "p = configure_path (config E) q" and fh: "fh \<noteq> 0" "objects s fh = Some (FILE f)"
    and f: "thePath f = p" "theHasChanges f" "writer_ok f"
    and g: "gridfile E (f, s) = (Ret g, (f\<lparr>theGridFile := Some g\<rparr>, s0))" "gf_content_type g = Inr ct"
      "evolves docs cached s (docs (world s)) s0"
    and co: "coherent E docs cached s"
  shows "\<exists>d' s'. gridfs_release E q fh s = (Ret 0, s') \<and> closed fh s s' \<and>
    docs (world s') = docs (world s) @ [d'] \<and>
    stored_doc p ct (written f) (docs (world s)) d' \<and> coherent E docs cached s'"
proof -
  obtain f' i cs s1 where 1: "file_store E (f, s) = (Ret (), (f', s1))"
    "evolves docs cached s (docs (world s) @ [\<lparr>d_id = i, d_name = thePath f, d_type = ct,
       d_length = int (length (written f)), d_chunk = cs, d_data = written f\<rparr>]) s1"
    "i \<notin> d_id ` set (docs (world s))" "0 < cs" "cs < 2 ^ 31"
    using file_store_fetched [OF g f(3)] by blast
  let ?d = "\<lparr>d_id = i, d_name = thePath f, d_type = ct, d_length = int (length (written f)),
      d_chunk = cs, d_data = written f\<rparr>"
  have sd: "stored_doc p ct (written f) (docs (world s)) ?d"
    using 1(3-5) f(1) by (simp add: stored_doc_def)
  obtain s2 where 2: "with_file fh f (file_store E) s = (Ret (), s2)"
    "objects s2 = (objects s)(fh \<mapsto> FILE f')" "next_addr s2 = next_addr s" "conns s2 = conns s"
    "caches s2 = caches s" "docs (world s2) = docs (world s) @ [?d]"
    "cached (world s2) \<subseteq>\<^sub>m cached (world s)"
    using with_file_run [of "file_store E", OF 1(1,2), of fh] by blast
  obtain w3 where 3: "forget_path E p s2 = (Ret (), s2\<lparr>world := w3\<rparr>)" "docs w3 = docs (world s2)"
    "cached w3 \<subseteq>\<^sub>m (cached (world s2))(memcache_key p := None)"
    using forget_path_run by blast
  let ?s3 = "s2\<lparr>world := w3\<rparr>"
  have live: "objects ?s3 fh = Some (FILE f')" using 2(2) by simp
  have run: "gridfs_release E q fh s = (Ret 0, destroy_handle fh ?s3)"
    using fh f(2) 2(1) 3(1)
    by (simp add: gridfs_release_def Let_def p [symmetric] bind_run deref_def comp_simps
        catch_with_def with_dtor_def)
  have "closed fh s (destroy_handle fh ?s3)"
    using destroy_file_closed(1) [OF live] 2(2-5) by (simp add: closed_def)
  moreover have w: "world (destroy_handle fh ?s3) = w3"
    using destroy_file_closed(2) [OF live] by simp
  moreover have "(cached (world s2))(memcache_key p := None) \<subseteq>\<^sub>m
      (cached (world s))(memcache_key p := None)"
    using 2(7) by (auto simp: map_le_def)
  then have "cached w3 \<subseteq>\<^sub>m (cached (world s))(memcache_key p := None)"
    using map_le_trans [OF 3(3)] by blast
  then have "coherent E docs cached (destroy_handle fh ?s3)"
    using coherent_forgotten [OF co, of p "destroy_handle fh ?s3"] 3(2) 2(6) f(1)
    unfolding w by (simp add: only_path_snoc)
  ultimately show ?thesis using run sd 3(2) 2(6) by (intro exI [of _ ?d] exI) auto
qed

lemma release_run:
  fixes s :: "('w, 'x) fuse_state_scheme"
  assumes p: "p = configure_path (config E) q" and fh: "fh \<noteq> 0" "objects s fh = Some (FILE f)"
    and f: "thePath f = p" "theHasChanges f" "writer_ok f" "current (docs (world s)) f"
    and d: "newest p (docs (world s)) = Some d" and co: "coherent E docs cached s"
  shows "\<exists>d' s'. gridfs_release E q fh s = (Ret 0, s') \<and> closed fh s s' \<and>
    docs (world s') = docs (world s) @ [d'] \<and>
    stored_doc p (d_type d) (written f) (docs (world s)) d' \<and> coherent E docs cached s'"
proof -
  have "newest (thePath f) (docs (world s)) = Some d" using d f(1) by simp
  from gridfile_shown [OF f(4) this] show ?thesis
    using release_fetched [OF p fh f(1-3) _ _ _ co] by metis
qed

end

section \<open>From the writer to the reader\<close>

text \<open>
  A program that creates a file with a list of blocks, one that writes the blocks to an existing
  file, and one that reads a piece of a file.
\<close>

definition save :: "'w env \<Rightarrow> string \<Rightarrow> u32 \<Rightarrow> bytes list \<Rightarrow> ('w, 'x, int) callback" where
  "save E path mode blocks = bind (gridfs_create E path mode) (\<lambda>(n, fh).
     if n \<noteq> 0 then ret n
     else bind (write_all (\<lambda>b off. gridfs_write E b off fh) 0 blocks) (\<lambda>_. gridfs_release E path fh))"

definition rewrite :: "'w env \<Rightarrow> string \<Rightarrow> bytes list \<Rightarrow> ('w, 'x, int) callback" where
  "rewrite E path blocks = bind (gridfs_open E path 0) (\<lambda>(n, fh).
     if n \<noteq> 0 then ret n
     else bind (write_all (\<lambda>b off. gridfs_write E b off fh) 0 blocks) (\<lambda>_. gridfs_release E path fh))"

definition load :: "'w env \<Rightarrow> string \<Rightarrow> int \<Rightarrow> int \<Rightarrow> ('w, 'x, bytes) callback" where
  "load E path sz off = bind (gridfs_open E path 0) (\<lambda>(n, fh).
     bind (gridfs_read E sz off fh) (\<lambda>(m, bs).
     bind (gridfs_release E path fh) (\<lambda>_. ret bs)))"

text \<open>Opening and closing again leaves the handles and the pools as they were.\<close>

definition same_process :: "('w, 'x) fuse_state_scheme \<Rightarrow> ('w, 'x) fuse_state_scheme \<Rightarrow> bool" where
  "same_process s s' \<longleftrightarrow> objects s' = objects s \<and> conns s' = conns s \<and> caches s' = caches s \<and> table_ok s'"

lemma opened_used_closed:
  assumes ok: "table_ok s" and o: "new_handle (next_addr s) f s s1"
    and u: "file_step docs cached (next_addr s) f' s1 s2" and c: "closed (next_addr s) s2 s3"
  shows "same_process s s3"
proof -
  have "objects s3 = objects s"
    using o u c table_ok_fresh [OF ok] by (auto simp: new_handle_def file_step_def closed_def fun_eq_iff)
  moreover have "next_addr s3 = Suc (next_addr s)"
    using o u c by (simp add: new_handle_def file_step_def closed_def)
  ultimately show ?thesis
    using ok o u c
    by (auto simp: same_process_def table_ok_def new_handle_def file_step_def closed_def less_Suc_eq)
qed

context mounted
begin

lemma coherent_step: "coherent E docs cached s \<Longrightarrow> calm docs cached (world s) (world s') \<Longrightarrow>
   coherent E docs cached s'"
  using coherent_calm [of s "world s'"] coherent_world [where s = s' and t = s and w = "world s'"] by simp

lemma load_run:
  fixes s :: "('w, 'x) fuse_state_scheme"
  assumes p: "p = configure_path (config E) q" and np: "\<not> is_proc (config E) p" and ok: "table_ok s"
    and d: "newest p (docs (world s)) = Some d" and co: "coherent E docs cached s"
    and len: "sound_length d" "d_length d < 2 ^ 31" and wf: "wf_docs (docs (world s))"
    and r: "0 \<le> off" "0 \<le> sz" "off + sz < 2 ^ 63"
  shows "\<exists>s'. load E q sz off s = (Ret (take (nat sz) (drop (nat off) (doc_content d))), s') \<and>
    docs (world s') = docs (world s) \<and> same_process s s' \<and> coherent E docs cached s'"
proof -
  let ?fh = "next_addr s"
  have fh: "?fh \<noteq> 0" using ok by (simp add: table_ok_def)
  have cs: "0 < d_chunk d" "d_chunk d < 2 ^ 31"
    using wf newest_in [OF d] by (auto simp: wf_docs_def)
  obtain f s1 where 1: "gridfs_open E q 0 s = (Ret (0, ?fh), s1)" "new_handle ?fh f s s1"
    "calm docs cached (world s) (world s1)" "reader_ok (docs (world s1)) d f" "writer_ok f"
    "\<not> theHasChanges f"
    using open_run [OF p np d] by blast
  have o1: "objects s1 ?fh = Some (FILE f)" using 1(2) by (simp add: new_handle_def)
  let ?bs = "take (nat sz) (drop (nat off) (doc_content d))"
  obtain f2 s2 where 2: "gridfs_read E sz off ?fh s1 = (Ret (int (length ?bs), ?bs), s2)"
    "file_step docs cached ?fh f2 s1 s2" "writer_part f2 = writer_part f"
    using read_run [OF fh o1 1(4) len cs r] by blast
  have clean: "\<not> theHasChanges f2" using 2(3) 1(6) by (simp add: writer_part_def)
  have o2: "objects s2 ?fh = Some (FILE f2)" using 2(2) by (simp add: file_step_def)
  let ?s3 = "destroy_handle ?fh s2"
  have 3: "gridfs_release E q ?fh s2 = (Ret 0, ?s3)" by (rule release_clean_run [OF fh o2 clean])
  note cl = destroy_file_closed [OF o2]
  have w: "world ?s3 = world s2" by (rule cl(2))
  have calm: "calm docs cached (world s) (world ?s3)"
    unfolding w using calm_trans [OF 1(3)] 2(2) by (simp add: file_step_def)
  have "load E q sz off s = (Ret ?bs, ?s3)"
    using 1(1) 2(1) 3 by (simp add: load_def bind_run comp_simps)
  moreover have "same_process s ?s3" by (rule opened_used_closed [OF ok 1(2) 2(2) cl(1)])
  moreover have "coherent E docs cached ?s3" by (rule coherent_step [OF co calm])
  ultimately show ?thesis using calm by (auto simp: calm_def)
qed

text \<open>From an open file that nothing was written to: writing blocks and closing.\<close>

lemma write_back_run:
  fixes s :: "('w, 'x) fuse_state_scheme"
  assumes p: "p = configure_path (config E) q" and fh: "fh \<noteq> 0" "objects s fh = Some (FILE f)"
    and f: "writer_ok f" "written f = []" "\<not> theHasChanges f" "thePath f = p" "current (docs (world s)) f"
    and d: "newest p (docs (world s)) = Some d" and co: "coherent E docs cached s"
    and wf: "wf_docs (docs (world s))" and len: "length (concat blocks) < 2 ^ 31"
  shows "\<exists>f' s2 s3. bind (write_all (\<lambda>b off. gridfs_write E b off fh) 0 blocks)
      (\<lambda>_. gridfs_release E q fh) s = (Ret 0, s3) \<and>
    file_step docs cached fh f' s s2 \<and> closed fh s2 s3 \<and> coherent E docs cached s3 \<and>
    only_path p (docs (world s)) (docs (world s3)) \<and> wf_docs (docs (world s3)) \<and>
    (if blocks = [] then docs (world s3) = docs (world s)
     else \<exists>d'. newest p (docs (world s3)) = Some d' \<and>
       stored_doc p (d_type d) (concat blocks) (docs (world s)) d')"
proof -
  have room: "length (written f) + length (concat blocks) < 2 ^ 31" using len f(2) by simp
  obtain f2 s2 where 2: "write_all (\<lambda>b off. gridfs_write E b off fh)
      (int (length (written f))) blocks s = (Ret (), s2)"
    "file_step docs cached fh f2 s s2" "written f2 = written f @ concat blocks"
    "writer_ok f2" "theHasChanges f2 = (theHasChanges f \<or> blocks \<noteq> [])"
    "thePath f2 = thePath f" "theGridFile f2 = theGridFile f"
    using write_blocks_run [OF fh f(1) room] by blast
  have o2: "objects s2 fh = Some (FILE f2)" using 2(2) by (simp add: file_step_def)
  have docs2: "docs (world s2) = docs (world s)" using 2(2) by (simp add: file_step_def calm_def)
  have f2: "written f2 = concat blocks" "theHasChanges f2 = (blocks \<noteq> [])" "thePath f2 = p"
    "current (docs (world s2)) f2"
    using 2(3,5-7) f docs2 by (simp_all add: current_def)
  have co2: "coherent E docs cached s2"
    using coherent_step [OF co, of s2] 2(2) by (simp add: file_step_def)
  have run: "bind (write_all (\<lambda>b off. gridfs_write E b off fh) 0 blocks)
      (\<lambda>_. gridfs_release E q fh) s = gridfs_release E q fh s2"
    using 2(1) f(2) by (simp add: bind_run)
  show ?thesis
  proof (cases "blocks = []")
    case True
    then have "\<not> theHasChanges f2" using f2(2) by simp
    from release_clean_run [OF fh(1) o2 this]
    have r: "gridfs_release E q fh s2 = (Ret 0, destroy_handle fh s2)" .
    note cl = destroy_file_closed [OF o2]
    have "coherent E docs cached (destroy_handle fh s2)"
      using coherent_step [OF co2, of "destroy_handle fh s2"] cl(2) by (simp add: calm_def)
    moreover have "docs (world (destroy_handle fh s2)) = docs (world s)" using cl(2) docs2 by simp
    ultimately show ?thesis using run r 2(2) cl(1) wf True
      by (intro exI [of _ f2] exI [of _ s2] exI [of _ "destroy_handle fh s2"]) simp
  next
    case False
    then have changed: "theHasChanges f2" using f2(2) by simp
    have new2: "newest p (docs (world s2)) = Some d" using d docs2 by simp
    obtain d3 s3 where 3: "gridfs_release E q fh s2 = (Ret 0, s3)" "closed fh s2 s3"
      "docs (world s3) = docs (world s2) @ [d3]"
      "stored_doc p (d_type d) (written f2) (docs (world s2)) d3" "coherent E docs cached s3"
      using release_run [OF p fh(1) o2 f2(3) changed 2(4) f2(4) new2 co2] by blast
    have name3: "d_name d3 = p" using 3(4) by (simp add: stored_doc_def)
    have "wf_docs (docs (world s3))" using stored_doc_wf [OF _ 3(4)] wf docs2 3(3) by simp
    moreover have "newest p (docs (world s3)) = Some d3" using 3(3) name3 by (simp add: newest_snoc)
    moreover have "only_path p (docs (world s)) (docs (world s3))"
      using 3(3) docs2 name3 by (simp add: only_path_def newest_snoc)
    moreover have "stored_doc p (d_type d) (concat blocks) (docs (world s)) d3"
      using 3(4) f2(1) docs2 by simp
    ultimately show ?thesis using run 3(1,2,5) 2(2) False
      by (intro exI [of _ f2] exI [of _ s2] exI [of _ s3]) simp
  qed
qed

lemma save_run:
  fixes s :: "('w, 'x) fuse_state_scheme"
  assumes p: "p = configure_path (config E) q" and np: "\<not> is_proc (config E) p" and ok: "table_ok s"
    and d: "newest p (docs (world s)) = None" and co: "coherent E docs cached s"
    and wf: "wf_docs (docs (world s))" and len: "length (concat blocks) < 2 ^ 31"
  shows "\<exists>d ds s'. save E q mode blocks s = (Ret 0, s') \<and> newest p (docs (world s')) = Some d \<and>
    new_doc p (S_IFREG OR mode) (default_uid (config E)) (default_gid (config E)) (concat blocks) ds d \<and>
    only_path p (docs (world s)) (docs (world s')) \<and> wf_docs (docs (world s')) \<and>
    same_process s s' \<and> coherent E docs cached s'"
proof -
  let ?fh = "next_addr s" and ?mode = "S_IFREG OR mode"
  let ?uid = "default_uid (config E)" and ?gid = "default_gid (config E)"
  have fh: "?fh \<noteq> 0" using ok by (simp add: table_ok_def)
  obtain d1 s1 where 1: "gridfs_create E q mode s = (Ret (0, ?fh), s1)" "new_handle ?fh (fresh_file p) s s1"
    "docs (world s1) = docs (world s) @ [d1]" "new_doc p ?mode ?uid ?gid [] (docs (world s)) d1"
    "cached (world s1) \<subseteq>\<^sub>m cached (world s)"
    using create_run(1) [OF p np d] by blast
  have o1: "objects s1 ?fh = Some (FILE (fresh_file p))" using 1(2) by (simp add: new_handle_def)
  have name1: "d_name d1 = p" using 1(4) by (auto simp: new_doc_def stored_doc_def)
  have new1: "newest p (docs (world s1)) = Some d1" using 1(3) name1 by (simp add: newest_snoc)
  have only1: "only_path p (docs (world s)) (docs (world s1))" using 1(3) name1 by (simp add: only_path_snoc)
  have co1: "coherent E docs cached s1" by (rule coherent_added [OF co d only1 1(5)])
  have wf1: "wf_docs (docs (world s1))" using new_doc_wf [OF wf 1(4)] 1(3) by simp
  obtain f2 s2 s3 where 2: "bind (write_all (\<lambda>b off. gridfs_write E b off ?fh) 0 blocks)
      (\<lambda>_. gridfs_release E q ?fh) s1 = (Ret 0, s3)"
    "file_step docs cached ?fh f2 s1 s2" "closed ?fh s2 s3" "coherent E docs cached s3"
    "only_path p (docs (world s1)) (docs (world s3))" "wf_docs (docs (world s3))"
    "if blocks = [] then docs (world s3) = docs (world s1)
     else \<exists>d'. newest p (docs (world s3)) = Some d' \<and>
       stored_doc p (d_type d1) (concat blocks) (docs (world s1)) d'"
    using write_back_run [OF p fh o1 fresh_file_ok(1-5) new1 co1 wf1 len] by blast
  have "save E q mode blocks s = (Ret 0, s3)" using 1(1) 2(1) by (simp add: save_def bind_run)
  moreover have "same_process s s3" by (rule opened_used_closed [OF ok 1(2) 2(2,3)])
  moreover have "only_path p (docs (world s)) (docs (world s3))"
    using only1 2(5) by (simp add: only_path_def)
  moreover have "\<exists>d ds. newest p (docs (world s3)) = Some d \<and> new_doc p ?mode ?uid ?gid (concat blocks) ds d"
  proof (cases "blocks = []")
    case True
    with 2(7) new1 1(4) show ?thesis by auto
  next
    case False
    then obtain d' where "newest p (docs (world s3)) = Some d'"
      "stored_doc p (d_type d1) (concat blocks) (docs (world s1)) d'" using 2(7) by auto
    moreover from this(2) 1(4) have "new_doc p ?mode ?uid ?gid (concat blocks) (docs (world s1)) d'"
      by (auto simp: new_doc_def stored_doc_def)
    ultimately show ?thesis by blast
  qed
  ultimately show ?thesis using 2(4,6) by metis
qed

text \<open>The content of an existing file is replaced; its attributes stay, the time too.\<close>

lemma rewrite_run:
  fixes s :: "('w, 'x) fuse_state_scheme"
  assumes p: "p = configure_path (config E) q" and np: "\<not> is_proc (config E) p" and ok: "table_ok s"
    and d: "newest p (docs (world s)) = Some d" and co: "coherent E docs cached s"
    and wf: "wf_docs (docs (world s))" and len: "length (concat blocks) < 2 ^ 31"
  shows "\<exists>s'. rewrite E q blocks s = (Ret 0, s') \<and>
    (if blocks = [] then docs (world s') = docs (world s)
     else \<exists>d'. newest p (docs (world s')) = Some d' \<and>
       stored_doc p (d_type d) (concat blocks) (docs (world s)) d') \<and>
    only_path p (docs (world s)) (docs (world s')) \<and> wf_docs (docs (world s')) \<and>
    same_process s s' \<and> coherent E docs cached s'"
proof -
  let ?fh = "next_addr s"
  have fh: "?fh \<noteq> 0" using ok by (simp add: table_ok_def)
  obtain f s1 where 1: "gridfs_open E q 0 s = (Ret (0, ?fh), s1)" "new_handle ?fh f s s1"
    "calm docs cached (world s) (world s1)" "reader_ok (docs (world s1)) d f" "writer_ok f"
    "written f = []" "\<not> theHasChanges f" "thePath f = p"
    using open_run [OF p np d] by blast
  have o1: "objects s1 ?fh = Some (FILE f)" using 1(2) by (simp add: new_handle_def)
  have docs1: "docs (world s1) = docs (world s)" using 1(3) by (simp add: calm_def)
  have cur: "current (docs (world s1)) f" using 1(4) by (simp add: reader_ok_def)
  have co1: "coherent E docs cached s1" by (rule coherent_step [OF co 1(3)])
  have d1: "newest p (docs (world s1)) = Some d" and wf1: "wf_docs (docs (world s1))"
    using d wf docs1 by simp_all
  obtain f2 s2 s3 where 2: "bind (write_all (\<lambda>b off. gridfs_write E b off ?fh) 0 blocks)
      (\<lambda>_. gridfs_release E q ?fh) s1 = (Ret 0, s3)"
    "file_step docs cached ?fh f2 s1 s2" "closed ?fh s2 s3" "coherent E docs cached s3"
    "only_path p (docs (world s1)) (docs (world s3))" "wf_docs (docs (world s3))"
    "if blocks = [] then docs (world s3) = docs (world s1)
     else \<exists>d'. newest p (docs (world s3)) = Some d' \<and>
       stored_doc p (d_type d) (concat blocks) (docs (world s1)) d'"
    using write_back_run [OF p fh o1 1(5,6,7,8) cur d1 co1 wf1 len] by blast
  have "rewrite E q blocks s = (Ret 0, s3)" using 1(1) 2(1) by (simp add: rewrite_def bind_run)
  moreover have "same_process s s3" by (rule opened_used_closed [OF ok 1(2) 2(2,3)])
  ultimately show ?thesis using 2(4-7) docs1 by auto
qed

end

end
