(* ===== verification/Abstract_Fs.thy ===== *)
theory Abstract_Fs
  imports Open_Files
begin

text \<open>
  What a user sees: a map from paths to nodes with attributes and a content. Each operation is
  a function on that map and the time of the clock. The locale \<open>relational\<close> lifts a refinement
  of single operations to sequences of them, \<open>simulation\<close> is its case of an abstraction function;
  theories Refinement and Shared_Dirs interpret them on the callbacks.
\<close>

section \<open>Nodes\<close>

record node =
  n_mode :: u32
  n_uid :: u32
  n_gid :: u32
  n_time :: int
  n_content :: bytes

type_synonym afs = "string \<rightharpoonup> node"

definition attributes :: "node \<Rightarrow> stat_buf" where
  "attributes n = \<lparr>st_mode = n_mode n, st_nlink = (if n_mode n AND S_IFDIR \<noteq> 0 then 2 else 1),
     st_uid = n_uid n, st_gid = n_gid n,
     st_size = (if n_mode n AND S_IFDIR \<noteq> 0 then 4096 else int (length (n_content n))),
     st_atime = Some (n_time n), st_mtime = Some (n_time n), st_ctime = Some (n_time n)\<rparr>"

definition made :: "gridfs_config \<Rightarrow> int \<Rightarrow> u32 \<Rightarrow> bytes \<Rightarrow> node" where
  "made c t mode content = \<lparr>n_mode = mode, n_uid = default_uid c, n_gid = default_gid c,
     n_time = t, n_content = content\<rparr>"

text \<open>The names of the entries of a directory.\<close>

definition entries :: "afs \<Rightarrow> string \<Rightarrow> string set" where
  "entries fs p = {nm. CHR ''/'' \<notin> set nm \<and> fs (p @ ''/'' @ nm) \<noteq> None}"

lemma entry_path: "q = p @ ''/'' @ nm \<longleftrightarrow> take (length p + 1) q = p @ ''/'' \<and> drop (length p + 1) q = nm"
  by (metis append.assoc append_eq_conv_conj append_take_drop_id length_append length_Cons list.size(3) One_nat_def)

lemma entries_upd:
  "entries (fs(q := x)) p = (if take (length p + 1) q = p @ ''/'' \<and> CHR ''/'' \<notin> set (drop (length p + 1) q)
     then (if x = None then entries fs p - {drop (length p + 1) q} else insert (drop (length p + 1) q) (entries fs p))
     else entries fs p)"
proof (cases "take (length p + 1) q = p @ ''/''")
  case True
  then have "q = p @ ''/'' @ drop (length p + 1) q" using entry_path by blast
  then obtain nm where q: "q = p @ ''/'' @ nm" ..
  show ?thesis unfolding q by (auto simp: entries_def)
next
  case False
  then show ?thesis using entry_path [of q p] by (auto simp: entries_def)
qed

text \<open>Paths are C strings.\<close>

definition c_paths :: "afs \<Rightarrow> bool" where
  "c_paths fs \<longleftrightarrow> (\<forall>q. fs q \<noteq> None \<longrightarrow> CHR 0x00 \<notin> set q)"

lemma c_paths_upd: "c_paths fs \<Longrightarrow> x = None \<or> CHR 0x00 \<notin> set q \<Longrightarrow> c_paths (fs(q := x))"
  by (auto simp: c_paths_def)

definition has_entries :: "afs \<Rightarrow> string \<Rightarrow> bool" where
  "has_entries fs p \<longleftrightarrow> entries fs p \<noteq> {}"

section \<open>Operations\<close>

text \<open>
  A request of the kernel that names a path, or one of the three ways a program uses a file:
  create it with a content, write a new content, read a piece.
\<close>

datatype operation =
    Call request
  | Save string u32 "bytes list"
  | Rewrite string "bytes list"
  | Load string int int

type_synonym reply = "int \<times> payload"

definition on_node :: "afs \<Rightarrow> string \<Rightarrow> (node \<Rightarrow> reply \<times> afs) \<Rightarrow> reply \<times> afs" where
  "on_node fs p g = (case fs p of None \<Rightarrow> ((- ENOENT, Nothing), fs) | Some n \<Rightarrow> g n)"

fun fs_apply :: "gridfs_config \<Rightarrow> int \<Rightarrow> operation \<Rightarrow> afs \<Rightarrow> reply \<times> afs" where
  "fs_apply c t (Call (Getattr q)) fs =
     on_node fs (configure_path c q) (\<lambda>n. ((0, Attributes (attributes n)), fs))"
| "fs_apply c t (Call (Mkdir q mode)) fs =
     ((0, Nothing), fs(configure_path c q \<mapsto> made c t (S_IFDIR OR mode) []))"
| "fs_apply c t (Call (Rmdir q)) fs = on_node fs (configure_path c q) (\<lambda>n.
     if has_entries fs (configure_path c q) then ((- ENOTEMPTY, Nothing), fs)
     else ((0, Nothing), fs(configure_path c q := None)))"
| "fs_apply c t (Call (Unlink q)) fs = on_node fs (configure_path c q) (\<lambda>n.
     ((0, Nothing), fs(configure_path c q := None)))"
| "fs_apply c t (Call (Chmod q mode)) fs = on_node fs (configure_path c q) (\<lambda>n.
     ((0, Nothing), fs(configure_path c q \<mapsto> n\<lparr>n_mode := mode\<rparr>)))"
| "fs_apply c t (Call (Chown q uid gid)) fs = on_node fs (configure_path c q) (\<lambda>n.
     ((0, Nothing), fs(configure_path c q \<mapsto> n\<lparr>n_uid := uid, n_gid := gid\<rparr>)))"
| "fs_apply c t (Call (Utimens q time)) fs = on_node fs (configure_path c q) (\<lambda>n.
     ((0, Nothing), fs(configure_path c q \<mapsto> n\<lparr>n_time := time\<rparr>)))"
| "fs_apply c t (Call (Truncate q off)) fs = on_node fs (configure_path c q) (\<lambda>n.
     if off = 0 then ((0, Nothing), fs(configure_path c q \<mapsto> n\<lparr>n_content := []\<rparr>))
     else ((- EIO, Nothing), fs))"
| "fs_apply c t (Call (Link target q)) fs = (case fs (configure_path c q) of
     Some n \<Rightarrow> ((- EEXIST, Nothing), fs)
   | None \<Rightarrow> ((0, Nothing), fs(configure_path c q \<mapsto> made c t (S_IFLNK OR 0x1FF) target)))"
| "fs_apply c t (Call (Readlink q sz)) fs = on_node fs (configure_path c q) (\<lambda>n.
     ((0, Target (take (nat (sz - 1)) (n_content n) @ [CHR 0x00])), fs))"
| "fs_apply c t (Save q mode blocks) fs =
     ((0, Nothing), fs(configure_path c q \<mapsto> made c t (S_IFREG OR mode) (concat blocks)))"
| "fs_apply c t (Rewrite q blocks) fs = on_node fs (configure_path c q) (\<lambda>n.
     ((0, Nothing), if blocks = [] then fs
       else fs(configure_path c q \<mapsto> n\<lparr>n_content := concat blocks\<rparr>)))"
| "fs_apply c t (Load q sz off) fs = on_node fs (configure_path c q) (\<lambda>n.
     ((0, Content (take (nat sz) (drop (nat off) (n_content n)))), fs))"
| "fs_apply c t (Call req) fs = ((0, Nothing), fs)"

text \<open>
  Where the callbacks keep to this: paths outside \<open>/proc\<close>; \<open>mkdir\<close> and \<open>create\<close> of a path that
  is free; \<open>rmdir\<close> of a path without an opening brace; times of 32 bits; contents below
  \<open>2 ^ 31\<close> bytes; links that are not empty.
\<close>

definition outside_proc :: "gridfs_config \<Rightarrow> string \<Rightarrow> bool" where
  "outside_proc c q \<longleftrightarrow> \<not> is_proc c (configure_path c q)"

fun allowed :: "gridfs_config \<Rightarrow> afs \<Rightarrow> operation \<Rightarrow> bool" where
  "allowed c fs (Call (Getattr q)) \<longleftrightarrow> outside_proc c q"
| "allowed c fs (Call (Mkdir q mode)) \<longleftrightarrow> fs (configure_path c q) = None"
| "allowed c fs (Call (Rmdir q)) \<longleftrightarrow> CHR ''{'' \<notin> set (configure_path c q)"
| "allowed c fs (Call (Unlink q)) \<longleftrightarrow> True"
| "allowed c fs (Call (Chmod q mode)) \<longleftrightarrow> True"
| "allowed c fs (Call (Chown q uid gid)) \<longleftrightarrow> True"
| "allowed c fs (Call (Utimens q time)) \<longleftrightarrow> outside_proc c q \<and> time_fits time"
| "allowed c fs (Call (Truncate q off)) \<longleftrightarrow> True"
| "allowed c fs (Call (Link target q)) \<longleftrightarrow> length target < 2 ^ 31"
| "allowed c fs (Call (Readlink q sz)) \<longleftrightarrow> 0 < sz \<and> sz < 2 ^ 64 \<and>
     (\<forall>n. fs (configure_path c q) = Some n \<longrightarrow> n_content n \<noteq> [])"
| "allowed c fs (Save q mode blocks) \<longleftrightarrow> outside_proc c q \<and> fs (configure_path c q) = None \<and>
     length (concat blocks) < 2 ^ 31"
| "allowed c fs (Rewrite q blocks) \<longleftrightarrow> outside_proc c q \<and> fs (configure_path c q) \<noteq> None \<and>
     length (concat blocks) < 2 ^ 31"
| "allowed c fs (Load q sz off) \<longleftrightarrow> outside_proc c q \<and> fs (configure_path c q) \<noteq> None \<and>
     0 \<le> off \<and> 0 \<le> sz \<and> off + sz < 2 ^ 63"
| "allowed c fs (Call req) \<longleftrightarrow> False"

text \<open>The path that an operation is about: no other one changes.\<close>

fun target_path :: "operation \<Rightarrow> string" where
  "target_path (Call (Getattr q)) = q"
| "target_path (Call (Mkdir q mode)) = q"
| "target_path (Call (Rmdir q)) = q"
| "target_path (Call (Unlink q)) = q"
| "target_path (Call (Chmod q mode)) = q"
| "target_path (Call (Chown q uid gid)) = q"
| "target_path (Call (Utimens q time)) = q"
| "target_path (Call (Truncate q off)) = q"
| "target_path (Call (Link target q)) = q"
| "target_path (Call (Readlink q sz)) = q"
| "target_path (Save q mode blocks) = q"
| "target_path (Rewrite q blocks) = q"
| "target_path (Load q sz off) = q"
| "target_path (Call req) = []"

lemma fs_apply_frame:
  "p \<noteq> configure_path c (target_path op) \<Longrightarrow> snd (fs_apply c t op fs) p = fs p"
  by (induction c t op fs rule: fs_apply.induct) (simp_all add: on_node_def split: option.split)

text \<open>Operations that only look change nothing, nor do those that answer an error.\<close>

fun looks :: "operation \<Rightarrow> bool" where
  "looks (Call (Getattr q)) = True"
| "looks (Call (Readlink q sz)) = True"
| "looks (Load q sz off) = True"
| "looks op = False"

lemma fs_apply_quiet:
  "fst (fst (fs_apply c t op fs)) \<noteq> 0 \<or> looks op \<Longrightarrow> snd (fs_apply c t op fs) = fs"
  by (induction c t op fs rule: fs_apply.induct) (auto simp: on_node_def split: option.splits if_splits)

section \<open>Sequences\<close>

inductive behaves ::
  "('t \<Rightarrow> bool) \<Rightarrow> ('t \<Rightarrow> 'op \<Rightarrow> 'a \<Rightarrow> 'r \<times> 'a) \<Rightarrow> 'a \<Rightarrow> 'op list \<Rightarrow> 'r list \<Rightarrow> 'a \<Rightarrow> bool"
  for ok app where
    Done: "behaves ok app a [] [] a"
  | More: "\<lbrakk>ok t; app t op a = (r, a'); behaves ok app a' ops rs a''\<rbrakk> \<Longrightarrow>
      behaves ok app a (op # ops) (r # rs) a''"

inductive_simps behaves_Nil [simp]: "behaves ok app a [] rs a'"
inductive_simps behaves_Cons: "behaves ok app a (op # ops) rs a''"

lemma behaves_ConsD: "behaves ok app a (op # ops) rs a'' \<Longrightarrow> \<exists>t rs'. ok t \<and>
    rs = fst (app t op a) # rs' \<and> behaves ok app (snd (app t op a)) ops rs' a''"
  by (fastforce simp: behaves_Cons)

text \<open>The client keeps to the protocol, whatever the clock says.\<close>

fun keeps_to :: "('a \<Rightarrow> 'op \<Rightarrow> bool) \<Rightarrow> ('t \<Rightarrow> bool) \<Rightarrow> ('t \<Rightarrow> 'op \<Rightarrow> 'a \<Rightarrow> 'r \<times> 'a) \<Rightarrow> 'a \<Rightarrow> 'op list \<Rightarrow> bool" where
  "keeps_to may ok app a [] = True"
| "keeps_to may ok app a (op # ops) \<longleftrightarrow>
     may a op \<and> (\<forall>t. ok t \<longrightarrow> keeps_to may ok app (snd (app t op a)) ops)"

text \<open>
  The interface of a refinement: whatever the client may ask, the program answers as the
  abstract system does for some choice of the outside, and their states stay related.
\<close>

locale relational =
  fixes perform :: "'op \<Rightarrow> ('s, 'r) comp"
    and app :: "'t \<Rightarrow> 'op \<Rightarrow> 'a \<Rightarrow> 'r \<times> 'a"
    and ok :: "'t \<Rightarrow> bool"
    and may :: "'a \<Rightarrow> 'op \<Rightarrow> bool"
    and rel :: "'s \<Rightarrow> 'a \<Rightarrow> bool"
  assumes answer: "rel s a \<Longrightarrow> may a op \<Longrightarrow>
      \<exists>t r s' a'. ok t \<and> perform op s = (Ret r, s') \<and> app t op a = (r, a') \<and> rel s' a'"
begin

lemma related_trace:
  "rel s a \<Longrightarrow> keeps_to may ok app a ops \<Longrightarrow>
   \<exists>rs s' a'. perform_all perform ops s = (Ret rs, s') \<and> behaves ok app a ops rs a' \<and> rel s' a'"
proof (induction ops arbitrary: s a)
  case Nil
  then show ?case by (auto simp: comp_simps)
next
  case (Cons op ops)
  obtain t r s1 a1 where 1: "ok t" "perform op s = (Ret r, s1)" "app t op a = (r, a1)" "rel s1 a1"
    using answer Cons.prems by fastforce
  have "keeps_to may ok app a1 ops" using Cons.prems(2) 1(1,3) by fastforce
  from Cons.IH [OF 1(4) this] obtain rs s2 a2 where 2: "perform_all perform ops s1 = (Ret rs, s2)"
    "behaves ok app a1 ops rs a2" "rel s2 a2" by blast
  have "perform_all perform (op # ops) s = (Ret (r # rs), s2)"
    using 1(2) 2(1) by (simp add: bind_run comp_simps)
  with behaves.More [OF 1(1,3) 2(2)] 2(3) show ?case by blast
qed

end

text \<open>The case of a function from the states of the program to the abstract ones.\<close>

locale simulation =
  fixes perform :: "'op \<Rightarrow> ('s, 'r) comp"
    and app :: "'t \<Rightarrow> 'op \<Rightarrow> 'a \<Rightarrow> 'r \<times> 'a"
    and ok :: "'t \<Rightarrow> bool"
    and may :: "'a \<Rightarrow> 'op \<Rightarrow> bool"
    and abs_of :: "'s \<Rightarrow> 'a"
    and inv :: "'s \<Rightarrow> bool"
    and same :: "'s \<Rightarrow> 's \<Rightarrow> bool"
  assumes step: "inv s \<Longrightarrow> may (abs_of s) op \<Longrightarrow>
      \<exists>t r s'. ok t \<and> perform op s = (Ret r, s') \<and> app t op (abs_of s) = (r, abs_of s') \<and>
        inv s' \<and> same s s'"
    and same_refl: "inv s \<Longrightarrow> same s s"
    and same_trans: "same s s' \<Longrightarrow> same s' s'' \<Longrightarrow> same s s''"
begin

sublocale above: relational perform app ok may "\<lambda>s a. inv s \<and> a = abs_of s \<and> same s0 s" for s0
  using step same_trans by unfold_locales blast

lemma trace:
  assumes "inv s" "keeps_to may ok app (abs_of s) ops"
  shows "\<exists>rs s'. perform_all perform ops s = (Ret rs, s') \<and> behaves ok app (abs_of s) ops rs (abs_of s') \<and>
    inv s' \<and> same s s'"
  using above.related_trace [of s "abs_of s" s ops] assms same_refl by blast

end

end
