(* ===== verification/Refinement.thy ===== *)
theory Refinement
  imports Abstract_Fs
begin

text \<open>
  The callbacks implement the file system of theory Abstract_Fs: the map of nodes is read off
  the newest documents. What keeps the two together is that the cache is right, that the newest
  document of each path has attributes that can be read, and that a length is either 0, as
  \<open>truncate\<close> sets it, or that of the stored content.
\<close>

section \<open>The file system in the documents\<close>

definition node_of :: "gridfs_config \<Rightarrow> doc \<Rightarrow> node option" where
  "node_of c d = (case parse_content_type c (d_type d) of
     Ret a \<Rightarrow> map_option (\<lambda>t. \<lparr>n_mode = at_mode a, n_uid = at_uid a, n_gid = at_gid a, n_time = t,
       n_content = doc_content d\<rparr>) (at_time a)
   | _ \<Rightarrow> None)"

definition fs_of :: "gridfs_config \<Rightarrow> doc list \<Rightarrow> afs" where
  "fs_of c ds p = Option.bind (newest p ds) (node_of c)"

definition managed_doc :: "gridfs_config \<Rightarrow> doc \<Rightarrow> bool" where
  "managed_doc c d \<longleftrightarrow> (\<exists>n. node_of c d = Some n \<and> time_fits (n_time n)) \<and>
     (d_length d = 0 \<or> d_length d = int (length (d_data d))) \<and> length (d_data d) < 2 ^ 31"

definition managed :: "gridfs_config \<Rightarrow> doc list \<Rightarrow> bool" where
  "managed c ds \<longleftrightarrow> wf_docs ds \<and> (\<forall>p d. newest p ds = Some d \<longrightarrow> managed_doc c d)"

lemma node_of_attrs:
  assumes "parse_content_type c (d_type d) = Ret a" "at_time a = Some t"
  shows "node_of c d = Some \<lparr>n_mode = at_mode a, n_uid = at_uid a, n_gid = at_gid a, n_time = t,
    n_content = doc_content d\<rparr>"
  using assms by (simp add: node_of_def)

lemma node_of_SomeE:
  assumes "node_of c d = Some n"
  obtains a t where "parse_content_type c (d_type d) = Ret a" "at_time a = Some t"
    "n = \<lparr>n_mode = at_mode a, n_uid = at_uid a, n_gid = at_gid a, n_time = t, n_content = doc_content d\<rparr>"
  using assms by (auto simp: node_of_def split: outcome.splits)

lemma managed_sound: "managed_doc c d \<Longrightarrow> sound_length d \<and> d_length d < 2 ^ 31"
  by (auto simp: managed_doc_def sound_length_def)

lemma managed_stat:
  assumes "managed_doc c d" "node_of c d = Some n"
  shows "stat_of_doc c d = Ret (attributes n)"
proof -
  have "sound_length d" "d_length d < 2 ^ 31" using managed_sound [OF assms(1)] by simp_all
  then have "c_off_t (d_length d) = int (length (doc_content d))"
    by (auto simp: sound_length_def doc_content_def c_off_t_id min_def)
  then show ?thesis using assms(2)
    by (auto simp: stat_of_doc_def attributes_def elim!: node_of_SomeE)
qed

lemma managed_newest:
  assumes "managed c ds"
  obtains "newest p ds = None" "fs_of c ds p = None"
  | d n where "newest p ds = Some d" "fs_of c ds p = Some n" "node_of c d = Some n" "managed_doc c d"
      "time_fits (n_time n)"
proof (cases "newest p ds")
  case None
  with that(1) show thesis by (simp add: fs_of_def)
next
  case (Some d)
  then have m: "managed_doc c d" using assms by (simp add: managed_def)
  then obtain n where "node_of c d = Some n" "time_fits (n_time n)" by (auto simp: managed_doc_def)
  with Some m that(2) show thesis by (simp add: fs_of_def)
qed

lemma managed_free: "managed c ds \<Longrightarrow> newest p ds = None \<longleftrightarrow> fs_of c ds p = None"
  by (rule managed_newest [of c ds p]) auto

lemma managed_entries:
  assumes "managed c ds"
  shows "children p ds = entries (fs_of c ds) p"
proof -
  have "children p ds = {nm. CHR ''/'' \<notin> set nm \<and> newest (p @ ''/'' @ nm) ds \<noteq> None}"
    by (auto simp: children_def child_def newest_None_iff)
  then show ?thesis using managed_free [OF assms] by (simp add: entries_def)
qed

text \<open>One path gets a new node.\<close>

definition node_set :: "gridfs_config \<Rightarrow> string \<Rightarrow> node \<Rightarrow> doc list \<Rightarrow> doc list \<Rightarrow> bool" where
  "node_set c p n ds ds' \<longleftrightarrow> only_path p ds ds' \<and> wf_docs ds' \<and>
     (\<exists>d. newest p ds' = Some d \<and> node_of c d = Some n \<and> managed_doc c d)"

lemma node_set_fs:
  assumes "managed c ds" "node_set c p n ds ds'"
  shows "fs_of c ds' = (fs_of c ds)(p \<mapsto> n)" "managed c ds'"
proof -
  obtain d where d: "newest p ds' = Some d" "node_of c d = Some n" "managed_doc c d"
    using assms(2) by (auto simp: node_set_def)
  have other: "newest q ds' = newest q ds" if "q \<noteq> p" for q
    using assms(2) that by (simp add: node_set_def only_path_def)
  show "fs_of c ds' = (fs_of c ds)(p \<mapsto> n)"
    using d other by (auto simp: fs_of_def fun_eq_iff)
  have "managed_doc c e" if "newest q ds' = Some e" for q e
    using that d other assms(1) by (cases "q = p") (auto simp: managed_def)
  then show "managed c ds'" using assms(2) by (simp add: managed_def node_set_def)
qed

lemma removed_fs:
  assumes "managed c ds"
  shows "fs_of c (filter (\<lambda>d. d_name d \<noteq> p) ds) = (fs_of c ds)(p := None)"
    "managed c (filter (\<lambda>d. d_name d \<noteq> p) ds)"
  using assms wf_docs_filter
  by (auto simp: fs_of_def fun_eq_iff newest_remove managed_def split: if_splits)

lemma new_doc_node:
  assumes "new_doc p mode uid gid content ds d" "length content < 2 ^ 31"
  obtains t where "node_of c d = Some \<lparr>n_mode = mode, n_uid = uid, n_gid = gid, n_time = t,
      n_content = content\<rparr>" "time_fits t" "managed_doc c d" "d_name d = p"
proof -
  obtain t where d: "- (2 ^ 63) \<le> t" "t < 2 ^ 63" "stored_doc p (print_content_type mode uid gid t) content ds d"
    using assms(1) by (auto simp: new_doc_def)
  have n: "node_of c d = Some \<lparr>n_mode = mode, n_uid = uid, n_gid = gid, n_time = c_int t, n_content = content\<rparr>"
    using parse_print_content_type [OF d(1,2), of c mode uid gid] stored_doc_content [OF d(3)] d(3)
    by (simp add: node_of_def stored_doc_def)
  moreover have "time_fits (c_int t)" using c_int_range [of t] by (simp add: time_fits_def)
  moreover have "managed_doc c d"
    using n calculation(2) d(3) assms(2) by (simp add: managed_doc_def stored_doc_def)
  ultimately show thesis using that d(3) by (simp add: stored_doc_def)
qed

text \<open>A stored content keeps the attributes of the document that was there.\<close>

lemma stored_doc_node:
  assumes "stored_doc p (d_type d) content ds d'" "node_of c d = Some n" "time_fits (n_time n)"
    and "length content < 2 ^ 31"
  shows "node_of c d' = Some (n\<lparr>n_content := content\<rparr>)" "managed_doc c d'"
proof -
  have "doc_content d' = content" "d_type d' = d_type d"
    using stored_doc_content [OF assms(1)] assms(1) by (simp_all add: stored_doc_def)
  then show *: "node_of c d' = Some (n\<lparr>n_content := content\<rparr>)"
    using assms(2) by (auto simp: node_of_def split: outcome.splits)
  then show "managed_doc c d'" using assms(1,3,4) by (simp add: managed_doc_def stored_doc_def)
qed

section \<open>The callbacks as operations\<close>

definition perform ::
  "'w env \<Rightarrow> (string \<Rightarrow> 'w \<Rightarrow> 'w) \<Rightarrow> operation \<Rightarrow> ('w, 'x, reply) callback" where
  "perform E filler op = (case op of
     Call req \<Rightarrow> serve E filler req
   | Save q mode blocks \<Rightarrow> no_payload (save E q mode blocks)
   | Rewrite q blocks \<Rightarrow> no_payload (rewrite E q blocks)
   | Load q sz off \<Rightarrow> bind (load E q sz off) (\<lambda>bs. ret (0, Content bs)))"

lemma same_process_refl: "table_ok s \<Longrightarrow> same_process s s"
  by (simp add: same_process_def)

lemma same_process_world: "table_ok s \<Longrightarrow> same_process s (s\<lparr>world := w\<rparr>)"
  by (simp add: same_process_def table_ok_def)

lemma same_process_trans: "same_process s s' \<Longrightarrow> same_process s' s'' \<Longrightarrow> same_process s s''"
  by (simp add: same_process_def)

lemma no_payload_run: "m s = (Ret n, s') \<Longrightarrow> no_payload m s = (Ret (n, Nothing), s')"
  by (simp add: no_payload_def bind_run comp_simps)

lemma optional_run:
  "m s = (Ret (n, Some y), s') \<Longrightarrow> optional pl m s = (Ret (n, pl y), s')"
  "m s = (Ret (n, None), s') \<Longrightarrow> optional pl m s = (Ret (n, Nothing), s')"
  by (simp_all add: optional_def bind_run comp_simps)

context mounted
begin

definition mount_ok :: "('w, 'x) fuse_state_scheme \<Rightarrow> bool" where
  "mount_ok s \<longleftrightarrow> coherent E docs cached s \<and> managed (config E) (docs (world s)) \<and> table_ok s"

definition fs :: "('w, 'x) process_scheme \<Rightarrow> afs" where
  "fs s = fs_of (config E) (docs (world s))"

text \<open>What a callback did, in the terms of the map.\<close>

text \<open>
  The documents of other paths stay as they are; so does the newest document of the path where the
  operation only looks or answers an error.
\<close>

definition untouched :: "operation \<Rightarrow> reply \<Rightarrow> doc list \<Rightarrow> doc list \<Rightarrow> bool" where
  "untouched op r ds ds' \<longleftrightarrow> only_path (configure_path (config E) (target_path op)) ds ds' \<and>
     (fst r \<noteq> 0 \<or> looks op \<longrightarrow> (\<forall>q. newest q ds' = newest q ds))"

definition simulated ::
  "operation \<Rightarrow> ('w, 'x) fuse_state_scheme \<Rightarrow> reply \<Rightarrow> ('w, 'x) fuse_state_scheme \<Rightarrow> bool" where
  "simulated op s r s' \<longleftrightarrow> (\<exists>t. time_fits t \<and> fs_apply (config E) t op (fs s) = (r, fs s')) \<and>
     mount_ok s' \<and> same_process s s' \<and> untouched op r (docs (world s)) (docs (world s'))"

lemma some_time: "time_fits 0"
  by (simp add: time_fits_def)

lemma simulated_same:
  assumes "mount_ok s" "fs_apply (config E) 0 op (fs s) = (r, fs s)"
    and "docs (world s') = docs (world s)" "coherent E docs cached s'" "same_process s s'"
  shows "simulated op s r s'"
  using assms some_time by (auto simp: simulated_def mount_ok_def fs_def same_process_def untouched_def)

lemma simulated_set:
  assumes "mount_ok s" "fs_apply (config E) t op (fs s) = (r, (fs s)(p \<mapsto> n))" "time_fits t"
    and "node_set (config E) p n (docs (world s)) (docs (world s'))"
    and "coherent E docs cached s'" "same_process s s'"
    and "p = configure_path (config E) (target_path op)" "fst r = 0" "\<not> looks op"
  shows "simulated op s r s'"
  using assms node_set_fs [of "config E" "docs (world s)" p n "docs (world s')"]
  by (auto simp: simulated_def mount_ok_def fs_def same_process_def untouched_def node_set_def)

lemma simulated_removed:
  assumes ok: "mount_ok s" and op: "fs_apply (config E) 0 op (fs s) = (r, (fs s)(p := None))"
    and d: "docs (world s') = filter (\<lambda>d. d_name d \<noteq> p) (docs (world s))"
    and s': "coherent E docs cached s'" "same_process s s'"
    and p: "p = configure_path (config E) (target_path op)"
  shows "simulated op s r s'"
proof -
  have m: "managed (config E) (docs (world s))" using ok by (simp add: mount_ok_def)
  have "newest q (docs (world s')) = newest q (docs (world s))" if "fst r \<noteq> 0 \<or> looks op" for q
  proof -
    have "fs s p = None" using fs_apply_quiet [of "config E" 0 op "fs s"] op that by (metis fst_conv fun_upd_same snd_conv)
    then have "newest p (docs (world s)) = None" using managed_free [OF m] by (simp add: fs_def)
    then show ?thesis by (simp add: d newest_remove)
  qed
  then have "untouched op r (docs (world s)) (docs (world s'))"
    by (simp add: untouched_def p [symmetric] d only_path_filter)
  then show ?thesis
    using assms some_time removed_fs [OF m, of p] by (auto simp: simulated_def mount_ok_def fs_def same_process_def)
qed

section \<open>The simulation, operation by operation\<close>

text \<open>The callbacks that rewrite attributes.\<close>

definition renode :: "(attrs \<Rightarrow> attrs) \<Rightarrow> node \<Rightarrow> node" where
  "renode g n = (let a = g \<lparr>at_mode = n_mode n, at_uid = n_uid n, at_gid = n_gid n, at_time = Some (n_time n)\<rparr>
     in \<lparr>n_mode = at_mode a, n_uid = at_uid a, n_gid = at_gid a, n_time = the (at_time a),
          n_content = n_content n\<rparr>)"

lemma renode_simps:
  "renode (\<lambda>a. a\<lparr>at_mode := mode\<rparr>) n = n\<lparr>n_mode := mode\<rparr>"
  "renode (\<lambda>a. a\<lparr>at_uid := uid, at_gid := gid\<rparr>) n = n\<lparr>n_uid := uid, n_gid := gid\<rparr>"
  "renode (\<lambda>a. a\<lparr>at_time := Some time\<rparr>) n = n\<lparr>n_time := time\<rparr>"
  by (cases n; simp add: renode_def)+

lemma simulated_attrs:
  assumes ok: "mount_ok s" and n: "fs s p = Some n"
    and m: "changes_attrs m g" "builds ctor ob" "thePath ob = p" "theGridFile ob = None"
    and g: "\<And>a t. at_time a = Some t \<Longrightarrow> time_fits t \<Longrightarrow> \<exists>t'. at_time (g a) = Some t' \<and> time_fits t'"
    and op: "fs_apply (config E) 0 op (fs s) = ((0, Nothing), (fs s)(p \<mapsto> renode g n))"
    and path: "p = configure_path (config E) (target_path op)" "\<not> looks op"
  shows "\<exists>s'. change_callback p ctor m s = (Ret 0, s') \<and> simulated op s (0, Nothing) s'"
proof -
  have mg: "managed (config E) (docs (world s))" and co: "coherent E docs cached s" and t: "table_ok s"
    and wf: "wf_docs (docs (world s))"
    using ok by (simp_all add: mount_ok_def managed_def)
  obtain d where d: "newest p (docs (world s)) = Some d" "node_of (config E) d = Some n"
    "managed_doc (config E) d" "time_fits (n_time n)"
    by (rule managed_newest [OF mg, of p]) (use n in \<open>auto simp: fs_def\<close>)
  from d(2) obtain a t where a: "parse_content_type (config E) (d_type d) = Ret a" "at_time a = Some t"
    "n = \<lparr>n_mode = at_mode a, n_uid = at_uid a, n_gid = at_gid a, n_time = t, n_content = doc_content d\<rparr>"
    by (rule node_of_SomeE)
  then obtain t' where t': "at_time (g a) = Some t'" "time_fits t'" using g d(4) by auto
  obtain w ct where w: "change_callback p ctor m s = (Ret 0, s\<lparr>world := w\<rparr>)"
    "docs w = update_docs (d_id d) (SetContentType ct) (docs (world s))"
    "newest p (docs w) = Some (d\<lparr>d_type := ct\<rparr>)" "parse_content_type (config E) ct = Ret (g a)"
    "coherent E docs cached (s\<lparr>world := w\<rparr>)"
    using attrs_callback_docs [OF m co wf d(1) a(1) t'] by blast
  have "a = \<lparr>at_mode = n_mode n, at_uid = n_uid n, at_gid = n_gid n, at_time = Some (n_time n)\<rparr>"
    using a(2,3) by (cases a) simp
  then have r: "renode g n = \<lparr>n_mode = at_mode (g a), n_uid = at_uid (g a), n_gid = at_gid (g a),
      n_time = t', n_content = doc_content d\<rparr>"
    using a(3) t'(1) by (simp add: renode_def Let_def)
  have "node_of (config E) (d\<lparr>d_type := ct\<rparr>) = Some (renode g n)"
    using node_of_attrs [of "config E" "d\<lparr>d_type := ct\<rparr>", OF _ t'(1)] w(4) unfolding r
    by (simp add: doc_content_def)
  moreover from this have "managed_doc (config E) (d\<lparr>d_type := ct\<rparr>)"
    using d(3) t'(2) r by (simp add: managed_doc_def)
  ultimately have "node_set (config E) p (renode g n) (docs (world s)) (docs w)"
    using w(2,3) only_path_update [OF wf d(1)] wf_docs_update [OF wf] by (auto simp: node_set_def)
  then have "simulated op s (0, Nothing) (s\<lparr>world := w\<rparr>)"
    using w(5) same_process_world [OF t] path by (intro simulated_set [OF ok op some_time]) simp_all
  with w(1) show ?thesis by blast
qed

lemma simulated_missing:
  assumes ok: "mount_ok s" and n: "fs s p = None"
    and m: "builds ctor ob" "thePath ob = p" "theGridFile ob = None"
    and op: "fs_apply (config E) 0 op (fs s) = ((- ENOENT, Nothing), fs s)"
  shows "\<exists>s'. change_callback p ctor m s = (Ret (- ENOENT), s') \<and> simulated op s (- ENOENT, Nothing) s'"
proof -
  have "newest p (docs (world s)) = None"
    using ok n managed_free [of "config E" "docs (world s)" p] by (simp add: mount_ok_def fs_def)
  then obtain w where w: "change_callback p ctor m s = (Ret (- ENOENT), s\<lparr>world := w\<rparr>)"
    "calm docs cached (world s) w"
    using change_missing [OF m] by blast
  have "simulated op s (- ENOENT, Nothing) (s\<lparr>world := w\<rparr>)"
    using ok w(2) coherent_calm [of s w] same_process_world [of s]
    by (intro simulated_same [OF ok op]) (simp_all add: calm_def mount_ok_def)
  with w(1) show ?thesis by blast
qed

text \<open>Both cases together, for \<open>chmod\<close>, \<open>chown\<close> and \<open>utimens\<close>.\<close>

lemma serve_change:
  assumes call: "serve E filler req = no_payload (change_callback p ctor m)"
    and present: "\<And>n. fs s p = Some n \<Longrightarrow>
      \<exists>s'. change_callback p ctor m s = (Ret 0, s') \<and> simulated (Call req) s (0, Nothing) s'"
    and missing: "fs s p = None \<Longrightarrow>
      \<exists>s'. change_callback p ctor m s = (Ret (- ENOENT), s') \<and> simulated (Call req) s (- ENOENT, Nothing) s'"
  shows "\<exists>r s'. perform E filler (Call req) s = (Ret r, s') \<and> simulated (Call req) s r s'"
  using present missing
  by (cases "fs s p") (auto simp: perform_def call dest!: no_payload_run)

lemma chmod_simulated:
  assumes "mount_ok s"
  shows "\<exists>r s'. perform E filler (Call (Chmod q mode)) s = (Ret r, s') \<and> simulated (Call (Chmod q mode)) s r s'"
proof (rule serve_change)
  let ?p = "configure_path (config E) q"
  show "serve E filler (Chmod q mode) = no_payload (change_callback ?p (new_entry E ?p) (entry_chmod E mode))"
    by (simp add: serve_def change_callbacks)
  show "\<exists>s'. change_callback ?p (new_entry E ?p) (entry_chmod E mode) s = (Ret 0, s') \<and>
      simulated (Call (Chmod q mode)) s (0, Nothing) s'" if "fs s ?p = Some n" for n
    by (rule simulated_attrs [OF assms that entry_chmod_changes new_entry_builds])
      (use that in \<open>auto simp: on_node_def renode_simps\<close>)
  show "\<exists>s'. change_callback ?p (new_entry E ?p) (entry_chmod E mode) s = (Ret (- ENOENT), s') \<and>
      simulated (Call (Chmod q mode)) s (- ENOENT, Nothing) s'" if "fs s ?p = None"
    by (rule simulated_missing [OF assms that new_entry_builds]) (use that in \<open>simp_all add: on_node_def\<close>)
qed

lemma chown_simulated:
  assumes "mount_ok s"
  shows "\<exists>r s'. perform E filler (Call (Chown q uid gid)) s = (Ret r, s') \<and>
    simulated (Call (Chown q uid gid)) s r s'"
proof (rule serve_change)
  let ?p = "configure_path (config E) q"
  show "serve E filler (Chown q uid gid) = no_payload (change_callback ?p (new_entry E ?p) (entry_chown E uid gid))"
    by (simp add: serve_def change_callbacks)
  show "\<exists>s'. change_callback ?p (new_entry E ?p) (entry_chown E uid gid) s = (Ret 0, s') \<and>
      simulated (Call (Chown q uid gid)) s (0, Nothing) s'" if "fs s ?p = Some n" for n
    by (rule simulated_attrs [OF assms that entry_chown_changes new_entry_builds])
      (use that in \<open>auto simp: on_node_def renode_simps\<close>)
  show "\<exists>s'. change_callback ?p (new_entry E ?p) (entry_chown E uid gid) s = (Ret (- ENOENT), s') \<and>
      simulated (Call (Chown q uid gid)) s (- ENOENT, Nothing) s'" if "fs s ?p = None"
    by (rule simulated_missing [OF assms that new_entry_builds]) (use that in \<open>simp_all add: on_node_def\<close>)
qed

lemma utimens_simulated:
  assumes "mount_ok s" "outside_proc (config E) q" "time_fits time"
  shows "\<exists>r s'. perform E filler (Call (Utimens q time)) s = (Ret r, s') \<and>
    simulated (Call (Utimens q time)) s r s'"
proof (rule serve_change)
  let ?p = "configure_path (config E) q"
  have np: "\<not> is_proc (config E) ?p" using assms(2) by (simp add: outside_proc_def)
  show "serve E filler (Utimens q time) = no_payload (change_callback ?p (new_file E ?p) (entry_utimes E time))"
    using np by (simp add: serve_def change_callbacks)
  show "\<exists>s'. change_callback ?p (new_file E ?p) (entry_utimes E time) s = (Ret 0, s') \<and>
      simulated (Call (Utimens q time)) s (0, Nothing) s'" if "fs s ?p = Some n" for n
    by (rule simulated_attrs [OF assms(1) that entry_utimes_changes new_file_builds])
      (use that assms(3) in \<open>auto simp: on_node_def file_of_entry_def renode_simps\<close>)
  show "\<exists>s'. change_callback ?p (new_file E ?p) (entry_utimes E time) s = (Ret (- ENOENT), s') \<and>
      simulated (Call (Utimens q time)) s (- ENOENT, Nothing) s'" if "fs s ?p = None"
    by (rule simulated_missing [OF assms(1) that new_file_builds])
      (use that in \<open>simp_all add: on_node_def file_of_entry_def\<close>)
qed

text \<open>The callbacks that look.\<close>

lemma mount_okD:
  assumes "mount_ok s"
  shows "coherent E docs cached s" "managed (config E) (docs (world s))" "table_ok s"
    "wf_docs (docs (world s))"
  using assms by (simp_all add: mount_ok_def managed_def)

lemma fs_cases:
  assumes "mount_ok s"
  obtains "newest p (docs (world s)) = None" "fs s p = None"
  | d n where "newest p (docs (world s)) = Some d" "fs s p = Some n" "node_of (config E) d = Some n"
      "managed_doc (config E) d" "time_fits (n_time n)" "n_content n = doc_content d"
proof (rule managed_newest [OF mount_okD(2) [OF assms], of p])
  assume "newest p (docs (world s)) = None" "fs_of (config E) (docs (world s)) p = None"
  with that(1) show thesis by (simp add: fs_def)
next
  fix d n
  assume d: "newest p (docs (world s)) = Some d" "fs_of (config E) (docs (world s)) p = Some n"
    "node_of (config E) d = Some n" "managed_doc (config E) d" "time_fits (n_time n)"
  moreover from d(3) have "n_content n = doc_content d" by (rule node_of_SomeE) simp
  ultimately show thesis using that(2) by (simp add: fs_def)
qed

text \<open>Only the outside world moved.\<close>

lemma simulated_world:
  assumes "mount_ok s" "fs_apply (config E) 0 op (fs s) = (r, fs s)" "calm docs cached (world s) w"
  shows "simulated op s r (s\<lparr>world := w\<rparr>)"
  using assms mount_okD [OF assms(1)] coherent_calm [of s w] same_process_world [of s]
  by (intro simulated_same) (simp_all add: calm_def)

lemma getattr_simulated:
  assumes ok: "mount_ok s" and np: "outside_proc (config E) q"
  shows "\<exists>r s'. perform E filler (Call (Getattr q)) s = (Ret r, s') \<and> simulated (Call (Getattr q)) s r s'"
proof -
  let ?p = "configure_path (config E) q"
  have np': "\<not> is_proc (config E) ?p" using np by (simp add: outside_proc_def)
  note run = getattr_run [OF mount_okD(1) [OF ok] refl np', where ?st0.0 = zero_stat]
  have same: "simulated op s r (s\<lparr>world := w\<rparr>)"
    if "docs w = docs (world s)" "coherent E docs cached (s\<lparr>world := w\<rparr>)"
      "fs_apply (config E) 0 op (fs s) = (r, fs s)" for op r w
    using that same_process_world [OF mount_okD(3) [OF ok]] by (intro simulated_same [OF ok]) simp_all
  show ?thesis
  proof (rule fs_cases [OF ok, of ?p])
    assume "newest ?p (docs (world s)) = None" and n: "fs s ?p = None"
    then obtain w where w: "gridfs_getattr E q zero_stat s = (Ret (- ENOENT, None), s\<lparr>world := w\<rparr>)"
      "docs w = docs (world s)" "coherent E docs cached (s\<lparr>world := w\<rparr>)"
      using run(1) by blast
    have "simulated (Call (Getattr q)) s (- ENOENT, Nothing) (s\<lparr>world := w\<rparr>)"
      by (rule same [OF w(2,3)]) (simp add: on_node_def n)
    then show ?thesis using optional_run(2) [where m = "gridfs_getattr E q zero_stat", OF w(1)] by (auto simp: perform_def serve_def)
  next
    fix d n assume d: "newest ?p (docs (world s)) = Some d" and n: "fs s ?p = Some n"
      and "node_of (config E) d = Some n" "managed_doc (config E) d"
    then have "stat_of_doc (config E) d = Ret (attributes n)" by (intro managed_stat)
    then obtain w where w: "gridfs_getattr E q zero_stat s = (Ret (0, Some (attributes n)), s\<lparr>world := w\<rparr>)"
      "docs w = docs (world s)" "coherent E docs cached (s\<lparr>world := w\<rparr>)"
      using run(2) [OF d] by blast
    have "simulated (Call (Getattr q)) s (0, Attributes (attributes n)) (s\<lparr>world := w\<rparr>)"
      by (rule same [OF w(2,3)]) (simp add: on_node_def n)
    then show ?thesis using optional_run(1) [where m = "gridfs_getattr E q zero_stat", OF w(1)] by (auto simp: perform_def serve_def)
  qed
qed

lemma readlink_missing:
  fixes s :: "('w, 'x) fuse_state_scheme"
  assumes p: "p = configure_path (config E) q" and d: "newest p (docs (world s)) = None"
  shows "\<exists>w. gridfs_readlink E q sz s = (Ret (- ENOENT, None), s\<lparr>world := w\<rparr>) \<and>
    calm docs cached (world s) w"
proof -
  let ?e = "\<lparr>thePath = p, theGridFile = None\<rparr>" and ?t = "take_connection s"
  let ?body = "bind (entry_exists E) (\<lambda>ex. if \<not> ex then ret (- ENOENT, None)
    else bind (symlink_read E sz) (\<lambda>link. ret (0, Some link)))"
  have "\<exists>a w. local_object (new_entry E p) drop_connection ?body s = (Ret a, s\<lparr>world := w\<rparr>) \<and>
      (a = (- ENOENT, None) \<and> calm docs cached (world s) w)"
  proof (rule local_object_run [OF new_entry_builds])
    fix w assume w: "calm docs cached (world s) w"
    then have dw: "docs w = docs (world s)" by (simp add: calm_def)
    have "current (docs w) ?e" by (simp add: current_def)
    then obtain e1 w1 where 1: "entry_exists E (?e, ?t\<lparr>world := w\<rparr>) = (Ret False, (e1, ?t\<lparr>world := w1\<rparr>))"
      "calm docs cached w w1"
      by (rule entry_exists_world [where t = ?t]) (use d dw in simp)
    then show "\<exists>a ob' w'. ?body (?e, ?t\<lparr>world := w\<rparr>) = (Ret a, ob', ?t\<lparr>world := w'\<rparr>) \<and>
        a = (- ENOENT, None) \<and> calm docs cached (world s) w'"
      using calm_trans [OF w 1(2)] by (auto simp: bind_run comp_simps)
  qed
  then show ?thesis
    unfolding gridfs_readlink_def p [symmetric] Let_def by (auto simp: catch_with_def)
qed

lemma readlink_simulated:
  assumes ok: "mount_ok s" and sz: "0 < sz" "sz < 2 ^ 64"
    and full: "\<And>n. fs s (configure_path (config E) q) = Some n \<Longrightarrow> n_content n \<noteq> []"
  shows "\<exists>r s'. perform E filler (Call (Readlink q sz)) s = (Ret r, s') \<and>
    simulated (Call (Readlink q sz)) s r s'"
proof (rule fs_cases [OF ok, of "configure_path (config E) q"])
  let ?p = "configure_path (config E) q"
  assume d: "newest ?p (docs (world s)) = None" and n: "fs s ?p = None"
  obtain w where w: "gridfs_readlink E q sz s = (Ret (- ENOENT, None), s\<lparr>world := w\<rparr>)"
    "calm docs cached (world s) w"
    using readlink_missing [OF refl d] by blast
  have "simulated (Call (Readlink q sz)) s (- ENOENT, Nothing) (s\<lparr>world := w\<rparr>)"
    by (rule simulated_world [OF ok _ w(2)]) (simp add: on_node_def n)
  then show ?thesis using optional_run(2) [where m = "gridfs_readlink E q sz", OF w(1)] by (auto simp: perform_def serve_def)
next
  let ?p = "configure_path (config E) q"
  fix d n assume d: "newest ?p (docs (world s)) = Some d" and n: "fs s ?p = Some n"
    and m: "managed_doc (config E) d" and c: "n_content n = doc_content d"
  have "d_length d = int (length (d_data d))"
    using m full [OF n] c by (auto simp: managed_doc_def doc_content_def)
  moreover from this c have "d_data d = n_content n" by (simp add: doc_content_full)
  moreover have "d_length d < 2 ^ 64" using managed_sound [OF m] by simp
  ultimately obtain w where w: "gridfs_readlink E q sz s =
      (Ret (0, Some (take (nat (sz - 1)) (n_content n) @ [CHR 0x00])), s\<lparr>world := w\<rparr>)"
    "calm docs cached (world s) w"
    using readlink_run [OF refl d _ _ sz] by auto
  have "simulated (Call (Readlink q sz)) s
      (0, Target (take (nat (sz - 1)) (n_content n) @ [CHR 0x00])) (s\<lparr>world := w\<rparr>)"
    by (rule simulated_world [OF ok _ w(2)]) (simp add: on_node_def n)
  then show ?thesis using optional_run(1) [where m = "gridfs_readlink E q sz", OF w(1)] by (auto simp: perform_def serve_def)
qed

lemma load_simulated:
  assumes ok: "mount_ok s" and np: "outside_proc (config E) q"
    and n: "fs s (configure_path (config E) q) \<noteq> None" and r: "0 \<le> off" "0 \<le> sz" "off + sz < 2 ^ 63"
  shows "\<exists>r s'. perform E filler (Load q sz off) s = (Ret r, s') \<and> simulated (Load q sz off) s r s'"
proof (rule fs_cases [OF ok, of "configure_path (config E) q"])
  let ?p = "configure_path (config E) q"
  fix d n assume d: "newest ?p (docs (world s)) = Some d" and n: "fs s ?p = Some n"
    and m: "managed_doc (config E) d" and c: "n_content n = doc_content d"
  have np': "\<not> is_proc (config E) ?p" using np by (simp add: outside_proc_def)
  have "sound_length d" "d_length d < 2 ^ 31" using managed_sound [OF m] by simp_all
  then obtain s' where s': "load E q sz off s = (Ret (take (nat sz) (drop (nat off) (doc_content d))), s')"
    "docs (world s') = docs (world s)" "same_process s s'" "coherent E docs cached s'"
    using load_run [OF refl np' mount_okD(3) [OF ok] d mount_okD(1) [OF ok] _ _ mount_okD(4) [OF ok] r]
    by blast
  have "simulated (Load q sz off) s (0, Content (take (nat sz) (drop (nat off) (n_content n)))) s'"
    by (rule simulated_same [OF ok _ s'(2,4,3)]) (simp add: on_node_def n)
  then show ?thesis using s'(1) c by (auto simp: perform_def bind_run comp_simps)
qed (use n in simp)

text \<open>The callbacks that remove.\<close>

lemma unlink_simulated:
  assumes ok: "mount_ok s"
  shows "\<exists>r s'. perform E filler (Call (Unlink q)) s = (Ret r, s') \<and> simulated (Call (Unlink q)) s r s'"
proof -
  let ?p = "configure_path (config E) q"
  obtain w where w: "gridfs_unlink E q s =
      (Ret (if newest ?p (docs (world s)) = None then - ENOENT else 0), s\<lparr>world := w\<rparr>)"
    "docs w = filter (\<lambda>d. d_name d \<noteq> ?p) (docs (world s))" "coherent E docs cached (s\<lparr>world := w\<rparr>)"
    using unlink_run [OF refl mount_okD(1) [OF ok]] by blast
  have "simulated (Call (Unlink q)) s
      (if newest ?p (docs (world s)) = None then - ENOENT else 0, Nothing) (s\<lparr>world := w\<rparr>)"
    using w(2,3) same_process_world [OF mount_okD(3) [OF ok]]
    by (intro simulated_removed [OF ok, of _ _ ?p])
      (auto simp: on_node_def fun_upd_idem intro: fs_cases [OF ok, of ?p])
  then show ?thesis using no_payload_run [where m = "gridfs_unlink E q", OF w(1)] by (auto simp: perform_def serve_def)
qed

lemma rmdir_simulated:
  assumes ok: "mount_ok s" and brace: "CHR ''{'' \<notin> set (configure_path (config E) q)"
  shows "\<exists>r s'. perform E filler (Call (Rmdir q)) s = (Ret r, s') \<and> simulated (Call (Rmdir q)) s r s'"
proof -
  let ?p = "configure_path (config E) q" and ?op = "Call (Rmdir q)"
  let ?none = "newest ?p (docs (world s)) = None" and ?full = "children ?p (docs (world s)) \<noteq> {}"
  obtain w where w: "gridfs_rmdir E q s = (Ret (if ?none then - ENOENT else if ?full then - ENOTEMPTY else 0),
      s\<lparr>world := w\<rparr>)"
    "docs w = (if ?none \<or> ?full then docs (world s)
      else filter (\<lambda>d. d_name d \<noteq> ?p) (docs (world s)))" "coherent E docs cached (s\<lparr>world := w\<rparr>)"
    using rmdir_run [OF refl mount_okD(1) [OF ok] brace] by blast
  have full: "?full \<longleftrightarrow> has_entries (fs s) ?p"
    using managed_entries [OF mount_okD(2) [OF ok]] by (simp add: fs_def has_entries_def)
  have none: "?none \<longleftrightarrow> fs s ?p = None"
    using managed_free [OF mount_okD(2) [OF ok]] by (simp add: fs_def)
  note sp = same_process_world [OF mount_okD(3) [OF ok], of w]
  have "simulated ?op s (if ?none then - ENOENT else if ?full then - ENOTEMPTY else 0, Nothing)
      (s\<lparr>world := w\<rparr>)"
  proof (cases "?none \<or> ?full")
    case True
    then show ?thesis using w(2,3) sp full none
      by (intro simulated_same [OF ok]) (auto simp: on_node_def split: option.split)
  next
    case False
    then show ?thesis using w(2,3) sp full none
      by (intro simulated_removed [OF ok, of _ _ ?p]) (auto simp: on_node_def split: option.split)
  qed
  then show ?thesis using no_payload_run [where m = "gridfs_rmdir E q", OF w(1)] by (auto simp: perform_def serve_def)
qed

text \<open>The callbacks that make or change a document.\<close>

lemma new_doc_set:
  assumes "mount_ok s" "new_doc p mode (default_uid (config E)) (default_gid (config E)) content ds d"
    and "length content < 2 ^ 31" "newest p ds' = Some d" "only_path p (docs (world s)) ds'" "wf_docs ds'"
  obtains t where "time_fits t"
    "node_set (config E) p (made (config E) t mode content) (docs (world s)) ds'"
proof -
  obtain t where "node_of (config E) d = Some (made (config E) t mode content)" "time_fits t"
    "managed_doc (config E) d"
    using new_doc_node [OF assms(2,3), of "config E"] by (auto simp: made_def)
  with that assms(4-6) show thesis by (auto simp: node_set_def)
qed

lemma simulated_made:
  assumes ok: "mount_ok s" and free: "newest p (docs (world s)) = None"
    and d: "docs w = docs (world s) @ [d]"
      "new_doc p mode (default_uid (config E)) (default_gid (config E)) content (docs (world s)) d"
    and len: "length content < 2 ^ 31" and c: "cached w \<subseteq>\<^sub>m cached (world s)"
    and op: "\<And>t. fs_apply (config E) t op (fs s) = (r, (fs s)(p \<mapsto> made (config E) t mode content))"
      "p = configure_path (config E) (target_path op)" "fst r = 0" "\<not> looks op"
  shows "simulated op s r (s\<lparr>world := w\<rparr>)"
proof -
  have name: "d_name d = p" using d(2) by (auto simp: new_doc_def stored_doc_def)
  have only: "only_path p (docs (world s)) (docs w)" using d(1) name by (simp add: only_path_snoc)
  have "newest p (docs w) = Some d" using d(1) name by (simp add: newest_snoc)
  moreover have "wf_docs (docs w)" using new_doc_wf [OF mount_okD(4) [OF ok] d(2)] d(1) by simp
  ultimately obtain t where t: "time_fits t"
    "node_set (config E) p (made (config E) t mode content) (docs (world s)) (docs w)"
    using new_doc_set [OF ok d(2) len _ only] by blast
  have "coherent E docs cached (s\<lparr>world := w\<rparr>)"
    by (rule coherent_added [OF mount_okD(1) [OF ok] free]) (use only c in simp_all)
  then show ?thesis
    using t same_process_world [OF mount_okD(3) [OF ok]] by (intro simulated_set [OF ok op(1)]) (simp_all add: op(2) [symmetric] op(3,4))
qed

lemma fs_free: "mount_ok s \<Longrightarrow> newest p (docs (world s)) = None \<longleftrightarrow> fs s p = None"
  using managed_free [OF mount_okD(2)] by (simp add: fs_def)

lemma mkdir_simulated:
  assumes ok: "mount_ok s" and free: "fs s (configure_path (config E) q) = None"
  shows "\<exists>r s'. perform E filler (Call (Mkdir q mode)) s = (Ret r, s') \<and> simulated (Call (Mkdir q mode)) s r s'"
proof -
  let ?p = "configure_path (config E) q"
  obtain d w where w: "gridfs_mkdir E q mode s = (Ret 0, s\<lparr>world := w\<rparr>)" "docs w = docs (world s) @ [d]"
    "new_doc ?p (S_IFDIR OR mode) (default_uid (config E)) (default_gid (config E)) [] (docs (world s)) d"
    "cached w \<subseteq>\<^sub>m cached (world s)"
    using mkdir_run [OF refl, of q mode s] by blast
  have "simulated (Call (Mkdir q mode)) s (0, Nothing) (s\<lparr>world := w\<rparr>)"
    by (rule simulated_made [OF ok _ w(2,3) _ w(4)]) (use free fs_free [OF ok] in simp_all)
  then show ?thesis using no_payload_run [where m = "gridfs_mkdir E q mode", OF w(1)] by (auto simp: perform_def serve_def)
qed

lemma link_simulated:
  assumes ok: "mount_ok s" and len: "length target < 2 ^ 31"
  shows "\<exists>r s'. perform E filler (Call (Link target q)) s = (Ret r, s') \<and>
    simulated (Call (Link target q)) s r s'"
proof (rule fs_cases [OF ok, of "configure_path (config E) q"])
  let ?p = "configure_path (config E) q"
  assume d: "newest ?p (docs (world s)) = None" and n: "fs s ?p = None"
  obtain d w where w: "gridfs_symlink E target q s = (Ret 0, s\<lparr>world := w\<rparr>)" "docs w = docs (world s) @ [d]"
    "new_doc ?p (S_IFLNK OR 0x1FF) (default_uid (config E)) (default_gid (config E)) target (docs (world s)) d"
    "cached w \<subseteq>\<^sub>m cached (world s)"
    using symlink_run(2) [OF refl d] by blast
  have "simulated (Call (Link target q)) s (0, Nothing) (s\<lparr>world := w\<rparr>)"
    by (rule simulated_made [OF ok d w(2,3) len w(4)]) (simp_all add: n)
  then show ?thesis using no_payload_run [where m = "gridfs_symlink E target q", OF w(1)] by (auto simp: perform_def serve_def)
next
  let ?p = "configure_path (config E) q"
  fix d n assume d: "newest ?p (docs (world s)) = Some d" and n: "fs s ?p = Some n"
  obtain w where w: "gridfs_symlink E target q s = (Ret (- EEXIST), s\<lparr>world := w\<rparr>)"
    "calm docs cached (world s) w"
    using symlink_run(1) [OF refl, of q s target] d by auto
  have "simulated (Call (Link target q)) s (- EEXIST, Nothing) (s\<lparr>world := w\<rparr>)"
    by (rule simulated_world [OF ok _ w(2)]) (simp add: n)
  then show ?thesis
    using no_payload_run [where m = "gridfs_symlink E target q", OF w(1)]
    by (auto simp: perform_def serve_def)
qed

lemma save_simulated:
  assumes ok: "mount_ok s" and np: "outside_proc (config E) q"
    and free: "fs s (configure_path (config E) q) = None" and len: "length (concat blocks) < 2 ^ 31"
  shows "\<exists>r s'. perform E filler (Save q mode blocks) s = (Ret r, s') \<and> simulated (Save q mode blocks) s r s'"
proof -
  let ?p = "configure_path (config E) q"
  have np': "\<not> is_proc (config E) ?p" using np by (simp add: outside_proc_def)
  have new: "newest ?p (docs (world s)) = None" using free fs_free [OF ok] by simp
  note m = mount_okD [OF ok]
  obtain d ds s' where s': "save E q mode blocks s = (Ret 0, s')" "newest ?p (docs (world s')) = Some d"
    "new_doc ?p (S_IFREG OR mode) (default_uid (config E)) (default_gid (config E)) (concat blocks) ds d"
    "only_path ?p (docs (world s)) (docs (world s'))" "wf_docs (docs (world s'))" "same_process s s'"
    "coherent E docs cached s'"
    using save_run [OF refl np' m(3) new m(1,4) len] by blast
  obtain t where "time_fits t"
    "node_set (config E) ?p (made (config E) t (S_IFREG OR mode) (concat blocks)) (docs (world s)) (docs (world s'))"
    using new_doc_set [OF ok s'(3) len s'(2,4,5)] .
  then have "simulated (Save q mode blocks) s (0, Nothing) s'"
    using s'(6,7) by (intro simulated_set [OF ok, where p = ?p]) simp_all
  then show ?thesis using no_payload_run [where m = "save E q mode blocks", OF s'(1)] by (auto simp: perform_def)
qed

lemma rewrite_simulated:
  assumes ok: "mount_ok s" and np: "outside_proc (config E) q"
    and there: "fs s (configure_path (config E) q) \<noteq> None" and len: "length (concat blocks) < 2 ^ 31"
  shows "\<exists>r s'. perform E filler (Rewrite q blocks) s = (Ret r, s') \<and> simulated (Rewrite q blocks) s r s'"
proof (rule fs_cases [OF ok, of "configure_path (config E) q"])
  let ?p = "configure_path (config E) q"
  fix d n assume d: "newest ?p (docs (world s)) = Some d" and n: "fs s ?p = Some n"
    and no: "node_of (config E) d = Some n" and t: "time_fits (n_time n)"
  have np': "\<not> is_proc (config E) ?p" using np by (simp add: outside_proc_def)
  note m = mount_okD [OF ok]
  obtain s' where s': "rewrite E q blocks s = (Ret 0, s')" and
    ds: "if blocks = [] then docs (world s') = docs (world s)
     else \<exists>d'. newest ?p (docs (world s')) = Some d' \<and>
       stored_doc ?p (d_type d) (concat blocks) (docs (world s)) d'" and
    r: "only_path ?p (docs (world s)) (docs (world s'))" "wf_docs (docs (world s'))" "same_process s s'"
    "coherent E docs cached s'"
    using rewrite_run [OF refl np' m(3) d m(1,4) len] by blast
  have "simulated (Rewrite q blocks) s (0, Nothing) s'"
  proof (cases "blocks = []")
    case True
    with ds r show ?thesis by (intro simulated_same [OF ok]) (simp_all add: on_node_def n)
  next
    case False
    then obtain d' where d': "newest ?p (docs (world s')) = Some d'"
      "stored_doc ?p (d_type d) (concat blocks) (docs (world s)) d'" using ds by auto
    then have "node_set (config E) ?p (n\<lparr>n_content := concat blocks\<rparr>) (docs (world s)) (docs (world s'))"
      using d'(1) r stored_doc_node [OF d'(2) no t len] by (auto simp: node_set_def)
    then show ?thesis
      using False r by (intro simulated_set [OF ok _ some_time]) (simp_all add: on_node_def n)
  qed
  then show ?thesis using no_payload_run [where m = "rewrite E q blocks", OF s'] by (auto simp: perform_def)
qed (use there in simp)

lemma truncate_simulated:
  assumes ok: "mount_ok s"
  shows "\<exists>r s'. perform E filler (Call (Truncate q off)) s = (Ret r, s') \<and>
    simulated (Call (Truncate q off)) s r s'"
proof -
  let ?p = "configure_path (config E) q" and ?op = "Call (Truncate q off)"
  have fin: ?thesis if "gridfs_truncate E q off s = (Ret k, s')" "simulated ?op s (k, Nothing) s'" for k s'
    using that(2) no_payload_run [where m = "gridfs_truncate E q off", OF that(1)] by (auto simp: perform_def serve_def)
  have refused: "\<exists>w. gridfs_truncate E q off s = (Ret (if newest ?p (docs (world s)) = None
      then - ENOENT else - EIO), s\<lparr>world := w\<rparr>) \<and> calm docs cached (world s) w"
    if "off \<noteq> 0 \<or> newest ?p (docs (world s)) = None"
    using truncate_refused_run [OF refl that] .
  show ?thesis
  proof (rule fs_cases [OF ok, of ?p])
    assume d: "newest ?p (docs (world s)) = None" and n: "fs s ?p = None"
    then obtain w where w: "gridfs_truncate E q off s = (Ret (- ENOENT), s\<lparr>world := w\<rparr>)"
      "calm docs cached (world s) w" using refused by auto
    show ?thesis by (rule fin [OF w(1) simulated_world [OF ok _ w(2)]]) (simp add: on_node_def n)
  next
    fix d n assume d: "newest ?p (docs (world s)) = Some d" and n: "fs s ?p = Some n"
      and no: "node_of (config E) d = Some n" and m: "managed_doc (config E) d" and t: "time_fits (n_time n)"
    show ?thesis
    proof (cases "off = 0")
      case False
      then obtain w where w: "gridfs_truncate E q off s = (Ret (- EIO), s\<lparr>world := w\<rparr>)"
        "calm docs cached (world s) w" using refused d by auto
      show ?thesis
        by (rule fin [OF w(1) simulated_world [OF ok _ w(2)]]) (simp add: on_node_def n False)
    next
      case True
      obtain w where w: "gridfs_truncate E q 0 s = (Ret 0, s\<lparr>world := w\<rparr>)"
        "newest ?p (docs w) = Some (d\<lparr>d_length := 0\<rparr>)" "only_path ?p (docs (world s)) (docs w)"
        "wf_docs (docs w)" "coherent E docs cached (s\<lparr>world := w\<rparr>)"
        using truncate_run [OF refl mount_okD(1,4) [OF ok] d] by blast
      have no': "node_of (config E) (d\<lparr>d_length := 0\<rparr>) = Some (n\<lparr>n_content := []\<rparr>)"
        using no by (auto simp: node_of_def doc_content_def split: outcome.splits)
      then have "managed_doc (config E) (d\<lparr>d_length := 0\<rparr>)" using m t by (simp add: managed_doc_def)
      with no' w have "node_set (config E) ?p (n\<lparr>n_content := []\<rparr>) (docs (world s)) (docs w)"
        by (auto simp: node_set_def)
      then have "simulated ?op s (0, Nothing) (s\<lparr>world := w\<rparr>)"
        using w(5) True same_process_world [OF mount_okD(3) [OF ok]]
        by (intro simulated_set [OF ok _ some_time]) (simp_all add: on_node_def n)
      with fin w(1) True show ?thesis by blast
    qed
  qed
qed

section \<open>The interface\<close>

lemma operation_simulated:
  assumes "mount_ok s" "allowed (config E) (fs s) op"
  shows "\<exists>r s'. perform E filler op s = (Ret r, s') \<and> simulated op s r s'"
  using assms by (cases "(config E, fs s, op)" rule: allowed.cases)
    (simp_all add: getattr_simulated mkdir_simulated rmdir_simulated unlink_simulated chmod_simulated
      chown_simulated utimens_simulated truncate_simulated link_simulated readlink_simulated
      save_simulated rewrite_simulated load_simulated del: split_paired_Ex)

sublocale user: simulation "perform E filler" "fs_apply (config E)" time_fits "allowed (config E)"
  fs mount_ok same_process for filler
proof (unfold_locales, goal_cases)
  case (1 s op)
  then show ?case using operation_simulated [OF 1] unfolding simulated_def by blast
next
  case (2 s)
  then show ?case by (intro same_process_refl mount_okD)
next
  case (3 s s' s'')
  then show ?case by (rule same_process_trans)
qed

lemmas operation_step = user.step [unfolded mount_ok_def fs_def]
lemmas operation_trace = user.trace [unfolded mount_ok_def fs_def]

end

end
