(* ===== verification/Open_Dirs.thy ===== *)
theory Open_Dirs
  imports Open_Files
begin

text \<open>
  The callbacks that work on an open directory, under the laws of the servers.
\<close>

context mounted
begin

lemma opendir_run:
  fixes s :: "('w, 'x) fuse_state_scheme"
  assumes p: "p = configure_path (config E) q" and np: "\<not> is_proc (config E) p"
  shows "newest p (docs (world s)) \<noteq> None \<Longrightarrow>
    \<exists>e w. gridfs_opendir E q fh0 s = (Ret (0, next_addr s), s\<lparr>world := w, conns := Suc (conns s),
      objects := (objects s)(next_addr s \<mapsto> DIRECTORY e), next_addr := Suc (next_addr s)\<rparr>) \<and>
      thePath e = p \<and> calm docs cached (world s) w"
    and "newest p (docs (world s)) = None \<Longrightarrow>
    \<exists>w. gridfs_opendir E q fh0 s = (Ret (- ENOENT, fh0), s\<lparr>world := w\<rparr>) \<and> calm docs cached (world s) w"
proof -
  let ?t = "take_connection s" and ?e = "\<lparr>thePath = p, theGridFile = None\<rparr>"
  let ?k = "\<lambda>ex lDir. if \<not> ex then bind (modify drop_connection) (\<lambda>_. ret (- ENOENT, fh0))
    else bind (release_handle (DIRECTORY lDir)) (\<lambda>fh. ret (0, fh))"
  let ?R = "\<lambda>a e w. a = (newest p (docs (world s)) \<noteq> None) \<and> thePath e = p \<and> calm docs cached (world s) w"
  have "\<exists>a e w. lifetime (new_entry E p) (entry_exists E) drop_connection ?k s =
      ?k a e (?t\<lparr>world := w\<rparr>) \<and> ?R a e w"
  proof (rule lifetime_run [OF new_entry_builds])
    fix w assume w: "calm docs cached (world s) w"
    then have dw: "docs w = docs (world s)" by (simp add: calm_def)
    have "current (docs w) ?e" by (simp add: current_def)
    then obtain e1 w1 where 1: "entry_exists E (?e, ?t\<lparr>world := w\<rparr>) =
        (Ret (newest p (docs (world s)) \<noteq> None), (e1, ?t\<lparr>world := w1\<rparr>))" "thePath e1 = p"
      "calm docs cached w w1"
      by (rule entry_exists_world [where t = ?t]) (use dw in simp)
    with calm_trans [OF w 1(3)]
    show "\<exists>a ob' w'. entry_exists E (?e, ?t\<lparr>world := w\<rparr>) = (Ret a, ob', ?t\<lparr>world := w'\<rparr>) \<and> ?R a ob' w'"
      by blast
  qed
  then obtain e w where l: "lifetime (new_entry E p) (entry_exists E) drop_connection ?k s =
      ?k (newest p (docs (world s)) \<noteq> None) e (?t\<lparr>world := w\<rparr>)"
    and R: "thePath e = p" "calm docs cached (world s) w" by blast
  have run: "gridfs_opendir E q fh0 s =
      catch_with (lifetime (new_entry E p) (entry_exists E) drop_connection ?k) (- EIO, fh0) s"
    unfolding gridfs_opendir_def p [symmetric] Let_def using np by simp
  {
    assume "newest p (docs (world s)) \<noteq> None"
    with l R show "\<exists>e w. gridfs_opendir E q fh0 s = (Ret (0, next_addr s), s\<lparr>world := w,
      conns := Suc (conns s), objects := (objects s)(next_addr s \<mapsto> DIRECTORY e),
      next_addr := Suc (next_addr s)\<rparr>) \<and> thePath e = p \<and> calm docs cached (world s) w"
      unfolding run
      by (intro exI [of _ e] exI [of _ w])
        (simp add: catch_with_def bind_run release_handle_def comp_simps take_connection_def)
  next
    assume "newest p (docs (world s)) = None"
    with l R show "\<exists>w. gridfs_opendir E q fh0 s = (Ret (- ENOENT, fh0), s\<lparr>world := w\<rparr>) \<and>
        calm docs cached (world s) w"
      unfolding run by (intro exI [of _ w]) (simp add: catch_with_def bind_run comp_simps)
  }
qed

lemma readdir_run:
  fixes s :: "('w, 'x) fuse_state_scheme"
  assumes fh: "fh \<noteq> 0" "objects s fh = Some (DIRECTORY e)"
    and "CHR ''{'' \<notin> set (thePath e)" "c_names (docs (world s))"
  shows "\<exists>ns w w'. gridfs_readdir E filler fh s = (Ret 0, s\<lparr>world := w'\<rparr>) \<and>
    distinct ns \<and> set ns = children (thePath e) (docs (world s)) \<and> calm docs cached (world s) w \<and>
    w = snd (list_files E (list_regex (thePath e)) (world s)) \<and> w' = fills filler (''.'' # ''..'' # ns) w"
proof -
  obtain ns s0 where 1: "directory_list E filler (e, s) =
      (Ret (), (e, s0\<lparr>world := fills filler (''.'' # ''..'' # ns) (world s0)\<rparr>))"
    "distinct ns" "set ns = children (thePath e) (docs (world s))" "evolves docs cached s (docs (world s)) s0"
    "world s0 = snd (list_files E (list_regex (thePath e)) (world s))"
    using directory_list_run [OF assms(3,4)] by blast
  have s0: "s0 = s\<lparr>world := world s0\<rparr>" "calm docs cached (world s) (world s0)"
    using 1(4) by (simp_all only: evolves_def calm_def simp_thms)
  have same: "objects s0 = objects s" by (subst s0(1)) simp
  have "(s0\<lparr>world := v, objects := (objects s0)(fh \<mapsto> DIRECTORY e)\<rparr>) = s\<lparr>world := v\<rparr>" for v
    using fh(2) same by (subst s0(1)) (simp add: fun_upd_idem)
  then have "gridfs_readdir E filler fh s =
      (Ret 0, s\<lparr>world := fills filler (''.'' # ''..'' # ns) (world s0)\<rparr>)"
    using fh 1(1) same by (simp add: gridfs_readdir_def bind_run comp_simps deref_def with_directory_def catch_with_def)
  with 1(2,3,5) s0(2) show ?thesis by blast
qed

text \<open>The kernel gives the handle back: the object is gone, its connection is in the pool again.\<close>

lemma releasedir_run:
  assumes "fh \<noteq> 0" "objects s fh = Some (DIRECTORY e)"
  shows "\<exists>s'. gridfs_releasedir E fh s = (Ret 0, s') \<and> closed fh s s' \<and> world s' = world s"
  using assms by (simp add: gridfs_releasedir_def catch_with_def bind_run comp_simps delete_handle_def
      destroy_handle_def destroy_object_def drop_connection_def closed_def)

end

section \<open>What the kernel gets to see\<close>

text \<open>
  The filler of the FUSE library adds a name to what the kernel will show; it is no business of
  the servers, and the search of the database does not touch it.
\<close>

locale listing = mounted E docs cached
  for E :: "'w env" and docs :: "'w \<Rightarrow> doc list" and cached :: "'w \<Rightarrow> string \<rightharpoonup> cached_value" +
  fixes filler :: "string \<Rightarrow> 'w \<Rightarrow> 'w" and shown :: "'w \<Rightarrow> string list"
  assumes filler_shows: "shown (filler n w) = shown w @ [n]"
    and filler_keeps: "docs (filler n w) = docs w" "cached (filler n w) = cached w"
    and list_files_shows: "shown (snd (list_files E re w)) = shown w"
begin

lemma fills_shown:
  "shown (fills filler ns w) = shown w @ ns" "docs (fills filler ns w) = docs w"
  "cached (fills filler ns w) = cached w"
  unfolding fills_def by (induction ns arbitrary: w) (simp_all add: filler_shows filler_keeps)

lemma readdir_shows:
  fixes s :: "('w, 'x) fuse_state_scheme"
  assumes fh: "fh \<noteq> 0" "objects s fh = Some (DIRECTORY e)"
    and "CHR ''{'' \<notin> set (thePath e)" "c_names (docs (world s))"
  obtains ns w where "gridfs_readdir E filler fh s = (Ret 0, s\<lparr>world := w\<rparr>)"
    "distinct ns" "set ns = children (thePath e) (docs (world s))" "calm docs cached (world s) w"
    "shown w = shown (world s) @ ''.'' # ''..'' # ns"
proof -
  let ?w = "snd (list_files E (list_regex (thePath e)) (world s))"
  obtain ns where 1: "gridfs_readdir E filler fh s =
      (Ret 0, s\<lparr>world := fills filler (''.'' # ''..'' # ns) ?w\<rparr>)"
    "distinct ns" "set ns = children (thePath e) (docs (world s))" "calm docs cached (world s) ?w"
    using readdir_run [OF assms, of filler] by blast
  have "calm docs cached (world s) (fills filler (''.'' # ''..'' # ns) ?w)"
    using 1(4) by (simp add: calm_def fills_shown)
  moreover have "shown (fills filler (''.'' # ''..'' # ns) ?w) = shown (world s) @ ''.'' # ''..'' # ns"
    by (simp add: fills_shown list_files_shows)
  ultimately show thesis using that [OF 1(1-3)] by blast
qed

end

end
