(* ===== verification/Ref_World.thy ===== *)
theory Ref_World
  imports Fuse_Main Refinement Proc Open_Dirs
begin

text \<open>
  A reference environment: the database, memcached, the clock and the memory of one small
  in-memory world. It shows that the laws of theory Backend, of the list of servers and of a
  mounted file system can be met together, and it is the concrete environment at which the
  properties are applied.
\<close>

record ref_world =
  w_docs :: "doc list"
  w_cache :: "string \<rightharpoonup> cached_value"
  w_time :: nat
  w_servers :: "(string \<times> int) list"
  w_shown :: "string list"

text \<open>A collection whose ids clash is read as the empty one.\<close>

definition ref_docs :: "ref_world \<Rightarrow> doc list" where
  "ref_docs w = (if distinct (map d_id (w_docs w)) then w_docs w else [])"

definition doc_by_id :: "exn + oid \<Rightarrow> ref_world \<Rightarrow> doc option" where
  "doc_by_id i w = (case i of Inr n \<Rightarrow> find (\<lambda>d. d_id d = n) (ref_docs w) | Inl e \<Rightarrow> None)"

definition no_such_file :: exn where
  "no_such_file = UserException ''10014''"

definition show_doc :: "doc option \<Rightarrow> gridfile" where
  "show_doc od = (case od of
     None \<Rightarrow> \<lparr>gf_exists = False, gf_id = Inl no_such_file, gf_content_type = Inl no_such_file,
       gf_content_length = Inl no_such_file, gf_chunk_size = Inl no_such_file\<rparr>
   | Some d \<Rightarrow> \<lparr>gf_exists = True, gf_id = Inr (d_id d), gf_content_type = Inr (d_type d),
       gf_content_length = Inr (d_length d), gf_chunk_size = Inr (d_chunk d)\<rparr>)"

definition fresh_id :: "doc list \<Rightarrow> oid" where
  "fresh_id ds = Suc (foldr max (map d_id ds) 0)"

definition ref_store :: "bytes \<Rightarrow> string \<Rightarrow> string \<Rightarrow> ref_world \<Rightarrow> ref_world" where
  "ref_store data p ct w = w\<lparr>w_docs := ref_docs w @ [\<lparr>d_id = fresh_id (ref_docs w), d_name = p,
     d_type = ct, d_length = int (length data), d_chunk = MONGO_DEFAULT_CHUNK_SIZE, d_data = data\<rparr>]\<rparr>"

definition ref_list :: "string \<Rightarrow> ref_world \<Rightarrow> string list" where
  "ref_list re w = (case parse_pcre re of
     None \<Rightarrow> [] | Some pat \<Rightarrow> map d_name (filter (\<lambda>d. pcre_match pat (d_name d)) (ref_docs w)))"

text \<open>The configuration of \<open>init\<close> with a database and a path prefix.\<close>

definition ref_config :: "string \<Rightarrow> gridfs_config" where
  "ref_config pre = (default_config 1000 1000)\<lparr>mongo_db := ''test'', path_prefix := pre\<rparr>"

definition ref_env :: "string \<Rightarrow> ref_world env" where
  "ref_env pre = \<lparr>
     config = ref_config pre,
     ndebug = True,
     conn_string_valid = (\<lambda>_. True),
     scoped_connection = (\<lambda>w. (Inr (), w)),
     open_gridfs = (\<lambda>_ _ w. (Inr (), w)),
     find_file = (\<lambda>p w. (Inr (show_doc (newest p (ref_docs w))), w)),
     get_chunk = (\<lambda>g n w. case doc_by_id (gf_id g) w of
        Some d \<Rightarrow> (Inr (chunk_of d n), w) | None \<Rightarrow> (Inl no_such_file, w)),
     stream_file = (\<lambda>g w. case doc_by_id (gf_id g) w of
        Some d \<Rightarrow> (Inr (d_data d), w) | None \<Rightarrow> (Inl no_such_file, w)),
     store_file = (\<lambda>data p ct w. (Inr (), ref_store data p ct w)),
     remove_file = (\<lambda>p w. (Inr (), w\<lparr>w_docs := filter (\<lambda>d. d_name d \<noteq> p) (ref_docs w)\<rparr>)),
     list_files = (\<lambda>re w. (Inr (Some \<lparr>cur_names = ref_list re w, cur_failure = None\<rparr>), w)),
     update_file = (\<lambda>_ i f w. (Inr (), w\<lparr>w_docs := update_docs i f (ref_docs w)\<rparr>)),
     last_error = (\<lambda>w. (Inr ErrNull, w)),
     clock = (\<lambda>w. (min (2 ^ 63 - 1) (int (w_time w)), w\<lparr>w_time := Suc (w_time w)\<rparr>)),
     map_memory = (\<lambda>n w. (0 < n, w)),
     remap_memory = (\<lambda>_ n w. (0 < n, w)),
     mc_lookup = (\<lambda>k w. (w_cache w k, w)),
     mc_store = (\<lambda>k st w. w\<lparr>w_cache := (w_cache w)(k \<mapsto> StatBytes st)\<rparr>),
     mc_delete = (\<lambda>k w. w\<lparr>w_cache := (w_cache w)(k := None)\<rparr>),
     server_count = (\<lambda>w. length (w_servers w)),
     server_name = (\<lambda>i w. if i < length (w_servers w) then fst (w_servers w ! i) else []),
     server_port = (\<lambda>i w. if i < length (w_servers w) then snd (w_servers w ! i) else 0),
     server_add = (\<lambda>n p w. w\<lparr>w_servers := w_servers w @ [(n, p)]\<rparr>)\<rparr>"

lemma foldr_max_upper: "n \<in> set ns \<Longrightarrow> n \<le> foldr max ns (0::nat)"
  by (induction ns) auto

lemma fresh_id_fresh: "fresh_id ds \<notin> d_id ` set ds"
proof
  assume "fresh_id ds \<in> d_id ` set ds"
  then have "fresh_id ds \<in> set (map d_id ds)" by simp
  from foldr_max_upper [OF this] show False by (simp add: fresh_id_def)
qed

lemma ref_docs_distinct: "distinct (map d_id (ref_docs w))"
  by (simp add: ref_docs_def)

lemma ref_docs_set [simp]: "distinct (map d_id ds) \<Longrightarrow> ref_docs (w\<lparr>w_docs := ds\<rparr>) = ds"
  by (simp add: ref_docs_def)

lemma ref_docs_other [simp]:
  "ref_docs (w\<lparr>w_cache := c\<rparr>) = ref_docs w"
  "ref_docs (w\<lparr>w_time := t\<rparr>) = ref_docs w"
  "ref_docs (w\<lparr>w_servers := sv\<rparr>) = ref_docs w"
  "ref_docs (w\<lparr>w_shown := ns\<rparr>) = ref_docs w"
  by (simp_all add: ref_docs_def)

lemma shows_doc_show_doc: "shows_doc (show_doc od) od"
  by (cases od) (simp_all add: shows_doc_def show_doc_def)

lemma doc_by_id_found:
  assumes "shows_doc g (Some d)" "d \<in> set (ref_docs w)"
  shows "doc_by_id (gf_id g) w = Some d"
proof -
  obtain e where e: "find (\<lambda>x. d_id x = d_id d) (ref_docs w) = Some e"
    using assms(2) by (cases "find (\<lambda>x. d_id x = d_id d) (ref_docs w)") (auto simp: find_None_iff)
  then have "e \<in> set (ref_docs w)" "d_id e = d_id d" by (auto simp: find_Some_iff)
  then have "e = d" using assms(2) ref_docs_distinct [of w] by (auto simp: distinct_map inj_on_def)
  with e assms(1) show ?thesis by (simp add: doc_by_id_def shows_doc_def)
qed

lemma ref_store_docs:
  "ref_docs (ref_store data p ct w) = ref_docs w @ [\<lparr>d_id = fresh_id (ref_docs w), d_name = p,
     d_type = ct, d_length = int (length data), d_chunk = MONGO_DEFAULT_CHUNK_SIZE, d_data = data\<rparr>]"
  unfolding ref_store_def
  by (rule ref_docs_set) (use ref_docs_distinct [of w] fresh_id_fresh in auto)

lemma ref_update_docs: "ref_docs (w\<lparr>w_docs := update_docs i f (ref_docs w)\<rparr>) = update_docs i f (ref_docs w)"
proof (rule ref_docs_set)
  have "map d_id (update_docs i f (ref_docs w)) = map d_id (ref_docs w)"
    by (simp add: update_docs_def)
  then show "distinct (map d_id (update_docs i f (ref_docs w)))" by (simp add: ref_docs_distinct)
qed

lemma ref_remove_docs: "ref_docs (w\<lparr>w_docs := filter P (ref_docs w)\<rparr>) = filter P (ref_docs w)"
  by (rule ref_docs_set) (simp add: ref_docs_distinct distinct_map_filter)

lemma ref_cache_other:
  "w_cache (ref_store data p ct w) = w_cache w"
  by (simp add: ref_store_def)

lemma ref_config_chunk: "mongo_chunk_size (ref_config pre) = 262144"
  by (simp add: ref_config_def default_config_def MONGO_DEFAULT_CHUNK_SIZE_def)

interpretation ref: mounted "ref_env pre" ref_docs w_cache for pre
proof (unfold_locales, goal_cases)
  case (5 g d w n)
  then show ?case by (simp add: ref_env_def doc_by_id_found)
next
  case (6 g d w)
  then show ?case by (simp add: ref_env_def doc_by_id_found)
next
  case (7 data p ct w)
  show ?case
    by (rule exI [of _ "fresh_id (ref_docs w)"], rule exI [of _ MONGO_DEFAULT_CHUNK_SIZE],
        rule exI [of _ "ref_store data p ct w"])
      (use fresh_id_fresh in \<open>simp add: ref_env_def ref_store_docs MONGO_DEFAULT_CHUNK_SIZE_def\<close>)
next
  case (9 re pat w)
  then show ?case by (simp add: ref_env_def ref_list_def)
qed (simp_all add: ref_env_def shows_doc_show_doc ref_update_docs ref_remove_docs ref_cache_other
    ref_config_chunk map_le_def split: option.split)

definition ref_fill :: "string \<Rightarrow> ref_world \<Rightarrow> ref_world" where
  "ref_fill n w = w\<lparr>w_shown := w_shown w @ [n]\<rparr>"

interpretation ref_listing: listing "ref_env pre" ref_docs w_cache ref_fill w_shown for pre
  by unfold_locales (simp_all add: ref_env_def ref_fill_def)

interpretation ref_servers: server_list "ref_env pre" w_servers for pre
  by unfold_locales (simp_all add: ref_env_def)

section \<open>A start\<close>

text \<open>A document as \<open>mkdir\<close>, \<open>create\<close> or \<open>store\<close> leave it.\<close>

definition plain_doc :: "oid \<Rightarrow> string \<Rightarrow> u32 \<Rightarrow> bytes \<Rightarrow> doc" where
  "plain_doc i p m b = \<lparr>d_id = i, d_name = p, d_type = print_content_type m 1000 1000 0,
     d_length = int (length b), d_chunk = MONGO_DEFAULT_CHUNK_SIZE, d_data = b\<rparr>"

definition world_of :: "doc list \<Rightarrow> ref_world" where
  "world_of ds = \<lparr>w_docs = ds, w_cache = Map.empty, w_time = 0, w_servers = [], w_shown = []\<rparr>"

definition start_of :: "ref_world \<Rightarrow> ref_world fuse_state" where
  "start_of w = \<lparr>world = w, conns = 0, caches = 0, objects = Map.empty, next_addr = 1\<rparr>"

end
