(* ===== verification/Attribute_Theorems.thy ===== *)
theory Attribute_Theorems
  imports Ref_World
begin

text \<open>
  What holds of the attributes of an entry: their text in the content type, what \<open>getattr\<close>
  answers, what \<open>chmod\<close>, \<open>chown\<close> and \<open>utimens\<close> change.
\<close>

section \<open>Concrete states\<close>

lemma ref_listing_laws: "listing (ref_env pre) ref_docs w_cache ref_fill w_shown"
  by unfold_locales

lemma ref_mounted: "mounted (ref_env pre) ref_docs w_cache"
  by (rule ref.mounted_axioms)

lemma ref_backend: "backend (ref_env pre) ref_docs w_cache"
  by (rule ref.backend_axioms)

lemma start_of_simps [simp]:
  "world (start_of w) = w" "objects (start_of w) = Map.empty" "conns (start_of w) = 0"
  "caches (start_of w) = 0" "next_addr (start_of w) = 1"
  by (simp_all add: start_of_def)

lemma world_of_docs: "distinct (map d_id ds) \<Longrightarrow> ref_docs (world_of ds) = ds"
  by (simp add: world_of_def ref_docs_def)

lemma start_coherent: "coherent (ref_env pre) ref_docs w_cache (start_of (world_of ds))"
  by (simp add: coherent_def only_stats_def entries_of_def world_of_def map_le_def dom_def)

lemma start_table_ok: "table_ok (start_of w)"
  by (simp add: table_ok_def)

lemma ref_config_simps [simp]:
  "config (ref_env pre) = ref_config pre" "path_prefix (ref_config pre) = pre"
  "default_uid (ref_config pre) = 1000" "default_gid (ref_config pre) = 1000"
  by (simp_all add: ref_env_def ref_config_def default_config_def)

lemma plain_doc_simps [simp]:
  "d_id (plain_doc i p m b) = i" "d_name (plain_doc i p m b) = p" "d_data (plain_doc i p m b) = b"
  "d_length (plain_doc i p m b) = int (length b)" "d_chunk (plain_doc i p m b) = MONGO_DEFAULT_CHUNK_SIZE"
  "d_type (plain_doc i p m b) = print_content_type m 1000 1000 0"
  by (simp_all add: plain_doc_def)

lemma plain_doc_attrs: "parse_content_type c (d_type (plain_doc i p m b)) =
    Ret \<lparr>at_mode = m, at_uid = 1000, at_gid = 1000, at_time = Some 0\<rparr>"
  using parse_print_content_type [of 0 c m 1000 1000] by (simp add: c_int_id)

lemma plain_type_attrs [simp]: "parse_content_type c (print_content_type m 1000 1000 0) =
    Ret \<lparr>at_mode = m, at_uid = 1000, at_gid = 1000, at_time = Some 0\<rparr>"
  using plain_doc_attrs [of c 1 "''/a''" m "[]"] by simp

section \<open>The text of the attributes\<close>

text \<open>C10: Reading the content type that \<open>create\<close> and \<open>updateContentType\<close> write gives the
  mode, the user and the group back, and the time as a 32-bit \<open>int\<close>.\<close>

theorem content_type_round_trip:
  assumes "- (2 ^ 63) \<le> t" "t < 2 ^ 63"
  shows "parse_content_type c (print_content_type mode uid gid t) =
    Ret \<lparr>at_mode = mode, at_uid = uid, at_gid = gid, at_time = Some (c_int t)\<rparr>"
  by (rule parse_print_content_type [OF assms])

theorem content_type_round_trip_witness:
  "parse_content_type (ref_config []) (print_content_type 33188 0 4294967295 1321927291) =
    Ret \<lparr>at_mode = 33188, at_uid = 0, at_gid = 4294967295, at_time = Some 1321927291\<rparr>"
  using content_type_round_trip [of 1321927291 "ref_config []" 33188 0 4294967295]
  by (simp add: c_int_id)

text \<open>The text decides the attributes: two entries whose times fit 32 bits have the same
  content type only if all their attributes agree.\<close>

theorem content_type_injective:
  assumes "time_fits t" "time_fits t'"
    and "print_content_type m u g t = print_content_type m' u' g' t'"
  shows "m = m' \<and> u = u' \<and> g = g' \<and> t = t'"
  by (rule content_type.encode_inj [OF assms])

theorem content_type_injective_witness:
  "print_content_type 33188 0 0 7 \<noteq> print_content_type 33188 0 0 8"
  using content_type_injective [of 7 8 33188 0 0 33188 0 0] by (auto simp: time_fits_def)

text \<open>The bound of the time: from 2038 on, until 2106, the stored time of an entry is read
  back \<open>2 ^ 32\<close> seconds too early, as a time before 1970.\<close>

theorem time_wraps_after_2038:
  assumes "2 ^ 31 \<le> t" "t < 2 ^ 32"
  shows "parse_content_type c (print_content_type mode uid gid t) =
      Ret \<lparr>at_mode = mode, at_uid = uid, at_gid = gid, at_time = Some (t - 2 ^ 32)\<rparr> \<and> t - 2 ^ 32 < 0"
proof -
  have "(t + 2 ^ 31) mod 2 ^ 32 = ((t - 2 ^ 31) + 2 ^ 32) mod 2 ^ 32" by (simp add: algebra_simps)
  also have "\<dots> = (t - 2 ^ 31) mod 2 ^ 32" by (rule mod_add_self2)
  also have "\<dots> = t - 2 ^ 31" using assms by (intro mod_pos_pos_trivial) simp_all
  finally have "c_int t = t - 2 ^ 32"
    by (simp add: c_int_def signed_take_bit_eq_take_bit_shift take_bit_eq_mod)
  moreover have "- (2 ^ 63) \<le> t" "t < 2 ^ 63" using assms by simp_all
  ultimately show ?thesis using parse_print_content_type [of t c mode uid gid] assms(2) by simp
qed

theorem time_wraps_after_2038_witness:
  "parse_content_type (ref_config []) (print_content_type 33188 0 0 4102444800) =
      Ret \<lparr>at_mode = 33188, at_uid = 0, at_gid = 0, at_time = Some (- 192522496)\<rparr>"
  using time_wraps_after_2038 [of 4102444800 "ref_config []" 33188 0 0] by simp

text \<open>A content type in which no token begins with one of the letters m, u, g, t gives
  the mode of a regular file, the default owner, and no time: the variable is never set.\<close>

theorem foreign_type_has_no_time:
  assumes "\<forall>t \<in> set (content_tokens ct). \<not> attr_letter (hd t)"
  shows "parse_content_type c ct = Ret \<lparr>at_mode = S_IFREG OR 0x1A4, at_uid = default_uid c,
    at_gid = default_gid c, at_time = None\<rparr>"
  using assms by (simp add: parse_content_type_def content_tokens_def parse_loop_foreign default_attrs_def)

theorem foreign_type_has_no_time_witness:
  "parse_content_type (ref_config []) ''image/png'' = Ret \<lparr>at_mode = S_IFREG OR 0x1A4,
    at_uid = 1000, at_gid = 1000, at_time = None\<rparr>"
proof -
  have "content_tokens ''image/png'' = [''image/png'']" by code_simp
  then show ?thesis using foreign_type_has_no_time [of "''image/png''" "ref_config []"]
    by (simp add: attr_letter_def)
qed

section \<open>Asking for the attributes\<close>

context backend
begin

text \<open>A content type that \<open>stat\<close> cannot read faults in \<open>getattr\<close>: no entry is cached for it.\<close>

lemma getattr_fault:
  fixes s :: "('w, 'x) fuse_state_scheme"
  assumes co: "coherent E docs cached s" and p: "p = configure_path (config E) q"
    and np: "\<not> is_proc (config E) p"
    and d: "newest p (docs (world s)) = Some d" "stat_of_doc (config E) d = Fault x"
  shows "fst (gridfs_getattr E q st0 s) = Fault x"
proof -
  let ?t = "memcache_acquire s" and ?u = "take_connection (memcache_acquire s)"
  let ?e = "\<lparr>thePath = p, theGridFile = None\<rparr>"
  let ?body = "bind (entry_exists E) (\<lambda>ex. if \<not> ex then ret (- ENOENT, None)
        else bind (entry_stat E) (\<lambda>st. bind (outside (memcache_set E p st)) (\<lambda>_. ret (0, Some st))))"
  have ws: "world ?t = world s" by (simp add: memcache_acquire_def)
  have "only_stats cached ?t" using co by (simp add: coherent_def memcache_acquire_def only_stats_def)
  then obtain s1 where 1: "memcache_get E p ?t = (Ret (entries_of cached ?t p), s1)"
    "evolves docs cached ?t (docs (world ?t)) s1"
    using memcache_get_run by blast
  have "truth (config E) (docs (world s)) p = None" using d by (simp add: truth_def)
  moreover have "entries_of cached ?t = entries_of cached s" by (simp add: entries_of_def memcache_acquire_def fun_eq_iff)
  ultimately have hit: "entries_of cached ?t p = None"
    using co by (auto simp: coherent_def map_le_def dom_def)
  have d1: "docs (world s1) = docs (world s)" using evolves_docs [OF 1(2)] ws by simp
  obtain w where w: "new_entry E p s1 = (Ret ?e, (take_connection s1)\<lparr>world := w\<rparr>)"
    "docs w = docs (world s1)"
    using new_entry_builds [of p] unfolding builds_def calm_def by blast
  have "current (docs w) ?e" by (simp add: current_def)
  then obtain e1 w1 where 2: "entry_exists E (?e, (take_connection s1)\<lparr>world := w\<rparr>) =
      (Ret True, (e1, (take_connection s1)\<lparr>world := w1\<rparr>))"
    "current (docs w1) e1" "thePath e1 = p" "calm docs cached w w1"
    by (rule entry_exists_world [where t = "take_connection s1"]) (use d w d1 in simp)
  obtain e2 s2 where 3: "entry_stat E (e1, (take_connection s1)\<lparr>world := w1\<rparr>) = (Fault x, (e2, s2))"
    using entry_stat_run [of "(take_connection s1)\<lparr>world := w1\<rparr>" e1 d] 2 w d d1
    by (auto simp: calm_def)
  have "?body (?e, (take_connection s1)\<lparr>world := w\<rparr>) = (Fault x, (e2, s2))"
    using 2(1) 3 by (simp add: bind_run)
  then have "local_object (new_entry E p) drop_connection ?body s1 = (Fault x, s2)"
    using w(1) by (simp add: local_object_def lifetime_def bind_run)
  then show ?thesis
    using 1(1) hit np unfolding gridfs_getattr_def p [symmetric] Let_def with_memcache_def
    by (simp add: bind_run comp_simps catch_with_def with_dtor_def)
qed

end

text \<open>C5: \<open>getattr\<close> of a path outside \<open>/proc\<close>: without a document of the name the answer is
  \<open>- ENOENT\<close>; otherwise it is 0 with the attributes of the newest document, from the cache or
  from the database alike, and the cache stays right about the documents.\<close>

theorem getattr_answers:
  fixes s :: "('w, 'x) fuse_state_scheme"
  assumes "backend E docs cached" "coherent E docs cached s"
    and "p = configure_path (config E) path" "\<not> is_proc (config E) p"
    and "\<And>d. newest p (docs (world s)) = Some d \<Longrightarrow>
      parse_content_type (config E) (d_type d) = Ret a"
  shows "\<exists>w. gridfs_getattr E path buf s =
      (Ret (case newest p (docs (world s)) of
         None \<Rightarrow> (- ENOENT, None)
       | Some d \<Rightarrow> (0, Some \<lparr>st_mode = at_mode a,
           st_nlink = (if at_mode a AND S_IFDIR \<noteq> 0 then 2 else 1), st_uid = at_uid a, st_gid = at_gid a,
           st_size = (if at_mode a AND S_IFDIR \<noteq> 0 then 4096 else c_off_t (d_length d)),
           st_atime = at_time a, st_mtime = at_time a, st_ctime = at_time a\<rparr>)), s\<lparr>world := w\<rparr>) \<and>
    docs w = docs (world s) \<and> coherent E docs cached (s\<lparr>world := w\<rparr>)"
proof (cases "newest p (docs (world s))")
  case None
  then show ?thesis using backend.getattr_run(1) [OF assms(1-4), of buf] by simp
next
  case (Some d)
  with assms(5) have "stat_of_doc (config E) d = Ret \<lparr>st_mode = at_mode a,
      st_nlink = (if at_mode a AND S_IFDIR \<noteq> 0 then 2 else 1), st_uid = at_uid a, st_gid = at_gid a,
      st_size = (if at_mode a AND S_IFDIR \<noteq> 0 then 4096 else c_off_t (d_length d)),
      st_atime = at_time a, st_mtime = at_time a, st_ctime = at_time a\<rparr>"
    by (simp add: stat_of_doc_def)
  from backend.getattr_run(2) [OF assms(1-4) Some this, of buf] show ?thesis by (simp add: Some)
qed

text \<open>The state the attribute properties are applied at: one file and one directory.\<close>

definition demo :: "ref_world fuse_state" where
  "demo = start_of (world_of [plain_doc 1 ''/a'' (S_IFREG OR 0x1A4) ''hello'',
     plain_doc 2 ''/d'' (S_IFDIR OR 0x1ED) [], plain_doc 3 ''/d/x'' (S_IFREG OR 0x1A4) []])"

lemma demo_docs: "ref_docs (world demo) = [plain_doc 1 ''/a'' (S_IFREG OR 0x1A4) ''hello'',
     plain_doc 2 ''/d'' (S_IFDIR OR 0x1ED) [], plain_doc 3 ''/d/x'' (S_IFREG OR 0x1A4) []]"
  by (simp add: demo_def world_of_docs)

lemma demo_coherent: "coherent (ref_env pre) ref_docs w_cache demo"
  unfolding demo_def by (rule start_coherent)

lemma demo_table_ok: "table_ok demo"
  unfolding demo_def by (rule start_table_ok)

lemma demo_wf: "wf_docs (ref_docs (world demo))"
  by (simp add: demo_docs wf_docs_def MONGO_DEFAULT_CHUNK_SIZE_def)

lemma demo_newest [simp]:
  "newest ''/a'' (ref_docs (world demo)) = Some (plain_doc 1 ''/a'' (S_IFREG OR 0x1A4) ''hello'')"
  "newest ''/d'' (ref_docs (world demo)) = Some (plain_doc 2 ''/d'' (S_IFDIR OR 0x1ED) [])"
  "newest ''/b'' (ref_docs (world demo)) = None"
  by (simp_all add: demo_docs newest_def)

lemma plain_path:
  "configure_path (ref_config []) ''/a'' = ''/a''" "configure_path (ref_config []) ''/d'' = ''/d''"
  "configure_path (ref_config []) ''/b'' = ''/b''"
  "\<not> is_proc (ref_config []) ''/a''" "\<not> is_proc (ref_config []) ''/d''" "\<not> is_proc (ref_config []) ''/b''"
  by (simp_all add: configure_path_def is_proc_iff)

theorem getattr_answers_witness:
  "\<exists>w. gridfs_getattr (ref_env []) ''/a'' zero_stat demo = (Ret (0, Some \<lparr>st_mode = S_IFREG OR 0x1A4,
     st_nlink = 1, st_uid = 1000, st_gid = 1000, st_size = 5, st_atime = Some 0, st_mtime = Some 0,
     st_ctime = Some 0\<rparr>), demo\<lparr>world := w\<rparr>)"
proof -
  let ?a = "\<lparr>at_mode = S_IFREG OR 0x1A4, at_uid = 1000, at_gid = 1000, at_time = Some 0\<rparr>"
  have "(S_IFREG OR 0x1A4) AND S_IFDIR = (0 :: u32)" by (simp add: S_IFREG_def S_IFDIR_def)
  then show ?thesis
    using getattr_answers [OF ref_backend demo_coherent, of "''/a''" "[]" "''/a''" ?a zero_stat]
      plain_doc_attrs [of _ 1 "''/a''" "S_IFREG OR 0x1A4" "''hello''"]
    by (auto simp: plain_path c_off_t_id)
qed

text \<open>C30: \<open>getattr\<close> of a document kills the process exactly if a token of its content type begins
  with m, u, g or t, is not itself taken as the value of an earlier such token, and has no token
  behind it, as in \<open>text/plain\<close>: \<open>strtok\<close> gives a null pointer for the value and \<open>atoi\<close> reads it.
  The type m:t does not: t is taken as the value of m. The path lies outside /proc, and the cache is right about the
  documents.\<close>

theorem getattr_dies_on_foreign_type:
  fixes s :: "('w, 'x) fuse_state_scheme"
  assumes "backend E docs cached" "coherent E docs cached s"
    and "p = configure_path (config E) path" "\<not> is_proc (config E) p"
    and "newest p (docs (world s)) = Some d"
  shows "fst (gridfs_getattr E path buf s) = Fault NullDeref \<longleftrightarrow> unpaired (content_tokens (d_type d))"
proof (cases "unpaired (content_tokens (d_type d))")
  case True
  then have "parse_content_type (config E) (d_type d) = Fault NullDeref"
    using parse_loop_value_missing [of "strtok separators (c_str (d_type d))"]
    by (simp add: parse_content_type_def content_tokens_def)
  then have "stat_of_doc (config E) d = Fault NullDeref" by (simp add: stat_of_doc_def)
  from backend.getattr_fault [OF assms this] True show ?thesis by simp
next
  case False
  then obtain a where "parse_content_type (config E) (d_type d) = Ret a"
    using parse_loop_value_missing [of "strtok separators (c_str (d_type d))"]
    by (auto simp: parse_content_type_def content_tokens_def)
  then obtain st where "stat_of_doc (config E) d = Ret st" by (simp add: stat_of_doc_def)
  from backend.getattr_run(2) [OF assms this, of buf] False show ?thesis by auto
qed

theorem getattr_dies_on_foreign_type_witness:
  "fst (gridfs_getattr (ref_env []) ''/a'' zero_stat
     (start_of (world_of [(plain_doc 1 ''/a'' 0 [])\<lparr>d_type := ''text/plain''\<rparr>]))) = Fault NullDeref \<and>
   fst (gridfs_getattr (ref_env []) ''/a'' zero_stat
     (start_of (world_of [(plain_doc 1 ''/a'' 0 [])\<lparr>d_type := ''m:t''\<rparr>]))) \<noteq> Fault NullDeref"
proof -
  have "unpaired (content_tokens ''text/plain'')" "\<not> unpaired (content_tokens ''m:t'')" by code_simp+
  then show ?thesis
    using getattr_dies_on_foreign_type [OF ref_backend start_coherent, of "''/a''" "[]" "''/a''"
        "[(plain_doc 1 ''/a'' 0 [])\<lparr>d_type := ct\<rparr>]" _ zero_stat for ct]
    by (simp add: plain_path world_of_docs newest_def)
qed

section \<open>Changing attributes\<close>

text \<open>\<open>chmod\<close>, \<open>chown\<close>, \<open>utimens\<close>, \<open>unlink\<close> and \<open>truncate\<close> of a path without a document
  answer \<open>- ENOENT\<close> and leave the documents as they are.\<close>

theorem missing_paths_are_reported:
  fixes s :: "('w, 'x) fuse_state_scheme"
  assumes b: "backend E docs cached" and p: "p = configure_path (config E) path"
    and np: "\<not> is_proc (config E) p" and d: "newest p (docs (world s)) = None"
    and op: "op \<in> {gridfs_chmod E path mode, gridfs_chown E path uid gid, gridfs_utimens E path time,
      gridfs_unlink E path, gridfs_truncate E path 0}"
  shows "\<exists>w. op s = (Ret (- ENOENT), s\<lparr>world := w\<rparr>) \<and> calm docs cached (world s) w"
proof -
  note entry = backend.change_missing [OF b backend.new_entry_builds [OF b, of p], of p s, simplified, OF d]
  note file_case = backend.change_missing [OF b backend.new_file_builds [OF b, of p], of p s, simplified, OF _ _ d]
  show ?thesis
    using op np unfolding p
    by (auto simp: backend.change_callbacks [OF b] p [symmetric] file_of_entry_def intro!: entry file_case)
qed

text \<open>\<open>chmod\<close> of an existing path answers 0; the newest document of the path then has the
  new mode, with the same owner, time, length and content, no other path changed, and the
  cache is right about the new attributes.\<close>

theorem chmod_changes_mode_only:
  fixes s :: "('w, 'x) fuse_state_scheme"
  assumes "backend E docs cached" "coherent E docs cached s" "wf_docs (docs (world s))"
    and "p = configure_path (config E) path" "newest p (docs (world s)) = Some d"
    and "parse_content_type (config E) (d_type d) = Ret a" "at_time a = Some t" "time_fits t"
  shows "\<exists>s'. gridfs_chmod E path mode s = (Ret 0, s') \<and>
    attrs_changed E docs p d (\<lambda>a. a\<lparr>at_mode := mode\<rparr>) a s s' \<and> coherent E docs cached s'"
  unfolding backend.change_callbacks(1) [OF assms(1)] assms(4) [symmetric]
  by (rule backend.attrs_callback [OF assms(1) backend.entry_chmod_changes [OF assms(1)]
        backend.new_entry_builds [OF assms(1)] _ _ assms(2,3,5,6) _ assms(8)])
    (simp_all add: assms(7))

theorem chmod_changes_mode_only_witness:
  "\<exists>s'. gridfs_chmod (ref_env []) ''/a'' (S_IFREG OR 0x180) demo = (Ret 0, s') \<and>
    attrs_changed (ref_env []) ref_docs ''/a'' (plain_doc 1 ''/a'' (S_IFREG OR 0x1A4) ''hello'')
      (\<lambda>a. a\<lparr>at_mode := S_IFREG OR 0x180\<rparr>)
      \<lparr>at_mode = S_IFREG OR 0x1A4, at_uid = 1000, at_gid = 1000, at_time = Some 0\<rparr> demo s' \<and>
    coherent (ref_env []) ref_docs w_cache s'"
  by (rule chmod_changes_mode_only [where t = 0, OF ref_backend demo_coherent demo_wf])
    (simp_all add: plain_path time_fits_def)

text \<open>\<open>chown\<close> of an existing path changes the owner and the group of its newest document and
  nothing else.\<close>

theorem chown_changes_owner_only:
  fixes s :: "('w, 'x) fuse_state_scheme"
  assumes "backend E docs cached" "coherent E docs cached s" "wf_docs (docs (world s))"
    and "p = configure_path (config E) path" "newest p (docs (world s)) = Some d"
    and "parse_content_type (config E) (d_type d) = Ret a" "at_time a = Some t" "time_fits t"
  shows "\<exists>s'. gridfs_chown E path uid gid s = (Ret 0, s') \<and>
    attrs_changed E docs p d (\<lambda>a. a\<lparr>at_uid := uid, at_gid := gid\<rparr>) a s s' \<and> coherent E docs cached s'"
  unfolding backend.change_callbacks(2) [OF assms(1)] assms(4) [symmetric]
  by (rule backend.attrs_callback [OF assms(1) backend.entry_chown_changes [OF assms(1)]
        backend.new_entry_builds [OF assms(1)] _ _ assms(2,3,5,6) _ assms(8)])
    (simp_all add: assms(7))

theorem chown_changes_owner_only_witness:
  "\<exists>s'. gridfs_chown (ref_env []) ''/d'' 0 5 demo = (Ret 0, s') \<and>
    attrs_changed (ref_env []) ref_docs ''/d'' (plain_doc 2 ''/d'' (S_IFDIR OR 0x1ED) [])
      (\<lambda>a. a\<lparr>at_uid := 0, at_gid := 5\<rparr>)
      \<lparr>at_mode = S_IFDIR OR 0x1ED, at_uid = 1000, at_gid = 1000, at_time = Some 0\<rparr> demo s' \<and>
    coherent (ref_env []) ref_docs w_cache s'"
  by (rule chown_changes_owner_only [where t = 0, OF ref_backend demo_coherent demo_wf])
    (simp_all add: plain_path time_fits_def)

text \<open>\<open>utimens\<close> of an existing path outside \<open>/proc\<close> sets the time of its newest document to
  the modification time, when that fits 32 bits, and changes nothing else.\<close>

theorem utimens_sets_time_only:
  fixes s :: "('w, 'x) fuse_state_scheme"
  assumes "backend E docs cached" "coherent E docs cached s" "wf_docs (docs (world s))"
    and "p = configure_path (config E) path" "\<not> is_proc (config E) p"
    and "newest p (docs (world s)) = Some d"
    and "parse_content_type (config E) (d_type d) = Ret a" "time_fits t"
  shows "\<exists>s'. gridfs_utimens E path t s = (Ret 0, s') \<and>
    attrs_changed E docs p d (\<lambda>a. a\<lparr>at_time := Some t\<rparr>) a s s' \<and> coherent E docs cached s'"
  unfolding backend.change_callbacks(4) [OF assms(1) assms(5) [unfolded assms(4)]] assms(4) [symmetric]
  by (rule backend.attrs_callback [OF assms(1) backend.entry_utimes_changes [OF assms(1)]
        backend.new_file_builds [OF assms(1)] _ _ assms(2,3,6,7) _ assms(8)])
    (simp_all add: file_of_entry_def)

theorem utimens_sets_time_only_witness:
  "\<exists>s'. gridfs_utimens (ref_env []) ''/a'' 1700000000 demo = (Ret 0, s') \<and>
    attrs_changed (ref_env []) ref_docs ''/a'' (plain_doc 1 ''/a'' (S_IFREG OR 0x1A4) ''hello'')
      (\<lambda>a. a\<lparr>at_time := Some 1700000000\<rparr>)
      \<lparr>at_mode = S_IFREG OR 0x1A4, at_uid = 1000, at_gid = 1000, at_time = Some 0\<rparr> demo s' \<and>
    coherent (ref_env []) ref_docs w_cache s'"
  by (rule utimens_sets_time_only [OF ref_backend demo_coherent demo_wf])
    (simp_all add: plain_path time_fits_def)

theorem missing_paths_are_reported_witness:
  "\<exists>w. gridfs_unlink (ref_env []) ''/b'' demo = (Ret (- ENOENT), demo\<lparr>world := w\<rparr>)"
  using missing_paths_are_reported [OF ref_backend, of "''/b''" "[]" "''/b''" demo
      "gridfs_unlink (ref_env []) ''/b''"]
  by (auto simp: plain_path)

end
