(* ===== verification/Shared_Files.thy ===== *)
theory Shared_Files
  imports Refinement Open_Dirs
begin

text \<open>
  The file system of theory Abstract_Fs with open files, as the kernel sees it: requests by
  path and requests through handles in any order, several handles on one file included. Its requests
  on directories are in the definitions; theory Shared_Dirs has their proofs and the simulation. What a
  handle promises is consistency from close to open: what was written through it appears to
  others when it is released, whatever happened to its path in the meantime, and it may be read
  as long as nothing else changed its path. The last release wins, and it takes the attributes with it
  that its handle saw first.
\<close>

section \<open>Open files\<close>

text \<open>
  \<open>o_seen\<close> is the node that the handle looked at first, \<open>o_fresh\<close> says that the path has not been
  changed by others since it was opened, \<open>o_reads\<close> that nothing was written.
\<close>

record open_file =
  o_path :: string
  o_seen :: "node option"
  o_written :: bytes
  o_dirty :: bool
  o_fresh :: bool
  o_reads :: bool

record shared_fs =
  nodes :: afs
  open_files :: "nat \<rightharpoonup> open_file"
  open_dirs :: "nat \<rightharpoonup> string"
  next_handle :: nat
  asserts :: bool

text \<open>
  No handle is open, the next one has the number \<open>k\<close>; \<open>b\<close> says whether the program was built with
  assertions: one of them makes \<open>open\<close> look at the file.
\<close>

definition started :: "bool \<Rightarrow> afs \<Rightarrow> nat \<Rightarrow> shared_fs" where
  "started b fs k = \<lparr>nodes = fs, open_files = Map.empty, open_dirs = Map.empty, next_handle = k, asserts = b\<rparr>"

definition opened_at :: "string \<Rightarrow> node option \<Rightarrow> open_file" where
  "opened_at p seen = \<lparr>o_path = p, o_seen = seen, o_written = [], o_dirty = False, o_fresh = True, o_reads = True\<rparr>"

text \<open>The handle looks at its path.\<close>

definition look :: "afs \<Rightarrow> open_file \<Rightarrow> open_file" where
  "look fs v = (if o_seen v = None then v\<lparr>o_seen := fs (o_path v)\<rparr> else v)"

text \<open>Something else changed the path \<open>p\<close>.\<close>

definition outdated :: "string \<Rightarrow> open_file \<Rightarrow> open_file" where
  "outdated p v = (if o_path v = p then v\<lparr>o_fresh := False\<rparr> else v)"

definition outdate :: "string \<Rightarrow> (nat \<rightharpoonup> open_file) \<Rightarrow> nat \<rightharpoonup> open_file" where
  "outdate p t = (\<lambda>h. map_option (outdated p) (t h))"

section \<open>Requests\<close>

definition on_file :: "shared_fs \<Rightarrow> nat \<Rightarrow> (open_file \<Rightarrow> reply \<times> shared_fs) \<Rightarrow> reply \<times> shared_fs" where
  "on_file st h g = (case open_files st h of None \<Rightarrow> ((- EIO, Nothing), st) | Some v \<Rightarrow> g v)"

definition put_file :: "nat \<Rightarrow> open_file \<Rightarrow> shared_fs \<Rightarrow> shared_fs" where
  "put_file h v st = st\<lparr>open_files := (open_files st)(h \<mapsto> v)\<rparr>"

definition add_file :: "open_file \<Rightarrow> shared_fs \<Rightarrow> shared_fs" where
  "add_file v st = (put_file (next_handle st) v st)\<lparr>next_handle := Suc (next_handle st)\<rparr>"

fun shared_apply :: "gridfs_config \<Rightarrow> int \<Rightarrow> request \<Rightarrow> shared_fs \<Rightarrow> reply \<times> shared_fs" where
  "shared_apply c t (Create q mode) st = (let p = configure_path c q in case nodes st p of
     Some n \<Rightarrow> ((- EEXIST, Handle (next_handle st)), st\<lparr>next_handle := Suc (next_handle st)\<rparr>)
   | None \<Rightarrow> ((0, Handle (next_handle st)), add_file (opened_at p None)
       (st\<lparr>nodes := (nodes st)(p \<mapsto> made c t (S_IFREG OR mode) []), open_files := outdate p (open_files st)\<rparr>)))"
| "shared_apply c t (Open q) st =
     (let p = configure_path c q in ((0, Handle (next_handle st)),
       add_file (opened_at p (if asserts st then nodes st p else None)) st))"
| "shared_apply c t (Write h data off) st = on_file st h (\<lambda>v.
     if off = int (length (o_written v))
     then ((int (length data), Nothing),
       put_file h (v\<lparr>o_written := o_written v @ data, o_dirty := True, o_reads := False\<rparr>) st)
     else ((- EIO, Nothing), put_file h (v\<lparr>o_reads := False\<rparr>) st))"
| "shared_apply c t (Read h sz off) st = on_file st h (\<lambda>v. case nodes st (o_path v) of
     None \<Rightarrow> ((0, Content []), st)
   | Some n \<Rightarrow> (let bs = take (nat sz) (drop (nat off) (n_content n))
       in ((int (length bs), Content bs), put_file h (look (nodes st) v) st)))"
| "shared_apply c t (Release q h) st = on_file st h (\<lambda>v. let p = o_path v in
     ((0, Nothing), if o_dirty v
       then st\<lparr>nodes := (case o_seen (look (nodes st) v) of None \<Rightarrow> nodes st
           | Some n \<Rightarrow> (nodes st)(p \<mapsto> n\<lparr>n_content := o_written v\<rparr>)),
         open_files := (outdate p (open_files st))(h := None)\<rparr>
       else st\<lparr>open_files := (open_files st)(h := None)\<rparr>))"
| "shared_apply c t (Opendir q) st = (let p = configure_path c q in case nodes st p of
     None \<Rightarrow> ((- ENOENT, Handle 0), st)
   | Some n \<Rightarrow> ((0, Handle (next_handle st)),
       st\<lparr>open_dirs := (open_dirs st)(next_handle st \<mapsto> p), next_handle := Suc (next_handle st)\<rparr>))"
| "shared_apply c t (Readdir h) st = (case open_dirs st h of
     None \<Rightarrow> ((- EIO, Nothing), st) | Some p \<Rightarrow> ((0, Nothing), st))"
| "shared_apply c t (Releasedir h) st = (case open_dirs st h of
     None \<Rightarrow> ((- EIO, Nothing), st)
   | Some p \<Rightarrow> ((0, Nothing), st\<lparr>open_dirs := (open_dirs st)(h := None)\<rparr>))"
| "shared_apply c t req st = (let (r, ns) = fs_apply c t (Call req) (nodes st) in (r,
     st\<lparr>nodes := ns, open_files := (if fst r \<noteq> 0 \<or> looks (Call req) then open_files st
       else outdate (configure_path c (target_path (Call req))) (open_files st))\<rparr>))"

text \<open>
  Where the callbacks keep to this: for requests by path as in Abstract_Fs; a file is read
  through a handle that nothing was written to and that is fresh; changes are released through a
  handle that saw its file before, or while there is one; contents stay below \<open>2 ^ 31\<close> bytes; a directory whose path has no opening brace is
  listed through its handle, when no path has a NUL.
\<close>

fun permitted :: "gridfs_config \<Rightarrow> shared_fs \<Rightarrow> request \<Rightarrow> bool" where
  "permitted c st (Create q mode) \<longleftrightarrow> outside_proc c q"
| "permitted c st (Open q) \<longleftrightarrow> outside_proc c q \<and> nodes st (configure_path c q) \<noteq> None"
| "permitted c st (Write h data off) \<longleftrightarrow> (\<exists>v. open_files st h = Some v \<and> 0 \<le> off \<and> off < 2 ^ 63 \<and>
     length (o_written v) + length data < 2 ^ 31)"
| "permitted c st (Read h sz off) \<longleftrightarrow> (\<exists>v. open_files st h = Some v \<and> o_fresh v \<and> o_reads v \<and>
     0 \<le> off \<and> 0 \<le> sz \<and> off + sz < 2 ^ 63)"
| "permitted c st (Release q h) \<longleftrightarrow> (\<exists>v. open_files st h = Some v \<and> o_path v = configure_path c q \<and>
     (o_dirty v \<longrightarrow> o_seen (look (nodes st) v) \<noteq> None))"
| "permitted c st (Opendir q) \<longleftrightarrow> outside_proc c q"
| "permitted c st (Readdir h) \<longleftrightarrow> (\<exists>p. open_dirs st h = Some p \<and> CHR ''{'' \<notin> set p) \<and>
     c_paths (nodes st)"
| "permitted c st (Releasedir h) \<longleftrightarrow> open_dirs st h \<noteq> None"
| "permitted c st req \<longleftrightarrow> by_path req \<and> allowed c (nodes st) (Call req)"

lemma permitted_cases:
  assumes "permitted c st req"
  obtains q mode where "req = Create q mode" | q where "req = Open q"
  | h data off where "req = Write h data off" | h sz off where "req = Read h sz off"
  | q h where "req = Release q h"
  | q where "req = Opendir q" | h where "req = Readdir h" | h where "req = Releasedir h"
  | "by_path req" "allowed c (nodes st) (Call req)"
  using assms by (cases "(c, st, req)" rule: permitted.cases) auto

lemma shared_apply_path:
  assumes "by_path req"
  shows "shared_apply c t req st = (let (r, ns) = fs_apply c t (Call req) (nodes st) in (r,
     st\<lparr>nodes := ns, open_files := (if fst r \<noteq> 0 \<or> looks (Call req) then open_files st
       else outdate (configure_path c (target_path (Call req))) (open_files st))\<rparr>))"
  using assms by (cases req; hypsubst; simp only: shared_apply.simps by_path.simps)

section \<open>Objects and open files\<close>

text \<open>The object holds the \<open>GridFile\<close> of a document with the attributes of the node.\<close>

definition seen_rel :: "gridfs_config \<Rightarrow> file_obj \<Rightarrow> node \<Rightarrow> bool" where
  "seen_rel c f n \<longleftrightarrow> (\<exists>g d. theGridFile f = Some g \<and> shows_doc g (Some d) \<and> node_of c d = Some n \<and>
     time_fits (n_time n))"

definition file_rel :: "gridfs_config \<Rightarrow> doc list \<Rightarrow> file_obj \<Rightarrow> open_file \<Rightarrow> bool" where
  "file_rel c ds f v \<longleftrightarrow> thePath f = o_path v \<and> writer_ok f \<and> written f = o_written v \<and>
     theHasChanges f = o_dirty v \<and> length (o_written v) < 2 ^ 31 \<and>
     (o_reads v \<longrightarrow> theCurrentDataSize f = 0 \<and> linked f) \<and>
     (case o_seen v of None \<Rightarrow> theGridFile f = None | Some n \<Rightarrow> seen_rel c f n) \<and>
     (o_fresh v \<longrightarrow> current ds f \<and>
       (\<exists>d. newest (o_path v) ds = Some d \<and> (o_reads v \<longrightarrow> reader_ok ds d f)))"

lemma file_rel_docs:
  assumes "file_rel c ds f v" "newest (o_path v) ds' = newest (o_path v) ds"
  shows "file_rel c ds' f v"
  using assms by (auto simp: file_rel_def current_def reader_ok_def)

lemma file_rel_outdated:
  assumes "file_rel c ds f v" "only_path p ds ds'"
  shows "file_rel c ds' f (outdated p v)"
proof (cases "o_path v = p")
  case True
  then show ?thesis using assms(1) by (simp add: file_rel_def outdated_def)
next
  case False
  then show ?thesis using file_rel_docs [OF assms(1), of ds'] assms(2) by (simp add: outdated_def only_path_def)
qed

definition files_rel :: "gridfs_config \<Rightarrow> doc list \<Rightarrow> (nat \<rightharpoonup> file_info) \<Rightarrow> (nat \<rightharpoonup> open_file) \<Rightarrow> bool" where
  "files_rel c ds t u \<longleftrightarrow> (\<forall>h v. u h = Some v \<longrightarrow> (\<exists>f. t h = Some (FILE f) \<and> file_rel c ds f v))"

lemma files_relD:
  assumes "files_rel c ds t u" "u h = Some v"
  obtains f where "t h = Some (FILE f)" "file_rel c ds f v"
  using assms by (auto simp: files_rel_def)

lemma files_rel_docs: "files_rel c ds t u \<Longrightarrow> (\<And>q. newest q ds' = newest q ds) \<Longrightarrow> files_rel c ds' t u"
  unfolding files_rel_def by (metis file_rel_docs)

lemma files_rel_outdate: "files_rel c ds t u \<Longrightarrow> only_path p ds ds' \<Longrightarrow> files_rel c ds' t (outdate p u)"
  unfolding files_rel_def outdate_def using file_rel_outdated by fastforce

lemma files_rel_put: "files_rel c ds t u \<Longrightarrow> file_rel c ds f v \<Longrightarrow> files_rel c ds (t(h \<mapsto> FILE f)) (u(h \<mapsto> v))"
  by (auto simp: files_rel_def)

lemma files_rel_drop: "files_rel c ds t u \<Longrightarrow> files_rel c ds (t(h := None)) (u(h := None))"
  by (auto simp: files_rel_def)

text \<open>A handle that the client does not have.\<close>

lemma files_rel_extra: "files_rel c ds t u \<Longrightarrow> t h = None \<Longrightarrow> files_rel c ds (t(h \<mapsto> fi)) u"
  by (fastforce simp: files_rel_def)

definition dirs_rel :: "(nat \<rightharpoonup> file_info) \<Rightarrow> (nat \<rightharpoonup> string) \<Rightarrow> bool" where
  "dirs_rel t u \<longleftrightarrow> (\<forall>h p. u h = Some p \<longrightarrow> (\<exists>e. t h = Some (DIRECTORY e) \<and> thePath e = p))"

lemma dirs_relD:
  assumes "dirs_rel t u" "u h = Some p"
  obtains e where "t h = Some (DIRECTORY e)" "thePath e = p"
  using assms by (auto simp: dirs_rel_def)

text \<open>What happens to a handle that is not one of a directory.\<close>

lemma dirs_rel_other: "dirs_rel t u \<Longrightarrow> \<forall>e. t h \<noteq> Some (DIRECTORY e) \<Longrightarrow> dirs_rel (t(h := x)) u"
  by (fastforce simp: dirs_rel_def)

lemma dirs_rel_put: "dirs_rel t u \<Longrightarrow> thePath e = p \<Longrightarrow> dirs_rel (t(h \<mapsto> DIRECTORY e)) (u(h \<mapsto> p))"
  by (auto simp: dirs_rel_def)

lemma dirs_rel_drop: "dirs_rel t u \<Longrightarrow> dirs_rel (t(h := None)) (u(h := None))"
  by (auto simp: dirs_rel_def)

text \<open>What happens to a handle that is not one of a file.\<close>

lemma files_rel_other: "files_rel c ds t u \<Longrightarrow> \<forall>f. t h \<noteq> Some (FILE f) \<Longrightarrow> files_rel c ds (t(h := x)) u"
  by (fastforce simp: files_rel_def)

section \<open>The simulation\<close>

interpretation addr: stack_frame "\<lambda>_ _ s. next_addr s = k" for k
  by unfold_locales (simp_all add: take_connection_def drop_connection_def memcache_acquire_def memcache_release_def)

lemma by_path_addr:
  assumes "by_path req" "serve E filler req s = (Ret r, s')"
  shows "next_addr s' = next_addr s"
proof -
  have "keeps (\<lambda>s. next_addr s = k) (serve E filler req)" for k
    using assms(1) by (cases req; simp add: serve_def)
      (intro keeps_no_payload keeps_optional addr.getattr_keeps addr.mkdir_keeps addr.rmdir_keeps
        addr.unlink_keeps addr.symlink_keeps addr.readlink_keeps addr.chmod_keeps addr.chown_keeps
        addr.truncate_keeps addr.utimens_keeps)+
  from keepsD [OF this [of "next_addr s"] refl assms(2)] show ?thesis by simp
qed

context mounted
begin

lemma new_file_rel: "newest p ds = Some d \<Longrightarrow> file_rel c ds (fresh_file p) (opened_at p None)"
  by (simp add: file_rel_def opened_at_def fresh_file_ok linked_def)

definition related :: "('w, 'x) fuse_state_scheme \<Rightarrow> shared_fs \<Rightarrow> bool" where
  "related s st \<longleftrightarrow> mount_ok s \<and> nodes st = fs s \<and> next_handle st = next_addr s \<and>
     asserts st = (\<not> ndebug E) \<and> files_rel (config E) (docs (world s)) (objects s) (open_files st) \<and> dirs_rel (objects s) (open_dirs st)"

lemma relatedD:
  assumes "related s st"
  shows "mount_ok s" "nodes st = fs s" "next_handle st = next_addr s"
    "files_rel (config E) (docs (world s)) (objects s) (open_files st)" "dirs_rel (objects s) (open_dirs st)"
    "asserts st = (\<not> ndebug E)"
  using assms by (simp_all add: related_def)

text \<open>What a request did, in the terms of the abstract system.\<close>

definition answered ::
  "request \<Rightarrow> shared_fs \<Rightarrow> ('w, 'x, reply) callback \<Rightarrow> ('w, 'x) fuse_state_scheme \<Rightarrow> bool" where
  "answered req st m s \<longleftrightarrow> (\<exists>t r s' st'. time_fits t \<and> m s = (Ret r, s') \<and>
     shared_apply (config E) t req st = (r, st') \<and> related s' st')"

lemma answeredI:
  assumes "m s = (Ret r, s')" "shared_apply (config E) t req st = (r, st')" "time_fits t" "related s' st'"
  shows "answered req st m s"
  using assms unfolding answered_def by blast

lemma path_answered:
  assumes rel: "related s st" and req: "by_path req" "allowed (config E) (nodes st) (Call req)"
  shows "answered req st (serve E filler req) s"
proof -
  let ?op = "Call req"
  note R = relatedD [OF rel]
  obtain r s' where s': "serve E filler req s = (Ret r, s')" and sim: "simulated ?op s r s'"
    using operation_simulated [OF R(1), of ?op filler] req(2) R(2) by (auto simp: perform_def)
  obtain t where t: "time_fits t" "fs_apply (config E) t ?op (fs s) = (r, fs s')"
    and ok: "mount_ok s'" and same: "same_process s s'"
    and u: "untouched ?op r (docs (world s)) (docs (world s'))"
    using sim by (auto simp: simulated_def)
  let ?files = "if fst r \<noteq> 0 \<or> looks ?op then open_files st
    else outdate (configure_path (config E) (target_path ?op)) (open_files st)"
  have "files_rel (config E) (docs (world s')) (objects s') ?files"
    using u same files_rel_docs [OF R(4), of "docs (world s')"]
      files_rel_outdate [OF R(4), of "configure_path (config E) (target_path ?op)" "docs (world s')"]
    by (auto simp: untouched_def same_process_def)
  then have "related s' (st\<lparr>nodes := fs s', open_files := ?files\<rparr>)"
    using ok same R(3,5,6) by_path_addr [OF req(1) s'] by (simp add: related_def same_process_def)
  moreover have "shared_apply (config E) t req st = (r, st\<lparr>nodes := fs s', open_files := ?files\<rparr>)"
    using t(2) R(2) by (simp add: shared_apply_path [OF req(1)])
  ultimately show ?thesis using s' t(1) by (intro answeredI)
qed

lemma mount_ok_step:
  assumes "mount_ok s" "calm docs cached (world s) (world s')" "table_ok s'"
  shows "mount_ok s'" "fs s' = fs s"
  using assms coherent_step [OF mount_okD(1) [OF assms(1)] assms(2)]
  by (auto simp: mount_ok_def fs_def calm_def)

lemma new_handle_table: "table_ok s \<Longrightarrow> new_handle fh f s s' \<Longrightarrow> table_ok s' \<and> objects s fh = None"
  using table_ok_fresh [of s] by (auto simp: table_ok_def new_handle_def less_Suc_eq)

lemma live_handle: "mount_ok s \<Longrightarrow> objects s h = Some fi \<Longrightarrow> h \<noteq> 0"
  using table_ok_null [of s] mount_okD(3) [of s] by (metis option.distinct(1))

lemma open_answered:
  assumes rel: "related s st" and np: "outside_proc (config E) q"
    and there: "nodes st (configure_path (config E) q) \<noteq> None"
  shows "answered (Open q) st (serve E filler (Open q)) s"
proof -
  let ?p = "configure_path (config E) q"
  note R = relatedD [OF rel] and M = mount_okD [OF relatedD(1) [OF rel]]
  have np': "\<not> is_proc (config E) ?p" using np by (simp add: outside_proc_def)
  obtain d where d: "newest ?p (docs (world s)) = Some d"
    using there R(2) fs_free [OF R(1), of ?p] by auto
  obtain f s' where o: "gridfs_open E q 0 s = (Ret (0, next_addr s), s')" "new_handle (next_addr s) f s s'"
    "calm docs cached (world s) (world s')" "reader_ok (docs (world s')) d f" "writer_ok f" "written f = []"
    "\<not> theHasChanges f" "thePath f = ?p" "theCurrentDataSize f = 0"
    "ndebug E \<longrightarrow> f = fresh_file ?p" "ndebug E \<or> theGridFile f \<noteq> None"
    using open_run [OF refl np' d] by blast
  obtain n where n: "fs s ?p = Some n" "node_of (config E) d = Some n" "time_fits (n_time n)"
    by (rule fs_cases [OF R(1), of ?p]) (use d in auto)
  let ?v = "opened_at ?p (if asserts st then nodes st ?p else None)"
  note tab = new_handle_table [OF M(3) o(2)]
  have dd: "docs (world s') = docs (world s)" using o(3) by (simp add: calm_def)
  have "seen_rel (config E) f n" if "\<not> ndebug E"
    using that o(4,8,11) d dd n(2,3) by (auto simp: seen_rel_def reader_ok_def current_def)
  moreover have "linked f" using o(10,11)
    by (cases "ndebug E") (simp_all add: linked_def fresh_file_ok)
  moreover have "theGridFile f = None" if "ndebug E" using that o(10) by (simp add: fresh_file_ok)
  ultimately have "file_rel (config E) (docs (world s')) f ?v"
    using o(4-9) d dd R(2,6) n(1) by (simp add: file_rel_def opened_at_def reader_ok_def)
  then have "related s' (add_file ?v st)"
    using mount_ok_step [OF R(1) o(3)] tab R(2-6) o(2) dd
    by (simp add: related_def add_file_def put_file_def new_handle_def files_rel_put dirs_rel_other)
  then show ?thesis
    using o(1) R(3) some_time by (intro answeredI [where t = 0]) (simp_all add: serve_def bind_run comp_simps Let_def)
qed

lemma create_answered:
  assumes rel: "related s st" and np: "outside_proc (config E) q"
  shows "answered (Create q mode) st (serve E filler (Create q mode)) s"
proof -
  let ?p = "configure_path (config E) q"
  note R = relatedD [OF rel] and M = mount_okD [OF relatedD(1) [OF rel]]
  have np': "\<not> is_proc (config E) ?p" using np by (simp add: outside_proc_def)
  show ?thesis
  proof (cases "newest ?p (docs (world s)) = None")
    case True
    obtain d s' where c: "gridfs_create E q mode s = (Ret (0, next_addr s), s')"
      "new_handle (next_addr s) (fresh_file ?p) s s'" "docs (world s') = docs (world s) @ [d]"
      "new_doc ?p (S_IFREG OR mode) (default_uid (config E)) (default_gid (config E)) [] (docs (world s)) d"
      "cached (world s') \<subseteq>\<^sub>m cached (world s)"
      using create_run(1) [OF refl np' True] by blast
    note tab = new_handle_table [OF M(3) c(2)]
    have name: "d_name d = ?p" using c(4) by (auto simp: new_doc_def stored_doc_def)
    have new: "newest ?p (docs (world s')) = Some d" using c(3) name by (simp add: newest_snoc)
    have only: "only_path ?p (docs (world s)) (docs (world s'))" using c(3) name by (simp add: only_path_snoc)
    have "wf_docs (docs (world s'))" using new_doc_wf [OF M(4) c(4)] c(3) by simp
    from new_doc_set [OF R(1) c(4) _ new only this] obtain t where t: "time_fits t"
      "node_set (config E) ?p (made (config E) t (S_IFREG OR mode) []) (docs (world s)) (docs (world s'))"
      by auto
    have co: "coherent E docs cached s'" by (rule coherent_added [OF M(1) True only c(5)])
    note set = node_set_fs [OF M(2) t(2)]
    have "files_rel (config E) (docs (world s')) ((objects s)(next_addr s \<mapsto> FILE (fresh_file ?p)))
        ((outdate ?p (open_files st))(next_addr s \<mapsto> opened_at ?p None))"
      by (rule files_rel_put [OF files_rel_outdate [OF R(4) only] new_file_rel [OF new]])
    then have "related s' (add_file (opened_at ?p None) (st\<lparr>nodes := fs s', open_files := outdate ?p (open_files st)\<rparr>))"
      using co set(2) tab R(3,5,6) c(2)
      by (simp add: related_def mount_ok_def add_file_def put_file_def new_handle_def dirs_rel_other)
    moreover have "nodes st ?p = None" using True fs_free [OF R(1), of ?p] R(2) by simp
    ultimately show ?thesis
      using c(1) R(2,3) t(1) set(1)
      by (intro answeredI [where t = t]) (simp_all add: serve_def bind_run comp_simps Let_def fs_def)
  next
    case False
    then obtain n where n: "nodes st ?p = Some n" using fs_free [OF R(1), of ?p] R(2) by auto
    obtain f s' where c: "gridfs_create E q mode s = (Ret (- EEXIST, next_addr s), s')"
      "new_handle (next_addr s) f s s'" "calm docs cached (world s) (world s')"
      using create_run(2) [OF refl np' False] by blast
    note tab = new_handle_table [OF M(3) c(2)]
    have "related s' (st\<lparr>next_handle := Suc (next_handle st)\<rparr>)"
      using mount_ok_step [OF R(1) c(3)] tab R c(2,3) files_rel_extra [OF R(4), of "next_addr s" "FILE f"]
      by (simp add: related_def new_handle_def calm_def dirs_rel_other)
    then show ?thesis
      using c(1) R(3) n some_time
      by (intro answeredI [where t = 0]) (simp_all add: serve_def bind_run comp_simps Let_def)
  qed
qed

text \<open>A step on the object behind a handle.\<close>

lemma step_related:
  assumes rel: "related s st" and step: "file_step docs cached h f' s s'"
    and live: "objects s h = Some (FILE f)" and v: "file_rel (config E) (docs (world s)) f' v"
  shows "related s' (put_file h v st)"
proof -
  note R = relatedD [OF rel]
  have dd: "docs (world s') = docs (world s)" and c: "calm docs cached (world s) (world s')"
    using step by (simp_all add: file_step_def calm_def)
  have "table_ok s'"
    using mount_okD(3) [OF R(1)] step live by (auto simp: table_ok_def file_step_def)
  then show ?thesis
    using mount_ok_step [OF R(1) c] R(2-6) step live v dd
    by (simp add: related_def put_file_def file_step_def files_rel_put dirs_rel_other)
qed

lemma write_answered:
  assumes rel: "related s st" and v: "open_files st h = Some v" and off: "0 \<le> off" "off < 2 ^ 63"
    and len: "length (o_written v) + length data < 2 ^ 31"
  shows "answered (Write h data off) st (serve E filler (Write h data off)) s"
proof -
  note R = relatedD [OF rel]
  obtain f where f: "objects s h = Some (FILE f)" "file_rel (config E) (docs (world s)) f v"
    by (rule files_relD [OF R(4) v])
  note fh = live_handle [OF R(1) f(1)]
  have w: "writer_ok f" "written f = o_written v" using f(2) by (simp_all add: file_rel_def)
  show ?thesis
  proof (cases "off = int (length (o_written v))")
    case True
    have room: "length (written f) + length data < 2 ^ 31" using len w(2) by simp
    obtain f' s' where 1: "gridfs_write E data off h s = (Ret (int (length data)), s')"
      "file_step docs cached h f' s s'" "written f' = written f @ data" "writer_ok f'" "theHasChanges f'"
      "thePath f' = thePath f" "theGridFile f' = theGridFile f"
      using write_run [OF fh f(1) w(1) room] unfolding True w(2) [symmetric] by blast
    let ?v = "v\<lparr>o_written := o_written v @ data, o_dirty := True, o_reads := False\<rparr>"
    have "file_rel (config E) (docs (world s)) f' ?v"
      using f(2) 1(3-7) len by (auto simp: file_rel_def current_def seen_rel_def split: option.splits)
    from step_related [OF rel 1(2) f(1) this] show ?thesis
      using no_payload_run [where m = "gridfs_write E data off h", OF 1(1)] True v some_time
      by (intro answeredI [where t = 0]) (simp_all add: serve_def on_file_def)
  next
    case False
    have "c_size_t off = off" using off by (intro c_size_t_id) auto
    then have "theWritten f \<noteq> c_size_t off" using written_length [OF w(1)] w(2) False by simp
    then obtain f' s' where 1: "gridfs_write E data off h s = (Ret (- EIO), s')"
      "file_step docs cached h f' s s'" "written f' = written f" "theHasChanges f' = theHasChanges f"
      "writer_ok f'" "thePath f' = thePath f" "theGridFile f' = theGridFile f"
      using write_elsewhere_run [OF fh f(1), of off data] w(1) by blast
    have "file_rel (config E) (docs (world s)) f' (v\<lparr>o_reads := False\<rparr>)"
      using f(2) 1(3-7) by (auto simp: file_rel_def current_def seen_rel_def split: option.splits)
    from step_related [OF rel 1(2) f(1) this] show ?thesis
      using no_payload_run [where m = "gridfs_write E data off h", OF 1(1)] False v some_time
      by (intro answeredI [where t = 0]) (simp_all add: serve_def on_file_def)
  qed
qed

lemma read_answered:
  assumes rel: "related s st" and v: "open_files st h = Some v" "o_fresh v" "o_reads v"
    and r: "0 \<le> off" "0 \<le> sz" "off + sz < 2 ^ 63"
  shows "answered (Read h sz off) st (serve E filler (Read h sz off)) s"
proof -
  note R = relatedD [OF rel] and M = mount_okD [OF relatedD(1) [OF rel]]
  obtain f where f: "objects s h = Some (FILE f)" "file_rel (config E) (docs (world s)) f v"
    by (rule files_relD [OF R(4) v(1)])
  note fh = live_handle [OF R(1) f(1)]
  obtain d where d: "newest (o_path v) (docs (world s)) = Some d" "reader_ok (docs (world s)) d f"
    using f(2) v(2,3) by (auto simp: file_rel_def)
  obtain n where n: "fs s (o_path v) = Some n" "managed_doc (config E) d" "n_content n = doc_content d"
    "node_of (config E) d = Some n" "time_fits (n_time n)"
    by (rule fs_cases [OF R(1), of "o_path v"]) (use d(1) in auto)
  have cs: "0 < d_chunk d" "d_chunk d < 2 ^ 31" using M(4) newest_in [OF d(1)] by (auto simp: wf_docs_def)
  let ?bs = "take (nat sz) (drop (nat off) (n_content n))"
  obtain f' s' where 1: "gridfs_read E sz off h s = (Ret (int (length ?bs), ?bs), s')"
    "file_step docs cached h f' s s'" "reader_ok (docs (world s')) d f'" "thePath f' = thePath f"
    "writer_part f' = writer_part f" "linked f \<longrightarrow> theGridFile f' \<noteq> None \<and> linked f'"
    "\<forall>g. theGridFile f = Some g \<longrightarrow> theGridFile f' = Some g"
    using read_run [OF fh f(1) d(2) _ _ cs r] managed_sound [OF n(2)] n(3) by auto
  have dd: "docs (world s') = docs (world s)" using 1(2) by (simp add: file_step_def calm_def)
  have buf: "theCurrentDataSize f = 0" "writer_ok f" using f(2) v(3) by (simp_all add: file_rel_def)
  have "writer_ok f' \<and> written f' = written f \<and> theHasChanges f' = theHasChanges f \<and> theCurrentDataSize f' = 0"
    using 1(3,5) buf cs by (auto simp: writer_part_def writer_ok_def written_def buffer_ok_def reader_ok_def)
  moreover have link: "theGridFile f' \<noteq> None" "linked f'" using f(2) v(3) 1(6) by (simp_all add: file_rel_def)
  moreover have "case o_seen (look (nodes st) v) of None \<Rightarrow> theGridFile f' = None | Some n \<Rightarrow> seen_rel (config E) f' n"
  proof (cases "o_seen v")
    case None
    have "seen_rel (config E) f' n"
      using link(1) 1(3) n(4,5) by (auto simp: seen_rel_def reader_ok_def current_def)
    then show ?thesis using None R(2) n(1) by (simp add: look_def)
  next
    case (Some m)
    then show ?thesis using f(2) 1(7) by (auto simp: look_def file_rel_def seen_rel_def)
  qed
  moreover have "o_path (look fs v) = o_path v \<and> o_written (look fs v) = o_written v \<and>
      o_dirty (look fs v) = o_dirty v \<and> o_fresh (look fs v) = o_fresh v \<and> o_reads (look fs v) = o_reads v" for fs
    by (simp add: look_def)
  ultimately have "file_rel (config E) (docs (world s)) f' (look (nodes st) v)"
    using f(2) 1(3,4) dd d(1) by (simp add: file_rel_def reader_ok_def)
  from step_related [OF rel 1(2) f(1) this] show ?thesis
    using 1(1) v(1) n(1) R(2) some_time
    by (intro answeredI [where t = 0]) (simp_all add: serve_def on_file_def bind_run comp_simps Let_def)
qed

text \<open>What \<open>store\<close> takes the attributes from.\<close>

lemma look_found:
  assumes ok: "mount_ok s" and f: "file_rel (config E) (docs (world s)) f v" and n: "o_seen (look (fs s) v) = Some n"
  obtains g d s0 where "gridfile E (f, s) = (Ret g, (f\<lparr>theGridFile := Some g\<rparr>, s0))"
    "gf_content_type g = Inr (d_type d)" "evolves docs cached s (docs (world s)) s0"
    "node_of (config E) d = Some n" "time_fits (n_time n)"
proof (cases "o_seen v")
  case None
  then have none: "theGridFile f = None" and p: "thePath f = o_path v" using f by (simp_all add: file_rel_def)
  have "fs s (o_path v) = Some n" using n None by (simp add: look_def)
  then obtain d where d: "newest (o_path v) (docs (world s)) = Some d" "node_of (config E) d = Some n"
    "time_fits (n_time n)"
    using fs_cases [OF ok, of "o_path v"] by (metis option.distinct(1) option.inject)
  have "current (docs (world s)) f" using none by (simp add: current_def)
  from gridfile_shown [OF this, of d] d p that show thesis by metis
next
  case (Some m)
  then have "seen_rel (config E) f n" using f n by (simp add: file_rel_def look_def)
  then obtain g d where g: "theGridFile f = Some g" "shows_doc g (Some d)" "node_of (config E) d = Some n"
    "time_fits (n_time n)" by (auto simp: seen_rel_def)
  have "f\<lparr>theGridFile := Some g\<rparr> = f" using g(1) by simp
  then have "gridfile E (f, s) = (Ret g, (f\<lparr>theGridFile := Some g\<rparr>, s))"
    using g(1) by (simp add: gridfile_def bind_run comp_simps)
  moreover have "gf_content_type g = Inr (d_type d)" using g(2) by (simp add: shows_doc_def)
  ultimately show thesis using that g(3,4) by simp
qed

lemma release_answered:
  assumes rel: "related s st" and v: "open_files st h = Some v" "o_path v = configure_path (config E) q"
    and seen: "o_dirty v \<Longrightarrow> o_seen (look (nodes st) v) \<noteq> None"
  shows "answered (Release q h) st (serve E filler (Release q h)) s"
proof -
  let ?p = "o_path v"
  note R = relatedD [OF rel] and M = mount_okD [OF relatedD(1) [OF rel]]
  obtain f where f: "objects s h = Some (FILE f)" "file_rel (config E) (docs (world s)) f v"
    by (rule files_relD [OF R(4) v(1)])
  note fh = live_handle [OF R(1) f(1)]
  have w: "thePath f = ?p" "writer_ok f" "written f = o_written v" "theHasChanges f = o_dirty v"
    "length (o_written v) < 2 ^ 31" using f(2) by (simp_all add: file_rel_def)
  have gone: "table_ok s'" if "closed h s s'" for s'
    using M(3) that by (auto simp: table_ok_def closed_def split: if_splits)
  show ?thesis
  proof (cases "o_dirty v")
    case False
    then have 1: "gridfs_release E q h s = (Ret 0, destroy_handle h s)"
      using release_clean_run [OF fh f(1)] w(4) by simp
    note cl = destroy_file_closed [OF f(1)]
    have c: "calm docs cached (world s) (world (destroy_handle h s))" using cl(2) by (simp add: calm_def)
    have "related (destroy_handle h s) (st\<lparr>open_files := (open_files st)(h := None)\<rparr>)"
      using mount_ok_step [OF R(1) c gone [OF cl(1)]] R(2-6) f(1) cl
      by (simp add: related_def closed_def files_rel_drop dirs_rel_other)
    then show ?thesis
      using no_payload_run [where m = "gridfs_release E q h", OF 1] False v(1) some_time
      by (intro answeredI [where t = 0]) (simp_all add: serve_def on_file_def Let_def)
  next
    case True
    then obtain n where n: "o_seen (look (fs s) v) = Some n" using seen R(2) by auto
    obtain g d s0 where g: "gridfile E (f, s) = (Ret g, (f\<lparr>theGridFile := Some g\<rparr>, s0))"
      "gf_content_type g = Inr (d_type d)" "evolves docs cached s (docs (world s)) s0"
      "node_of (config E) d = Some n" "time_fits (n_time n)"
      by (rule look_found [OF R(1) f(2) n])
    have "theHasChanges f" using w(4) True by simp
    from release_fetched [OF v(2) fh f(1) w(1) this w(2) g(1-3) M(1)]
    obtain d' s' where 1: "gridfs_release E q h s = (Ret 0, s')" "closed h s s'"
      "docs (world s') = docs (world s) @ [d']"
      "stored_doc ?p (d_type d) (o_written v) (docs (world s)) d'" "coherent E docs cached s'"
      using w(3) by auto
    have name: "d_name d' = ?p" using 1(4) by (simp add: stored_doc_def)
    have only: "only_path ?p (docs (world s)) (docs (world s'))" using 1(3) name by (simp add: only_path_snoc)
    have "newest ?p (docs (world s')) = Some d'" using 1(3) name by (simp add: newest_snoc)
    moreover have "wf_docs (docs (world s'))" using stored_doc_wf [OF M(4) 1(4)] 1(3) by simp
    ultimately have "node_set (config E) ?p (n\<lparr>n_content := o_written v\<rparr>) (docs (world s)) (docs (world s'))"
      using only stored_doc_node [OF 1(4) g(4,5) w(5)] by (auto simp: node_set_def)
    note set = node_set_fs [OF M(2) this]
    have "files_rel (config E) (docs (world s')) (objects s') ((outdate ?p (open_files st))(h := None))"
      using files_rel_drop [OF files_rel_outdate [OF R(4) only]] 1(2) by (simp add: closed_def)
    then have "related s' (st\<lparr>nodes := (fs s)(?p \<mapsto> n\<lparr>n_content := o_written v\<rparr>),
        open_files := (outdate ?p (open_files st))(h := None)\<rparr>)"
      using 1(2,5) set gone [OF 1(2)] R(3,5,6) f(1)
      by (simp add: related_def mount_ok_def fs_def closed_def dirs_rel_other)
    then show ?thesis
      using no_payload_run [where m = "gridfs_release E q h", OF 1(1)] True v(1) n R(2) some_time
      by (intro answeredI [where t = 0]) (simp_all add: serve_def on_file_def Let_def)
  qed
qed

end

end
