(* ===== verification/Shared_Dirs.thy ===== *)
theory Shared_Dirs
  imports Shared_Files
begin

text \<open>
  The whole set of requests: open directories beside the open files of theory Shared_Files. A
  listing shows the entries that the nodes have when it is asked for, in an order that the database
  chooses. The callbacks refine this system for every client that keeps to \<open>permitted\<close>.
\<close>

section \<open>The names of a listing\<close>

text \<open>An order in which a database may list: each finite set, without repetition.\<close>

definition lists :: "(string set \<Rightarrow> string list) \<Rightarrow> bool" where
  "lists order \<longleftrightarrow> (\<forall>S. finite S \<longrightarrow> distinct (order S) \<and> set (order S) = S)"

lemma lists_single [simp]:
  assumes "lists order"
  shows "order {n} = [n]"
proof -
  have o: "distinct (order {n})" "set (order {n}) = {n}" using assms by (simp_all add: lists_def)
  then have "length (order {n}) = 1" using distinct_card [OF o(1)] by simp
  then obtain a where "order {n} = [a]" by (auto simp: length_Suc_conv)
  then show ?thesis using o(2) by simp
qed

lemma some_order:
  assumes "distinct ns"
  obtains order where "lists order" "order (set ns) = ns"
proof -
  have "\<exists>order. \<forall>S :: string set. finite S \<longrightarrow> distinct (order S) \<and> set (order S) = S"
    by (rule choice) (meson finite_distinct_list)
  then obtain order :: "string set \<Rightarrow> string list" where "lists order" by (auto simp: lists_def)
  then have "lists (order(set ns := ns))" using assms by (simp add: lists_def)
  then show thesis by (rule that) simp
qed

definition shown_names :: "(string set \<Rightarrow> string list) \<Rightarrow> request \<Rightarrow> shared_fs \<Rightarrow> string list" where
  "shown_names order req st = (case req of
     Readdir h \<Rightarrow> (case open_dirs st h of
       None \<Rightarrow> [] | Some p \<Rightarrow> ''.'' # ''..'' # order (entries (nodes st) p))
   | _ \<Rightarrow> [])"

text \<open>What the outside chooses for a request: the time of the clock and an order.\<close>

type_synonym chance = "int \<times> (string set \<Rightarrow> string list)"

definition chance_ok :: "chance \<Rightarrow> bool" where
  "chance_ok x \<longleftrightarrow> time_fits (fst x) \<and> lists (snd x)"

definition mount_apply ::
  "gridfs_config \<Rightarrow> chance \<Rightarrow> request \<Rightarrow> shared_fs \<Rightarrow> (reply \<times> string list) \<times> shared_fs" where
  "mount_apply c x req st = ((fst (shared_apply c (fst x) req st), shown_names (snd x) req st),
     snd (shared_apply c (fst x) req st))"

text \<open>A request, its answer, and the names that the kernel got for it.\<close>

definition observed ::
  "('w \<Rightarrow> string list) \<Rightarrow> 'w env \<Rightarrow> (string \<Rightarrow> 'w \<Rightarrow> 'w) \<Rightarrow> request
    \<Rightarrow> ('w, 'x, reply \<times> string list) callback" where
  "observed shown E filler req =
     bind (c_call (\<lambda>w. (shown w, w))) (\<lambda>old.
     bind (serve E filler req) (\<lambda>r.
     bind (c_call (\<lambda>w. (shown w, w))) (\<lambda>new.
     ret (r, case req of Readdir h \<Rightarrow> drop (length old) new | _ \<Rightarrow> []))))"

lemma observed_run:
  "serve E filler req s = (Ret r, s') \<Longrightarrow> observed shown E filler req s =
     (Ret (r, case req of Readdir h \<Rightarrow> drop (length (shown (world s))) (shown (world s')) | _ \<Rightarrow> []), s')"
  by (simp add: observed_def bind_run comp_simps c_call_def)

section \<open>The simulation\<close>

context mounted
begin

lemma opendir_answered:
  assumes rel: "related s st" and np: "outside_proc (config E) q"
  shows "answered (Opendir q) st (serve E filler (Opendir q)) s"
proof -
  let ?p = "configure_path (config E) q"
  note R = relatedD [OF rel] and M = mount_okD [OF relatedD(1) [OF rel]]
  have np': "\<not> is_proc (config E) ?p" using np by (simp add: outside_proc_def)
  show ?thesis
  proof (cases "newest ?p (docs (world s)) = None")
    case True
    then obtain w where w: "gridfs_opendir E q 0 s = (Ret (- ENOENT, 0), s\<lparr>world := w\<rparr>)"
      "calm docs cached (world s) w"
      using opendir_run(2) [OF refl np'] by blast
    have "related (s\<lparr>world := w\<rparr>) st"
      using mount_ok_step [OF R(1), of "s\<lparr>world := w\<rparr>"] w(2) M(3) R
      by (simp add: related_def calm_def table_ok_def)
    moreover have "nodes st ?p = None" using True fs_free [OF R(1), of ?p] R(2) by simp
    ultimately show ?thesis
      using w(1) some_time
      by (intro answeredI [where t = 0]) (simp_all add: serve_def bind_run comp_simps Let_def)
  next
    case False
    then obtain n where n: "nodes st ?p = Some n" using fs_free [OF R(1), of ?p] R(2) by auto
    let ?s = "\<lambda>e w. s\<lparr>world := w, conns := Suc (conns s), objects := (objects s)(next_addr s \<mapsto> DIRECTORY e),
      next_addr := Suc (next_addr s)\<rparr>"
    obtain e w where w: "gridfs_opendir E q 0 s = (Ret (0, next_addr s), ?s e w)" "thePath e = ?p"
      "calm docs cached (world s) w"
      using opendir_run(1) [OF refl np' False] by blast
    have free: "objects s (next_addr s) = None" by (rule table_ok_fresh [OF M(3)])
    have tab: "table_ok (?s e w)" using M(3) by (auto simp: table_ok_def less_Suc_eq)
    have "docs w = docs (world s)" using w(3) by (simp add: calm_def)
    then have "related (?s e w) (st\<lparr>open_dirs := (open_dirs st)(next_handle st \<mapsto> ?p),
        next_handle := Suc (next_handle st)\<rparr>)"
      using mount_ok_step [OF R(1), of "?s e w"] w(2,3) tab free R(2-6)
      by (simp add: related_def dirs_rel_put files_rel_other)
    then show ?thesis
      using w(1) n R(3) some_time
      by (intro answeredI [where t = 0]) (simp_all add: serve_def bind_run comp_simps Let_def)
  qed
qed

lemma releasedir_answered:
  assumes rel: "related s st" and h: "open_dirs st h = Some p"
  shows "answered (Releasedir h) st (serve E filler (Releasedir h)) s"
proof -
  note R = relatedD [OF rel] and M = mount_okD [OF relatedD(1) [OF rel]]
  obtain e where e: "objects s h = Some (DIRECTORY e)" by (rule dirs_relD [OF R(5) h])
  obtain s' where 1: "gridfs_releasedir E h s = (Ret 0, s')" "closed h s s'" "world s' = world s"
    using releasedir_run [OF live_handle [OF R(1) e] e] by blast
  have tab: "table_ok s'" using M(3) 1(2) by (auto simp: table_ok_def closed_def split: if_splits)
  have "related s' (st\<lparr>open_dirs := (open_dirs st)(h := None)\<rparr>)"
    using mount_ok_step [OF R(1) _ tab] 1(2,3) e R(2-6)
    by (simp add: related_def calm_def closed_def dirs_rel_drop files_rel_other)
  then show ?thesis
    using no_payload_run [where m = "gridfs_releasedir E h", OF 1(1)] h some_time
    by (intro answeredI [where t = 0]) (simp_all add: serve_def)
qed

lemma related_names: "related s st \<Longrightarrow> children p (docs (world s)) = entries (nodes st) p"
  using managed_entries [OF mount_okD(2) [OF relatedD(1)]] relatedD(2) by (metis fs_def)

lemma related_c_names:
  assumes "related s st" "c_paths (nodes st)"
  shows "c_names (docs (world s))"
  unfolding c_names_def
proof
  fix d assume "d \<in> set (docs (world s))"
  then have "newest (d_name d) (docs (world s)) \<noteq> None" by (auto simp: newest_None_iff)
  then show "CHR 0x00 \<notin> set (d_name d)"
    using assms(2) fs_free [OF relatedD(1) [OF assms(1)]] relatedD(2) [OF assms(1)] by (auto simp: c_paths_def)
qed

end

context listing
begin

lemma readdir_answered:
  assumes rel: "related s st" and h: "open_dirs st h = Some p" "CHR ''{'' \<notin> set p"
    and names: "c_paths (nodes st)"
  shows "\<exists>order s'. lists order \<and> observed shown E filler (Readdir h) s =
    (Ret ((0, Nothing), shown_names order (Readdir h) st), s') \<and> related s' st"
proof -
  note R = relatedD [OF rel]
  obtain e where e: "objects s h = Some (DIRECTORY e)" "thePath e = p" by (rule dirs_relD [OF R(5) h(1)])
  have brace: "CHR ''{'' \<notin> set (thePath e)" using h(2) e(2) by simp
  obtain ns w where 1: "gridfs_readdir E filler h s = (Ret 0, s\<lparr>world := w\<rparr>)" "distinct ns"
    "set ns = children (thePath e) (docs (world s))" "calm docs cached (world s) w"
    "shown w = shown (world s) @ ''.'' # ''..'' # ns"
    by (rule readdir_shows [OF live_handle [OF R(1) e(1)] e(1) brace related_c_names [OF rel names]])
  obtain order where order: "lists order" "order (set ns) = ns" by (rule some_order [OF 1(2)])
  have "serve E filler (Readdir h) s = (Ret (0, Nothing), s\<lparr>world := w\<rparr>)"
    using no_payload_run [where m = "gridfs_readdir E filler h", OF 1(1)] by (simp add: serve_def)
  from observed_run [OF this, of shown]
  have "observed shown E filler (Readdir h) s =
      (Ret ((0, Nothing), shown_names order (Readdir h) st), s\<lparr>world := w\<rparr>)"
    using 1(3,5) e(2) h(1) order(2) related_names [OF rel] by (simp add: shown_names_def)
  moreover have "related (s\<lparr>world := w\<rparr>) st"
    using mount_ok_step [OF R(1), of "s\<lparr>world := w\<rparr>"] 1(4) mount_okD(3) [OF R(1)] R
    by (simp add: related_def calm_def table_ok_def)
  ultimately show ?thesis using order(1) by blast
qed

lemma observed_answered:
  assumes "answered req st (serve E filler req) s" "\<And>h. req \<noteq> Readdir h"
  shows "\<exists>x r s' st'. chance_ok x \<and> observed shown E filler req s = (Ret r, s') \<and>
    mount_apply (config E) x req st = (r, st') \<and> related s' st'"
proof -
  obtain t r s' st' where 1: "time_fits t" "serve E filler req s = (Ret r, s')"
    "shared_apply (config E) t req st = (r, st')" "related s' st'"
    using assms(1) by (auto simp: answered_def)
  obtain order where "lists order" by (rule some_order [of "[]"]) simp
  moreover have "observed shown E filler req s = (Ret (r, shown_names order req st), s')"
    using observed_run [OF 1(2), of shown] assms(2) by (simp add: shown_names_def split: request.split)
  ultimately show ?thesis using 1(1,3,4)
    by (intro exI [of _ "(t, order)"]) (simp add: chance_ok_def mount_apply_def)
qed

sublocale client: relational "observed shown E filler" "mount_apply (config E)" chance_ok "permitted (config E)"
  related
proof unfold_locales
  fix s st req assume rel: "related s st" and p: "permitted (config E) st req"
  show "\<exists>x r s' st'. chance_ok x \<and> observed shown E filler req s = (Ret r, s') \<and>
    mount_apply (config E) x req st = (r, st') \<and> related s' st'"
  proof (cases "\<exists>h. req = Readdir h")
    case True
    then obtain h q where h: "req = Readdir h" "open_dirs st h = Some q" "CHR ''{'' \<notin> set q"
      "c_paths (nodes st)" using p by auto
    obtain order s' where "lists order" "observed shown E filler (Readdir h) s =
        (Ret ((0, Nothing), shown_names order (Readdir h) st), s')" "related s' st"
      using readdir_answered [OF rel h(2-4)] by blast
    then show ?thesis using h(1,2) some_time
      by (intro exI [of _ "(0, order)"]) (simp add: chance_ok_def mount_apply_def)
  next
    case False
    have "answered req st (serve E filler req) s"
      using p by (rule permitted_cases)
        (use p rel False in \<open>auto intro: path_answered create_answered open_answered write_answered
          read_answered release_answered opendir_answered releasedir_answered\<close>)
    from observed_answered [OF this] False show ?thesis by blast
  qed
qed

lemmas shared_trace = client.related_trace

end

end
