(* ===== verification/Refinement_Theorems.thy ===== *)
theory Refinement_Theorems
  imports Attribute_Theorems Shared_Dirs
begin

text \<open>
  The callbacks refine the file system of theory Abstract_Fs, one operation at a time and over
  whole sequences; what an operation leaves alone.
\<close>

section \<open>One operation\<close>

text \<open>On a mount whose cache is right and whose documents have attributes that can be read,
  each operation that keeps to the rules of \<open>allowed\<close> answers what the file system of theory
  Abstract_Fs answers for some time of the clock, the documents afterwards stand for its new
  state, and cache, documents and process are as required again.\<close>

theorem operations_refine:
  fixes s :: "('w, 'x) fuse_state_scheme"
  assumes "mounted E docs cached" "coherent E docs cached s"
    and "managed (config E) (docs (world s))" "table_ok s"
    and "allowed (config E) (fs_of (config E) (docs (world s))) op"
  shows "\<exists>t r s'. time_fits t \<and> perform E filler op s = (Ret r, s') \<and>
    fs_apply (config E) t op (fs_of (config E) (docs (world s))) = (r, fs_of (config E) (docs (world s'))) \<and>
    coherent E docs cached s' \<and> managed (config E) (docs (world s')) \<and> same_process s s'"
  using mounted.operation_step [OF assms(1) _ assms(5)] assms(2-4) by blast

section \<open>The reference environment\<close>

lemma plain_doc_node: "node_of c (plain_doc i p m b) = Some \<lparr>n_mode = m, n_uid = 1000, n_gid = 1000,
    n_time = 0, n_content = b\<rparr>"
  by (simp add: node_of_def doc_content_def)

lemma plain_doc_managed: "length b < 2 ^ 31 \<Longrightarrow> managed_doc c (plain_doc i p m b)"
  by (simp add: managed_doc_def plain_doc_node time_fits_def)

lemma demo_managed: "managed c (ref_docs (world demo))"
proof -
  have "managed_doc c d" if "newest p (ref_docs (world demo)) = Some d" for p d
    using newest_in [OF that] by (auto simp: demo_docs plain_doc_managed)
  then show ?thesis by (simp add: managed_def demo_wf)
qed

lemma demo_fs:
  "fs_of c (ref_docs (world demo)) ''/a'' = Some \<lparr>n_mode = S_IFREG OR 0x1A4, n_uid = 1000, n_gid = 1000,
     n_time = 0, n_content = ''hello''\<rparr>"
  "fs_of c (ref_docs (world demo)) ''/b'' = None"
  by (simp_all add: fs_of_def plain_doc_node)

theorem operations_refine_witness:
  "\<exists>s'. perform (ref_env []) (\<lambda>n w. w) (Load ''/a'' 3 1) demo = (Ret (0, Content ''ell''), s') \<and>
     same_process demo s'"
proof -
  have "allowed (config (ref_env [])) (fs_of (config (ref_env [])) (ref_docs (world demo))) (Load ''/a'' 3 1)"
    by (simp add: outside_proc_def plain_path demo_fs)
  from operations_refine [OF ref_mounted demo_coherent demo_managed demo_table_ok this, of "\<lambda>n w. w"]
  show ?thesis by (auto simp: on_node_def plain_path demo_fs)
qed

text \<open>C2: The same holds for every sequence of operations that keeps to the rules, whatever the
  clock says: all of them answer, and answers and documents are those of the file system of theory
  Abstract_Fs run on the same sequence.\<close>

theorem sessions_refine:
  fixes s :: "('w, 'x) fuse_state_scheme"
  assumes m: "mounted E docs cached" and s: "coherent E docs cached s"
    "managed (config E) (docs (world s))" "table_ok s"
    and k: "keeps_to (allowed (config E)) time_fits (fs_apply (config E))
      (fs_of (config E) (docs (world s))) ops"
  shows "\<exists>rs s'. perform_all (perform E filler) ops s = (Ret rs, s') \<and>
    behaves time_fits (fs_apply (config E)) (fs_of (config E) (docs (world s))) ops rs
      (fs_of (config E) (docs (world s'))) \<and>
    coherent E docs cached s' \<and> managed (config E) (docs (world s')) \<and> same_process s s'"
  using mounted.operation_trace [OF m _ k] s by blast

theorem sessions_refine_witness:
  "\<exists>s'. perform_all (perform (ref_env []) (\<lambda>n w. w))
       [Save ''/b'' 0x1A4 [''ab'', ''c''], Call (Chmod ''/b'' 0x81A4), Load ''/b'' 5 1, Call (Unlink ''/a'')] demo =
     (Ret [(0, Nothing), (0, Nothing), (0, Content ''bc''), (0, Nothing)], s') \<and>
   fs_of (ref_config []) (ref_docs (world s')) ''/a'' = None \<and> same_process demo s'"
proof -
  have "keeps_to (allowed (config (ref_env []))) time_fits (fs_apply (config (ref_env [])))
      (fs_of (config (ref_env [])) (ref_docs (world demo)))
      [Save ''/b'' 0x1A4 [''ab'', ''c''], Call (Chmod ''/b'' 0x81A4), Load ''/b'' 5 1, Call (Unlink ''/a'')]"
    by (simp add: outside_proc_def plain_path demo_fs on_node_def made_def)
  from sessions_refine [OF ref_mounted demo_coherent demo_managed demo_table_ok this, of "\<lambda>n w. w"]
  show ?thesis by (force simp: behaves_Cons on_node_def made_def plain_path demo_fs dest: sym)
qed

text \<open>C1: Requests by path and requests through handles, in any order and with any number of open
  files and directories, refine the file system of theories Shared_Files and Shared_Dirs: what is
  written through a handle appears to others when it is released, whatever happened to the path, a handle
  may be read as long as nothing else changed its path, a listing shows the entries of that moment. Every sequence of requests
  that keeps to its rules answers as that file system does, with the same names in its listings up to
  their order, and the documents stand for its nodes at the end.\<close>

theorem interleaved_requests_refine:
  fixes s :: "('w, 'x) fuse_state_scheme"
  assumes l: "listing E docs cached filler shown" and s: "coherent E docs cached s"
    "managed (config E) (docs (world s))" "table_ok s"
    and st: "st = started (\<not> ndebug E) (fs_of (config E) (docs (world s))) (next_addr s)"
    and k: "keeps_to (permitted (config E)) chance_ok (mount_apply (config E)) st reqs"
  shows "\<exists>rs s' st'. perform_all (observed shown E filler) reqs s = (Ret rs, s') \<and>
    behaves chance_ok (mount_apply (config E)) st reqs rs st' \<and>
    nodes st' = fs_of (config E) (docs (world s')) \<and>
    coherent E docs cached s' \<and> managed (config E) (docs (world s'))"
proof -
  have m: "mounted E docs cached" using l by (simp add: listing_def)
  have "mounted.related E docs cached s st"
    unfolding st started_def mounted.related_def [OF m]
    by (simp add: mounted.mount_ok_def [OF m] mounted.fs_def [OF m] s files_rel_def dirs_rel_def)
  from listing.shared_trace [OF l this k] show ?thesis
    unfolding mounted.related_def [OF m] mounted.mount_ok_def [OF m] mounted.fs_def [OF m] by blast
qed

text \<open>One program reads a file while another writes a new one, block by block; then the new file is
  opened again and read. A third has a directory open all the time and lists it after a change. In the
  end a file that was removed while it was written is back after the release.\<close>

lemma entry_paths:
  "configure_path (ref_config []) ''/d/x'' = ''/d/x''" "configure_path (ref_config []) ''/d/y'' = ''/d/y''"
  "\<not> is_proc (ref_config []) ''/d/x''" "\<not> is_proc (ref_config []) ''/d/y''"
  by (simp_all add: configure_path_def is_proc_iff)

lemma demo_nodes:
  "fs_of c (ref_docs (world demo)) = (\<lambda>_. None)
    (''/a'' := Some \<lparr>n_mode = S_IFREG OR 0x1A4, n_uid = 1000, n_gid = 1000, n_time = 0, n_content = ''hello''\<rparr>,
     ''/d'' := Some \<lparr>n_mode = S_IFDIR OR 0x1ED, n_uid = 1000, n_gid = 1000, n_time = 0, n_content = []\<rparr>,
     ''/d/x'' := Some \<lparr>n_mode = S_IFREG OR 0x1A4, n_uid = 1000, n_gid = 1000, n_time = 0, n_content = []\<rparr>)"
proof
  fix q
  consider "q = ''/a''" | "q = ''/d''" | "q = ''/d/x''" | "q \<notin> {''/a'', ''/d'', ''/d/x''}" by blast
  then show "fs_of c (ref_docs (world demo)) q = ((\<lambda>_. None)
    (''/a'' := Some \<lparr>n_mode = S_IFREG OR 0x1A4, n_uid = 1000, n_gid = 1000, n_time = 0, n_content = ''hello''\<rparr>,
     ''/d'' := Some \<lparr>n_mode = S_IFDIR OR 0x1ED, n_uid = 1000, n_gid = 1000, n_time = 0, n_content = []\<rparr>,
     ''/d/x'' := Some \<lparr>n_mode = S_IFREG OR 0x1A4, n_uid = 1000, n_gid = 1000, n_time = 0, n_content = []\<rparr>)) q"
    by cases (auto simp: fs_of_def plain_doc_node demo_docs newest_def)
qed

text \<open>The abstract run of this demonstration.\<close>

lemmas evaluate = outside_proc_def plain_path entry_paths on_node_def made_def on_file_def add_file_def
  put_file_def opened_at_def look_def outdate_def outdated_def Let_def mount_apply_def chance_ok_def shown_names_def
  entries_upd c_paths_upd insert_Diff_if

definition demo_requests :: "request list" where
  "demo_requests = [Opendir ''/d'', Open ''/a'', Create ''/d/y'' 0x1A4, Write 3 ''xy'' 0, Read 2 4 1, Write 3 ''z'' 2,
        Write 3 ''!'' 9, Release ''/d/y'' 3, Unlink ''/d/x'', Readdir 1, Open ''/d/y'', Read 4 5 0,
        Write 2 ''J'' 0, Unlink ''/a'', Release ''/a'' 2, Releasedir 1]"

lemma demo_run:
  assumes fs: "fs ''/a'' = Some \<lparr>n_mode = S_IFREG OR 0x1A4, n_uid = 1000, n_gid = 1000, n_time = 0,
      n_content = ''hello''\<rparr>" "fs ''/d'' = Some m" "fs ''/d/x'' = Some n" "fs ''/d/y'' = None"
    "c_paths fs" "entries fs ''/d'' = {''x''}"
  shows "keeps_to (permitted (ref_config [])) chance_ok (mount_apply (ref_config [])) (started False fs 1) demo_requests"
    and "behaves chance_ok (mount_apply (ref_config [])) (started False fs 1) demo_requests rs st' \<Longrightarrow> rs = [((0, Handle 1), []), ((0, Handle 2), []), ((0, Handle 3), []), ((2, Nothing), []),
        ((4, Content ''ello''), []), ((1, Nothing), []), ((- EIO, Nothing), []), ((0, Nothing), []),
        ((0, Nothing), []), ((0, Nothing), [''.'', ''..'', ''y'']), ((0, Handle 4), []),
        ((3, Content ''xyz''), []), ((1, Nothing), []), ((0, Nothing), []), ((0, Nothing), []), ((0, Nothing), [])] \<and>
      nodes st' ''/a'' = Some \<lparr>n_mode = S_IFREG OR 0x1A4, n_uid = 1000, n_gid = 1000, n_time = 0, n_content = ''J''\<rparr>"
proof -
  show "keeps_to (permitted (ref_config [])) chance_ok (mount_apply (ref_config [])) (started False fs 1) demo_requests"
    using fs unfolding started_def demo_requests_def by (simp add: evaluate)
  assume "behaves chance_ok (mount_apply (ref_config [])) (started False fs 1) demo_requests rs st'"
  then show "rs = [((0, Handle 1), []), ((0, Handle 2), []), ((0, Handle 3), []), ((2, Nothing), []),
        ((4, Content ''ello''), []), ((1, Nothing), []), ((- EIO, Nothing), []), ((0, Nothing), []),
        ((0, Nothing), []), ((0, Nothing), [''.'', ''..'', ''y'']), ((0, Handle 4), []),
        ((3, Content ''xyz''), []), ((1, Nothing), []), ((0, Nothing), []), ((0, Nothing), []), ((0, Nothing), [])] \<and>
      nodes st' ''/a'' = Some \<lparr>n_mode = S_IFREG OR 0x1A4, n_uid = 1000, n_gid = 1000, n_time = 0, n_content = ''J''\<rparr>"
    using fs unfolding started_def demo_requests_def by - (drule behaves_ConsD, clarsimp simp: evaluate)+
qed

theorem interleaved_requests_refine_witness:
  "\<exists>s'. perform_all (observed w_shown (ref_env []) ref_fill)
       [Opendir ''/d'', Open ''/a'', Create ''/d/y'' 0x1A4, Write 3 ''xy'' 0, Read 2 4 1, Write 3 ''z'' 2,
        Write 3 ''!'' 9, Release ''/d/y'' 3, Unlink ''/d/x'', Readdir 1, Open ''/d/y'', Read 4 5 0,
        Write 2 ''J'' 0, Unlink ''/a'', Release ''/a'' 2, Releasedir 1] demo =
     (Ret [((0, Handle 1), []), ((0, Handle 2), []), ((0, Handle 3), []), ((2, Nothing), []),
        ((4, Content ''ello''), []), ((1, Nothing), []), ((- EIO, Nothing), []), ((0, Nothing), []),
        ((0, Nothing), []), ((0, Nothing), [''.'', ''..'', ''y'']), ((0, Handle 4), []),
        ((3, Content ''xyz''), []), ((1, Nothing), []), ((0, Nothing), []), ((0, Nothing), []), ((0, Nothing), [])], s') \<and>
   fs_of (ref_config []) (ref_docs (world s')) ''/a'' = Some \<lparr>n_mode = S_IFREG OR 0x1A4, n_uid = 1000, n_gid = 1000, n_time = 0, n_content = ''J''\<rparr>"
proof -
  let ?fs = "fs_of (ref_config []) (ref_docs (world demo))"
  let ?st = "started False ?fs 1"
  have names: "c_paths ?fs" "entries ?fs ''/d'' = {''x''}" by (auto simp: demo_nodes c_paths_def entries_def)
  have "?fs ''/d/y'' = None" "\<exists>m. ?fs ''/d'' = Some m" "\<exists>n. ?fs ''/d/x'' = Some n" by (simp_all add: demo_nodes)
  then obtain m n where free: "?fs ''/d'' = Some m" "?fs ''/d/x'' = Some n" "?fs ''/d/y'' = None" by blast
  note run = demo_run [of ?fs, OF demo_fs(1) free names]
  have c: "config (ref_env []) = ref_config []" by simp
  have "?st = started (\<not> ndebug (ref_env [])) ?fs (next_addr demo)"
    by (simp add: demo_def ref_env_def)
  from interleaved_requests_refine [where E = "ref_env []", OF ref_listing_laws demo_coherent, unfolded c, OF demo_managed
      demo_table_ok this run(1)]
  show ?thesis using run(2) unfolding demo_requests_def by fastforce
qed

text \<open>An operation that keeps to the rules leaves every other path as it was: the node that
  the documents hold for it does not change.\<close>

theorem other_paths_unchanged:
  fixes s :: "('w, 'x) fuse_state_scheme"
  assumes m: "mounted E docs cached" and s: "coherent E docs cached s"
    "managed (config E) (docs (world s))" "table_ok s"
    and a: "allowed (config E) (fs_of (config E) (docs (world s))) op"
    and p: "p \<noteq> configure_path (config E) (target_path op)"
  shows "fs_of (config E) (docs (world (snd (perform E filler op s)))) p =
    fs_of (config E) (docs (world s)) p"
proof -
  obtain t r s' where "perform E filler op s = (Ret r, s')" "fs_apply (config E) t op
      (fs_of (config E) (docs (world s))) = (r, fs_of (config E) (docs (world s')))"
    using mounted.operation_step [OF m _ a] s by blast
  then show ?thesis using fs_apply_frame [OF p, of t "fs_of (config E) (docs (world s))"] by simp
qed

theorem other_paths_unchanged_witness:
  "fs_of (ref_config []) (ref_docs (world (snd (perform (ref_env []) (\<lambda>n w. w) (Call (Unlink ''/b'')) demo)))) ''/a'' =
   Some \<lparr>n_mode = S_IFREG OR 0x1A4, n_uid = 1000, n_gid = 1000, n_time = 0, n_content = ''hello''\<rparr>"
  using other_paths_unchanged [OF ref_mounted demo_coherent demo_managed demo_table_ok,
      of "[]" "Call (Unlink ''/b'')" "''/a''" "\<lambda>n w. w"]
  by (simp add: plain_path demo_fs)

end
