(* ===== verification/File_Theorems.thy ===== *)
theory File_Theorems
  imports Attribute_Theorems
begin

text \<open>
  What holds of the contents of files and links: the way of a content from the writer to the
  reader, what is refused, the bounds of the offsets, and what a failure of the kernel leaves.
\<close>

section \<open>From the writer to the reader\<close>

text \<open>C3: A program creates a file, writes a list of blocks one after the other and closes it;
  then any piece it reads through \<open>open\<close>, \<open>read\<close> and \<open>release\<close> is that piece of the blocks put
  together, cut at the end of the file. Handles and pools are as before.\<close>

theorem save_then_load:
  fixes s :: "('w, 'x) fuse_state_scheme"
  assumes m: "mounted E docs cached" and p: "p = configure_path (config E) path"
    and np: "\<not> is_proc (config E) p" and ok: "table_ok s"
    and new: "newest p (docs (world s)) = None" and co: "coherent E docs cached s"
    and wf: "wf_docs (docs (world s))" and len: "length (concat blocks) < 2 ^ 31"
    and r: "0 \<le> off" "0 \<le> sz" "off + sz < 2 ^ 63"
  shows "\<exists>s1 s2. save E path mode blocks s = (Ret 0, s1) \<and>
    load E path sz off s1 = (Ret (take (nat sz) (drop (nat off) (concat blocks))), s2) \<and>
    docs (world s2) = docs (world s1) \<and> only_path p (docs (world s)) (docs (world s1)) \<and>
    same_process s s2"
proof -
  obtain d ds s1 where 1: "save E path mode blocks s = (Ret 0, s1)"
    "newest p (docs (world s1)) = Some d"
    "new_doc p (S_IFREG OR mode) (default_uid (config E)) (default_gid (config E)) (concat blocks) ds d"
    "only_path p (docs (world s)) (docs (world s1))" "wf_docs (docs (world s1))"
    "same_process s s1" "coherent E docs cached s1"
    using mounted.save_run [OF m p np ok new co wf len] by blast
  from 1(3) have d: "doc_content d = concat blocks" "sound_length d" "d_length d < 2 ^ 31"
    using len by (auto simp: new_doc_def stored_doc_def doc_content_def sound_length_def)
  have ok1: "table_ok s1" using 1(6) by (simp add: same_process_def)
  obtain s2 where "load E path sz off s1 = (Ret (take (nat sz) (drop (nat off) (doc_content d))), s2)"
    "docs (world s2) = docs (world s1)" "same_process s1 s2"
    using mounted.load_run [OF m p np ok1 1(2,7) d(2,3) 1(5) r] by blast
  with 1 d show ?thesis by (auto simp: same_process_def)
qed

theorem save_then_load_witness:
  "\<exists>s1 s2. save (ref_env []) ''/b'' 0x1A4 [''hel'', ''lo'', '' world''] demo = (Ret 0, s1) \<and>
    load (ref_env []) ''/b'' 5 3 s1 = (Ret ''lo wo'', s2)"
proof -
  have "length (concat [''hel'', ''lo'', '' world'']) < (2 :: nat) ^ 31" by simp
  from save_then_load [OF ref_mounted _ _ demo_table_ok _ demo_coherent demo_wf this, of "''/b''" "[]"
      "''/b''" 3 5 "0x1A4"]
  show ?thesis by (auto simp: plain_path)
qed

text \<open>C12: Reading an existing file whose length is below \<open>2 ^ 31\<close> gives the bytes of its newest
  document from the offset on, as many as asked for and as there are, and none past the end.\<close>

theorem load_reads_slice:
  fixes s :: "('w, 'x) fuse_state_scheme"
  assumes "mounted E docs cached" "p = configure_path (config E) path" "\<not> is_proc (config E) p"
    and "table_ok s" "newest p (docs (world s)) = Some d" "coherent E docs cached s"
    and "sound_length d" "d_length d < 2 ^ 31" "wf_docs (docs (world s))"
    and "0 \<le> off" "0 \<le> sz" "off + sz < 2 ^ 63"
  shows "\<exists>s'. load E path sz off s = (Ret (take (nat sz) (drop (nat off) (doc_content d))), s') \<and>
    docs (world s') = docs (world s) \<and> same_process s s'"
  using mounted.load_run [OF assms] by blast

theorem load_reads_slice_witness:
  "\<exists>s'. load (ref_env []) ''/a'' 100 2 demo = (Ret ''llo'', s')"
proof -
  have "sound_length (plain_doc 1 ''/a'' (S_IFREG OR 0x1A4) ''hello'')" by (simp add: sound_length_def)
  from load_reads_slice [OF ref_mounted _ _ demo_table_ok _ demo_coherent this _ demo_wf, of "''/a''"
      "[]" "''/a''" 2 100]
  show ?thesis by (auto simp: plain_path doc_content_def)
qed

section \<open>Writing\<close>

text \<open>A write at any other place than the end of what was written through the handle is
  refused with \<open>- EIO\<close>, whatever the environment does, and loses nothing of the buffer.\<close>

theorem write_elsewhere_refused:
  fixes s :: "('w, 'x) fuse_state_scheme"
  assumes "fh \<noteq> 0" "objects s fh = Some (FILE f)" "theWritten f \<noteq> c_size_t off"
  shows "\<exists>f'. gridfs_write E data off fh s = (Ret (- EIO), s\<lparr>objects := (objects s)(fh \<mapsto> FILE f')\<rparr>) \<and>
    written f' = written f \<and> theHasChanges f' = theHasChanges f"
  by (rule exI [of _ "sized_chunks E f"])
    (use assms in \<open>simp add: gridfs_write_def bind_run comp_simps assert_that_def deref_def
      with_file_def file_write_elsewhere catch_with_def\<close>)

text \<open>A process with one open file.\<close>

definition opened_file :: "ref_world \<Rightarrow> file_obj \<Rightarrow> ref_world fuse_state" where
  "opened_file w f = \<lparr>world = w, conns = 1, caches = 0, objects = [1 \<mapsto> FILE f], next_addr = 2\<rparr>"

lemma opened_file_simps [simp]:
  "world (opened_file w f) = w" "objects (opened_file w f) = [1 \<mapsto> FILE f]"
  "conns (opened_file w f) = 1" "caches (opened_file w f) = 0" "next_addr (opened_file w f) = 2"
  by (simp_all add: opened_file_def)

theorem write_elsewhere_refused_witness:
  "\<exists>f'. gridfs_write (ref_env []) ''x'' 7 1 (opened_file (world demo) (fresh_file ''/a'')) =
    (Ret (- EIO), (opened_file (world demo) (fresh_file ''/a''))\<lparr>objects := [1 \<mapsto> FILE f']\<rparr>) \<and> written f' = []"
proof -
  have "theWritten (fresh_file ''/a'') \<noteq> c_size_t 7" by (simp add: file_of_entry_def c_size_t_id)
  moreover have "written (fresh_file ''/a'') = []" by (simp add: written_def file_of_entry_def)
  ultimately show ?thesis
    using write_elsewhere_refused [of 1 "opened_file (world demo) (fresh_file ''/a'')" "fresh_file ''/a''"
        7 "ref_env []" "''x''"] by auto
qed

section \<open>What a failure of the kernel leaves\<close>

text \<open>C33: When the kernel refuses to extend the memory of a file, the write answers \<open>- EIO\<close>, but the
  object keeps the failure value as its pointer and the mark that it has changes: the release
  of the handle then reads through that pointer, and the process dies.\<close>

theorem failed_extension_kills_release:
  fixes s :: "('w, 'x) fuse_state_scheme"
  assumes "\<And>n n' w. fst (remap_memory E n n' w) = False"
    and "fh \<noteq> 0" "objects s fh = Some (FILE f)" "theData f = Mapped bs"
    and "theGridFile f = Some g" "gf_content_type g = Inr ct" "theHasChanges f"
    and "0 < theWritten f" "theWritten f < 2 ^ 62" "0 < theChunkSize f" "theCurrentDataSize f \<noteq> 0"
    and "length data < 2 ^ 62" "theCurrentDataSize f < theWritten f + int (length data)"
  shows "\<exists>s'. gridfs_write E data (theWritten f) fh s = (Ret (- EIO), s') \<and>
    fst (gridfs_release E path fh s') = Fault BadPointer"
proof -
  let ?f = "f\<lparr>theData := MapFailed\<rparr>" and ?n = "theWritten f + int (length data)"
  have l: "int (length data) < 2 ^ 62" using assms(12) of_nat_less_iff [of "length data" "2 ^ 62", where 'a = int] by simp
  have c: "c_size_t (theWritten f) = theWritten f" "c_size_t ?n = ?n"
    using assms(8,9) l by (auto intro!: c_size_t_id)
  have fuel: "Suc (nat ?n) = Suc (nat ?n)" ..
  obtain b w where b: "remap_memory E (theCurrentDataSize f)
      (c_size_t (theCurrentDataSize f + theChunkSize f)) (world s) = (b, w)" by fastforce
  with assms(1) have "\<not> b" by (metis fst_conv)
  then have x: "extend_memory E (f, s) =
      (Throw (StdException ''Extending virtual memory by the kernel failed.''), (?f, s\<lparr>world := w\<rparr>))"
    using b assms(4) by (simp add: extend_memory_def Let_def bind_run comp_simps c_call_def)
  have "file_write E data (theWritten f) (f, s) =
      (Throw (StdException ''Extending virtual memory by the kernel failed.''), (?f, s\<lparr>world := w\<rparr>))"
    using assms(10,11,13) x c by (simp add: file_write_def Let_def bind_run comp_simps)
  then have 1: "gridfs_write E data (theWritten f) fh s =
      (Ret (- EIO), s\<lparr>world := w, objects := (objects s)(fh \<mapsto> FILE ?f)\<rparr>)"
    using assms(2,3)
    by (simp add: gridfs_write_def bind_run comp_simps assert_that_def deref_def with_file_def catch_with_def)
  have "file_store E (?f, t) = (Fault BadPointer, (?f, t))" for t :: "('w, 'x) fuse_state_scheme"
    using assms(5,6,8)
    by (simp add: file_store_def bind_run comp_simps gridfile_def mapped_bytes_def)
  then have "fst (gridfs_release E path fh (s\<lparr>world := w, objects := (objects s)(fh \<mapsto> FILE ?f)\<rparr>)) =
      Fault BadPointer"
    using assms(2,7)
    by (simp add: gridfs_release_def Let_def bind_run comp_simps deref_def with_file_def catch_with_def
        with_dtor_def)
  with 1 show ?thesis by blast
qed

text \<open>A kernel without memory left, and a file with one byte of room.\<close>

definition full_env :: "ref_world env" where
  "full_env = (ref_env [])\<lparr>remap_memory := \<lambda>_ _ w. (False, w)\<rparr>"

definition full_file :: file_obj where
  "full_file = (fresh_file ''/a'')\<lparr>theData := Mapped ''ab'', theWritten := 1, theCurrentDataSize := 2,
     theChunkSize := 2, theHasChanges := True,
     theGridFile := Some (show_doc (newest ''/a'' (ref_docs (world demo))))\<rparr>"

theorem failed_extension_kills_release_witness:
  "\<exists>s'. gridfs_write full_env ''xyz'' 1 1 (opened_file (world demo) full_file) = (Ret (- EIO), s') \<and>
    fst (gridfs_release full_env ''/a'' 1 s') = Fault BadPointer"
proof -
  have "fst (remap_memory full_env n n' w) = False" for n n' w by (simp add: full_env_def)
  from failed_extension_kills_release [OF this, of 1 "opened_file (world demo) full_file" full_file
      "''ab''" "show_doc (newest ''/a'' (ref_docs (world demo)))"
      "print_content_type (S_IFREG OR 0x1A4) 1000 1000 0" "''xyz''" "''/a''"]
  show ?thesis by (simp add: full_file_def show_doc_def)
qed

section \<open>Creating, cutting, linking\<close>

text \<open>C36: \<open>create\<close> of a path that has a document answers \<open>- EEXIST\<close>, and yet it stores the new
  file object behind a handle: the kernel will not release a handle of a failed call, so the
  object and the database connection it holds are lost to the process.\<close>

theorem create_existing_leaks:
  fixes s :: "('w, 'x) fuse_state_scheme"
  assumes "mounted E docs cached" "p = configure_path (config E) path" "\<not> is_proc (config E) p"
    and "newest p (docs (world s)) \<noteq> None"
  shows "\<exists>f s'. gridfs_create E path mode s = (Ret (- EEXIST, next_addr s), s') \<and>
    objects s' = (objects s)(next_addr s \<mapsto> FILE f) \<and> conns s' = Suc (conns s) \<and>
    docs (world s') = docs (world s)"
proof -
  obtain f s' where "gridfs_create E path mode s = (Ret (- EEXIST, next_addr s), s')"
    "new_handle (next_addr s) f s s'" "calm docs cached (world s) (world s')"
    using mounted.create_run(2) [OF assms] by blast
  then show ?thesis by (auto simp: new_handle_def calm_def)
qed

theorem create_existing_leaks_witness:
  "\<exists>s'. gridfs_create (ref_env []) ''/a'' 0x1A4 demo = (Ret (- EEXIST, 1), s') \<and> conns s' = 1"
  using create_existing_leaks [OF ref_mounted, of "''/a''" "[]" "''/a''" demo "0x1A4"]
  by (auto simp: plain_path demo_def [THEN arg_cong, of next_addr] demo_def [THEN arg_cong, of conns])

text \<open>Truncating to length 0 answers 0; the path then reads as an empty file, at any offset,
  and no other path has changed.\<close>

theorem truncate_then_load:
  fixes s :: "('w, 'x) fuse_state_scheme"
  assumes m: "mounted E docs cached" and p: "p = configure_path (config E) path"
    and np: "\<not> is_proc (config E) p" and ok: "table_ok s" and co: "coherent E docs cached s"
    and wf: "wf_docs (docs (world s))" and d: "newest p (docs (world s)) = Some d"
    and r: "0 \<le> off" "0 \<le> sz" "off + sz < 2 ^ 63"
  shows "\<exists>s1 s2. gridfs_truncate E path 0 s = (Ret 0, s1) \<and> load E path sz off s1 = (Ret [], s2) \<and>
    only_path p (docs (world s)) (docs (world s2)) \<and> same_process s s2"
proof -
  have b: "backend E docs cached" using m by (simp add: mounted_def)
  obtain w where 1: "gridfs_truncate E path 0 s = (Ret 0, s\<lparr>world := w\<rparr>)"
    "newest p (docs w) = Some (d\<lparr>d_length := 0\<rparr>)" "only_path p (docs (world s)) (docs w)"
    "wf_docs (docs w)" "coherent E docs cached (s\<lparr>world := w\<rparr>)"
    using backend.truncate_run [OF b p co wf d] by blast
  have "sound_length (d\<lparr>d_length := 0\<rparr>)" "doc_content (d\<lparr>d_length := 0\<rparr>) = []"
    by (simp_all add: sound_length_def doc_content_def)
  moreover have "table_ok (s\<lparr>world := w\<rparr>)" using ok by (simp add: table_ok_def)
  ultimately obtain s2 where "load E path sz off (s\<lparr>world := w\<rparr>) = (Ret [], s2)"
    "docs (world s2) = docs w" "same_process (s\<lparr>world := w\<rparr>) s2"
    using mounted.load_run [OF m p np, of "s\<lparr>world := w\<rparr>" "d\<lparr>d_length := 0\<rparr>" off sz] 1 r by auto
  with 1 show ?thesis by (auto simp: same_process_def)
qed

theorem truncate_then_load_witness:
  "\<exists>s1 s2. gridfs_truncate (ref_env []) ''/a'' 0 demo = (Ret 0, s1) \<and>
    load (ref_env []) ''/a'' 10 0 s1 = (Ret [], s2)"
  using truncate_then_load [OF ref_mounted _ _ demo_table_ok demo_coherent demo_wf, of "''/a''" "[]"
      "''/a''" _ 0 10]
  by (auto simp: plain_path)

text \<open>Truncating to any length but 0 never succeeds, whatever the servers do.\<close>

theorem partial_truncate_refused:
  "off \<noteq> 0 \<Longrightarrow> fst (gridfs_truncate E path off s) \<noteq> Ret 0"
  by (rule truncate_other)

theorem partial_truncate_refused_witness:
  "fst (gridfs_truncate (ref_env []) ''/a'' 3 demo) \<noteq> Ret 0"
  by (rule partial_truncate_refused) simp

text \<open>C21: A link made by \<open>symlink\<close> reads back as its target, cut to the buffer with room for the
  terminating NUL.\<close>

theorem symlink_then_readlink:
  fixes s :: "('w, 'x) fuse_state_scheme"
  assumes b: "backend E docs cached" and p: "p = configure_path (config E) path"
    and new: "newest p (docs (world s)) = None" and len: "length target < 2 ^ 62"
    and sz: "0 < sz" "sz < 2 ^ 64"
  shows "\<exists>s1 s2. gridfs_symlink E target path s = (Ret 0, s1) \<and>
    gridfs_readlink E path sz s1 = (Ret (0, Some (take (nat (sz - 1)) target @ [CHR 0x00])), s2)"
proof -
  obtain d w where 1: "gridfs_symlink E target path s = (Ret 0, s\<lparr>world := w\<rparr>)"
    "docs w = docs (world s) @ [d]"
    "new_doc p (S_IFLNK OR 0x1FF) (default_uid (config E)) (default_gid (config E)) target (docs (world s)) d"
    using backend.symlink_run(2) [OF b p new] by blast
  then have d: "d_name d = p" "d_data d = target" "d_length d = int (length target)"
    by (auto simp: new_doc_def stored_doc_def)
  have "int (length target) < 2 ^ 64"
    using len of_nat_less_iff [of "length target" "2 ^ 62", where 'a = int] by simp
  then obtain w' where "gridfs_readlink E path sz (s\<lparr>world := w\<rparr>) =
      (Ret (0, Some (take (nat (sz - 1)) (d_data d) @ [CHR 0x00])), (s\<lparr>world := w\<rparr>)\<lparr>world := w'\<rparr>)"
    using backend.readlink_run [OF b p, of "s\<lparr>world := w\<rparr>" d sz] 1(2) d sz by (auto simp: newest_snoc)
  with 1(1) d show ?thesis by auto
qed

theorem symlink_then_readlink_witness:
  "\<exists>s1 s2. gridfs_symlink (ref_env []) ''../target'' ''/b'' demo = (Ret 0, s1) \<and>
    gridfs_readlink (ref_env []) ''/b'' 4 s1 = (Ret (0, Some (''../'' @ [CHR 0x00])), s2)"
  using symlink_then_readlink [OF ref_backend, of "''/b''" "[]" "''/b''" demo "''../target''" 4]
  by (auto simp: plain_path)

section \<open>Reading\<close>

lemma file_read_frame:
  fixes s :: "('w, 'x) fuse_state_scheme"
  assumes "file_read E sz off (f, s) = (r, (f', s'))" "goes_on r"
  shows "objects s' = objects s"
  using keepsD [OF keeps_file_read [of "\<lambda>s. objects s = t" for t] _ assms, of "objects s"]
  by (simp add: world_free_def)

text \<open>A read, whether it succeeds or fails, keeps what was written through the same handle
  and is not yet stored, touches no other handle, and gives the lock of the file back; this
  holds of every behaviour of the servers.\<close>

theorem reads_keep_the_buffer:
  fixes s :: "('w, 'x) fuse_state_scheme"
  assumes "fh \<noteq> 0" "objects s fh = Some (FILE f)" "\<not> mutex_read f"
    and "gridfs_read E sz off fh s = (Ret r, s')"
  shows "\<exists>f'. objects s' = (objects s)(fh \<mapsto> FILE f') \<and> writer_part f' = writer_part f \<and> \<not> mutex_read f'"
proof -
  obtain q f' s1 where 1: "file_read E sz off (f, s) = (q, (f', s1))"
    by (cases "file_read E sz off (f, s)") auto
  let ?s = "s1\<lparr>objects := (objects s1)(fh \<mapsto> FILE f')\<rparr>"
  have run: "gridfs_read E sz off fh s = (case q of Ret (n, bs) \<Rightarrow> (Ret (c_int n, bs), ?s)
      | Throw e \<Rightarrow> (Ret (- EIO, []), ?s) | Fault x \<Rightarrow> (Fault x, ?s) | Exit n \<Rightarrow> (Exit n, ?s))"
    using 1 assms(1,2)
    by (cases q) (simp_all add: gridfs_read_def bind_run comp_simps assert_that_def deref_def
        with_file_def catch_with_def split: prod.split)
  have g: "goes_on q" "s' = ?s"
    using assms(4) unfolding run by (cases q; simp split: prod.splits)+
  then show ?thesis
    using file_read_buffer [OF 1 g(1)] file_read_unlocks [OF 1 g(1) assms(3)] file_read_frame [OF 1 g(1)]
    by auto
qed

text \<open>A file with one byte written and not yet stored.\<close>

definition busy_file :: file_obj where
  "busy_file = (fresh_file ''/a'')\<lparr>theData := Mapped ''ab'', theWritten := 1, theCurrentDataSize := 2,
     theHasChanges := True\<rparr>"

theorem reads_keep_the_buffer_witness:
  "\<exists>s' f'. gridfs_read (ref_env []) 3 1 1 (opened_file (world demo) busy_file) = (Ret (3, ''ell''), s') \<and>
    objects s' = [1 \<mapsto> FILE f'] \<and> writer_part f' = (True, Mapped ''ab'', 1, 2)"
proof -
  let ?s = "opened_file (world demo) busy_file" and ?d = "plain_doc 1 ''/a'' (S_IFREG OR 0x1A4) ''hello''"
  have "reader_ok (ref_docs (world ?s)) ?d busy_file" "sound_length ?d" "\<not> mutex_read busy_file"
    by (simp_all add: reader_ok_def busy_file_def file_of_entry_def current_def sound_length_def)
  moreover have "doc_content ?d = ''hello''" by (simp add: doc_content_def)
  ultimately obtain s' where r: "gridfs_read (ref_env []) 3 1 1 ?s = (Ret (3, ''ell''), s')"
    using ref.read_run [of 1 ?s busy_file ?d 1 3 "[]"] by (auto simp: MONGO_DEFAULT_CHUNK_SIZE_def)
  have "\<not> mutex_read busy_file" by (simp add: busy_file_def file_of_entry_def)
  with reads_keep_the_buffer [OF _ _ this r] obtain f' where
    "objects s' = (objects ?s)(1 \<mapsto> FILE f')" "writer_part f' = writer_part busy_file" by auto
  with r show ?thesis by (auto simp: writer_part_def busy_file_def)
qed

text \<open>C39: The bound of the offsets: the position of a read is cast to \<open>int\<close>, and a read at
  \<open>2 ^ 32\<close> of a file that is longer answers with the first bytes of the file.\<close>

theorem read_at_4gib_wraps:
  fixes s :: "('w, 'x) fuse_state_scheme"
  assumes m: "mounted E docs cached" and fh: "fh \<noteq> 0" "objects s fh = Some (FILE f)"
    and ok: "reader_ok (docs (world s)) d f"
    and len: "sound_length d" "2 ^ 32 + sz \<le> d_length d" "d_length d < 2 ^ 62"
    and cs: "0 < d_chunk d" "d_chunk d < 2 ^ 31" and sz: "0 < sz" "sz \<le> d_chunk d"
  shows "\<exists>s'. gridfs_read E sz (2 ^ 32) fh s = (Ret (sz, take (nat sz) (d_data d)), s')"
proof -
  have b: "backend E docs cached" using m by (simp add: mounted_def)
  obtain f' s1 where 1: "file_read E sz (2 ^ 32) (f, s) = (Ret (sz, take (nat sz) (d_data d)), (f', s1))"
    using backend.file_read_wrapped [OF b ok len cs sz] by blast
  have "c_int sz = sz" using sz cs by (intro c_int_id) linarith+
  then show ?thesis
    using 1 fh by (simp add: gridfs_read_def bind_run comp_simps assert_that_def deref_def
        with_file_def catch_with_def)
qed

text \<open>A document of \<open>2 ^ 32 + 5\<close> bytes: a letter x, then letters y.\<close>

definition long_data :: bytes where
  "long_data = CHR ''x'' # replicate (nat (2 ^ 32 + 4)) (CHR ''y'')"

lemma long_data_length: "int (length long_data) = 2 ^ 32 + 5"
  by (simp add: long_data_def)

theorem read_at_4gib_wraps_witness:
  "\<exists>s'. gridfs_read (ref_env []) 1 (2 ^ 32) 1 (opened_file
     (world_of [plain_doc 1 ''/l'' (S_IFREG OR 0x1A4) long_data]) (fresh_file ''/l'')) = (Ret (1, ''x''), s') \<and>
    take 1 (drop (nat (2 ^ 32)) long_data) = ''y''"
proof -
  let ?d = "plain_doc 1 ''/l'' (S_IFREG OR 0x1A4) long_data"
  let ?s = "opened_file (world_of [?d]) (fresh_file ''/l'')"
  have "reader_ok (ref_docs (world ?s)) ?d (fresh_file ''/l'')"
    by (simp add: reader_ok_def file_of_entry_def current_def world_of_docs newest_def)
  moreover have "sound_length ?d" by (simp add: sound_length_def)
  moreover have "2 ^ 32 + 1 \<le> d_length ?d" "d_length ?d < 2 ^ 62" by (simp_all add: long_data_length)
  ultimately obtain s' where "gridfs_read (ref_env []) 1 (2 ^ 32) 1 ?s =
      (Ret (1, take (nat 1) (d_data ?d)), s')"
    using read_at_4gib_wraps [OF ref_mounted, of 1 ?s "fresh_file ''/l''" ?d 1 "[]"]
    by (auto simp: MONGO_DEFAULT_CHUNK_SIZE_def)
  moreover have "take (nat 1) (d_data ?d) = ''x''" by (simp add: long_data_def)
  moreover have "take 1 (drop (nat (2 ^ 32)) long_data) = ''y''" by (simp add: long_data_def drop_Cons')
  ultimately show ?thesis by auto
qed

end
