(* ===== verification/Faults.thy ===== *)
theory Faults
  imports Externals
begin

text \<open>
  \<open>never x m\<close>: the computation \<open>m\<close> does not end in the fault \<open>x\<close>, from any state. The rules
  follow the structure of \<open>m\<close>; theory Loops_End uses them for the fuel of the loops, theory
  Memory_Safety for handles that were freed.
\<close>

definition never :: "fault \<Rightarrow> ('s, 'a) comp \<Rightarrow> bool" where
  "never x m \<longleftrightarrow> (\<forall>s. fst (m s) \<noteq> Fault x)"

named_theorems never_intros \<open>a computation never ends in a fault\<close>

lemma not_assert [never_intros]: "UseAfterFree \<noteq> AssertFailed" "NoFuel \<noteq> AssertFailed"
  by simp_all

lemma neverD: "never x m \<Longrightarrow> m s = (Fault y, s') \<Longrightarrow> y \<noteq> x"
  by (metis fst_conv never_def)

lemma never_basic [never_intros]:
  "never x (ret a)" "never x (throw e)" "never x (exit_process n)" "never x get_state" "never x (modify f)"
  "never x this_get" "never x (this_set g)"
  by (auto simp: never_def comp_run this_get_def this_set_def)

lemma never_fault [never_intros]: "y \<noteq> x \<Longrightarrow> never x (fault y)"
  by (simp add: never_def comp_run)

lemma never_of_outcome [never_intros]: "r \<noteq> Fault x \<Longrightarrow> never x (of_outcome r)"
  by (simp add: never_def comp_run)

lemma never_bind [never_intros]: "never x m \<Longrightarrow> (\<And>a. never x (f a)) \<Longrightarrow> never x (bind m f)"
  unfolding never_def bind_def by (auto split: prod.split outcome.split) (metis fst_conv)+

lemma never_if [never_intros]: "never x m \<Longrightarrow> never x m' \<Longrightarrow> never x (if b then m else m')"
  by simp

lemma never_assert [never_intros]: "x \<noteq> AssertFailed \<Longrightarrow> never x c \<Longrightarrow> never x (assert_that nd c)"
  unfolding assert_that_def by (intro never_intros) simp_all

lemma never_catch [never_intros]: "never x m \<Longrightarrow> never x (catch_with m a)"
  unfolding never_def catch_with_def by (auto split: prod.split outcome.split) (metis fst_conv)+

lemma never_dtor [never_intros]: "never x m \<Longrightarrow> never x (with_dtor m d)" "never x m \<Longrightarrow> never x (on_throw m d)"
  unfolding never_def with_dtor_def on_throw_def
  by (auto split: prod.split outcome.split) (metis fst_conv)+

lemma never_outside [never_intros]: "never x m \<Longrightarrow> never x (outside m)"
  unfolding never_def outside_def by (auto split: prod.split) (metis fst_conv)

lemma never_calls [never_intros]: "never x (call f)" "never x (c_call g)"
  by (auto simp: never_def call_def c_call_def split: prod.split sum.split)

lemma never_getter [never_intros]: "never x (getter v)"
  by (cases v) (auto simp: getter_def intro: never_intros)

lemma never_lifetime [never_intros]:
  assumes "never x ctor" "never x body" "\<And>a ob. never x (k a ob)"
  shows "never x (lifetime ctor body d k)"
  unfolding lifetime_def
proof (rule never_bind [OF assms(1)])
  fix ob
  show "never x (\<lambda>s. case body (ob, s) of (Ret a, ob', s') \<Rightarrow> k a ob' s' | (Throw e, ob', s') \<Rightarrow> (Throw e, d s')
      | (Fault z, ob', s') \<Rightarrow> (Fault z, s') | (Exit n, ob', s') \<Rightarrow> (Exit n, s'))"
    using assms(2,3) unfolding never_def
    by (auto split: prod.split outcome.split) (metis fst_conv)
qed

lemma never_local_object [never_intros]: "never x ctor \<Longrightarrow> never x body \<Longrightarrow> never x (local_object ctor d body)"
  unfolding local_object_def by (intro never_lifetime) (auto simp: never_def)

lemma never_option [never_intros]:
  "never x m \<Longrightarrow> (\<And>y. never x (f y)) \<Longrightarrow> never x (case v of None \<Rightarrow> m | Some y \<Rightarrow> f y)"
  by (simp split: option.split)

lemma never_prod [never_intros]: "(\<And>a b. never x (f a b)) \<Longrightarrow> never x (case p of (a, b) \<Rightarrow> f a b)"
  by (simp split: prod.split)

text \<open>The same from the states where \<open>P\<close> holds.\<close>

definition never_from :: "fault \<Rightarrow> ('s \<Rightarrow> bool) \<Rightarrow> ('s, 'a) comp \<Rightarrow> bool" where
  "never_from x P m \<longleftrightarrow> (\<forall>s. P s \<longrightarrow> fst (m s) \<noteq> Fault x)"

lemma never_fromI: "never x m \<Longrightarrow> never_from x P m"
  by (simp add: never_def never_from_def)

lemma never_from_bind:
  assumes "never_from x P m" "moves P m Q" "\<And>a. never_from x Q (f a)"
  shows "never_from x P (bind m f)"
  unfolding never_from_def
proof (intro allI impI)
  fix s assume P: "P s"
  obtain q t where m: "m s = (q, t)" by (cases "m s")
  show "fst (bind m f s) \<noteq> Fault x"
  proof (cases q)
    case (Ret a)
    then have "Q t" using movesD [OF assms(2) P m] by simp
    with m Ret assms(3) show ?thesis by (simp add: bind_def never_from_def)
  qed (use assms(1) P m in \<open>auto simp: bind_def never_from_def\<close>)
qed

lemma never_from_keep:
  "never_from x P m \<Longrightarrow> keeps P m \<Longrightarrow> (\<And>a. never_from x P (f a)) \<Longrightarrow> never_from x P (bind m f)"
  unfolding keeps_def by (rule never_from_bind)

lemma never_from_if: "never_from x P m \<Longrightarrow> never_from x P m' \<Longrightarrow> never_from x P (if b then m else m')"
  by simp

end
