(* ===== verification/Memory_Safety.thy ===== *)
theory Memory_Safety
  imports Session Faults
begin

text \<open>
  Handles and freed memory: \<open>safe m\<close> says that \<open>m\<close> never follows a handle whose object was
  deleted. Member functions follow no handle at all; a callback follows the one it is given,
  once, before anything else. Sessions that keep to the kernel's tables are therefore free of
  use after free, whatever the servers answer.
\<close>

abbreviation safe :: "('s, 'a) comp \<Rightarrow> bool" where
  "safe m \<equiv> never UseAfterFree m"

section \<open>Member functions\<close>

lemma safe_with_object [never_intros]:
  "safe m \<Longrightarrow> safe (with_file fh f m)" "safe n \<Longrightarrow> safe (with_directory fh e n)"
  unfolding never_def with_file_def with_directory_def
  by (auto split: prod.split) (metis fst_conv)+

lemma safe_release_handle [never_intros]: "safe (release_handle fi)"
  by (simp add: never_def release_handle_def)

lemma safe_memcache [never_intros]:
  "safe m \<Longrightarrow> safe (with_memcache m)" "safe (memcache_get E p)" "safe (memcache_set E p st)"
  "safe (memcache_remove E p)" "safe (forget_path E p)"
  unfolding with_memcache_def memcache_get_def memcache_set_def memcache_remove_def forget_path_def
  by (auto intro!: never_intros split: cached_value.split)

lemma safe_new [never_intros]: "safe (new_entry E p)" "safe (new_file E p)"
  unfolding new_file_def new_entry_def connection_string_def by (intro never_intros)+

lemma safe_gridfile [never_intros]: "safe (gridfile E)" "safe (entry_exists E)"
  unfolding entry_exists_def gridfile_def by (intro never_intros)+

lemma safe_stat_attrs [never_intros]: "safe (stat_attrs E g)"
  unfolding stat_attrs_def
  using parse_content_type_outcomes [of "config E"]
  by (intro never_intros) (metis fault.distinct outcome.distinct outcome.inject(3))

lemma safe_entry_stat [never_intros]: "safe (entry_stat E)"
  unfolding entry_stat_def stat_gridfile_def Let_def by (intro never_intros)

lemma safe_synchonizeUpdate [never_intros]: "safe (synchonizeUpdate E)"
  unfolding synchonizeUpdate_def by (auto intro!: never_intros split: err_field.split)

lemma safe_entry_changes [never_intros]:
  "safe (entry_create E mode uid gid content)" "safe (entry_remove E)" "safe (entry_chmod E mode)"
  "safe (entry_chown E uid gid)" "safe (entry_utimes E time)"
  unfolding entry_create_def force_reload_def entry_remove_def entry_chmod_def entry_chown_def
    entry_utimes_def updateContentType_def
  by (auto intro!: never_intros)

lemma safe_fill [never_intros]: "safe (fill filler n)"
  unfolding fill_def by (intro never_intros)

lemma safe_list_loop [never_intros]: "safe (list_loop filler pos seen ns failure)"
  by (induction ns arbitrary: seen) (auto simp: Let_def intro!: never_intros)

lemma safe_directory [never_intros]: "safe (directory_list E filler)" "safe (directory_isEmpty E)"
  unfolding directory_list_def directory_isEmpty_def directory_cursor_def
  by (auto intro!: never_intros)

lemma safe_servers_loop [never_intros]: "safe (servers_loop E filler is)"
  by (induction "is") (auto intro!: never_intros)

lemma safe_proc [never_intros]: "safe (proc_list E filler p)" "safe (proc_stat E p st)" "safe (proc_create E p)"
  unfolding proc_list_def listServers_def proc_stat_def proc_create_def
  by (auto intro!: never_intros split: option.split proc_type.split)

lemma safe_symlink_read [never_intros]: "safe (symlink_read E sz)"
  unfolding symlink_read_def Let_def by (auto intro!: never_intros)

lemma safe_memory [never_intros]:
  "safe (init_memory E)" "safe (extend_memory E)" "safe (copy_in data offset)" "safe free_memory"
  unfolding init_memory_def extend_memory_def copy_in_def free_memory_def Let_def
  by (auto intro!: never_intros split: mapping.split)

lemma safe_extend_loop [never_intros]: "safe (extend_loop E fuel target)"
  by (induction fuel) (auto intro!: never_intros)

lemma pure_faults [simp]:
  "mapped_bytes m n \<noteq> Fault UseAfterFree" "c_div a b \<noteq> Fault UseAfterFree"
  "c_mod a b \<noteq> Fault UseAfterFree"
  by (auto simp: mapped_bytes_def c_div_def c_mod_def split: mapping.split)

lemma safe_file_writing [never_intros]:
  "safe (file_write E data offset)" "safe (file_store E)" "safe (file_truncate E)"
  unfolding file_write_def file_store_def file_truncate_def Let_def
  by (auto intro!: never_intros)

lemma safe_read_chunk [never_intros]: "safe (file_read_chunk E n sz offset)"
  unfolding file_read_chunk_def with_lock_def fetch_chunk_def by (auto intro!: never_intros)

lemma safe_read_loop [never_intros]: "safe (read_loop E fuel sz offset read data)"
  by (induction fuel arbitrary: read data)
    (auto simp: Let_def intro!: never_intros)

lemma safe_file_read [never_intros]: "safe (file_read E sz offset)"
  unfolding file_read_def fetch_chunk_size_def fetch_length_def by (auto intro!: never_intros)

section \<open>Callbacks\<close>

text \<open>A callback that is given a handle follows that one.\<close>

definition safe_at :: "nat \<Rightarrow> (('w, 'x) fuse_state_scheme, 'a) comp \<Rightarrow> bool" where
  "safe_at fh m \<longleftrightarrow> (\<forall>s. fh = 0 \<or> objects s fh \<noteq> None \<longrightarrow> fst (m s) \<noteq> Fault UseAfterFree)"

lemma safe_at_deref: "(\<And>fi. safe (f fi)) \<Longrightarrow> safe_at fh (bind (deref fh) f)"
  by (auto simp: safe_at_def never_def bind_def deref_def)

lemma safe_at_delete: "(\<And>fi. safe (f fi)) \<Longrightarrow> safe_at fh (bind (delete_handle fh) f)"
  by (auto simp: safe_at_def never_def bind_def delete_handle_def)

lemma safe_at_catch: "safe_at fh m \<Longrightarrow> safe_at fh (catch_with m a)"
  unfolding safe_at_def catch_with_def by (auto split: prod.split outcome.split) (metis fst_conv)+

lemma safe_at_dtor: "safe_at fh m \<Longrightarrow> safe_at fh (with_dtor m d)"
  unfolding safe_at_def with_dtor_def by (auto split: prod.split outcome.split) (metis fst_conv)+

lemma safe_at_then: "safe_at fh m \<Longrightarrow> (\<And>a. safe (f a)) \<Longrightarrow> safe_at fh (bind m f)"
  unfolding safe_at_def never_def bind_def
  by (auto split: prod.split outcome.split) (metis fst_conv)+

lemma safe_at_assert: "safe_at fh m \<Longrightarrow> safe_at fh (bind (assert_that nd (ret b)) (\<lambda>_. m))"
  by (auto simp: safe_at_def bind_def assert_that_def comp_simps)

lemma safe_handle_callbacks:
  "safe_at fh (gridfs_readdir E filler fh)" "safe_at fh (gridfs_releasedir E fh)"
  "safe_at fh (gridfs_write E data off fh)" "safe_at fh (gridfs_read E sz off fh)"
  "safe_at fh (gridfs_release E p fh)"
  unfolding gridfs_readdir_def gridfs_releasedir_def gridfs_write_def gridfs_read_def
    gridfs_release_def Let_def
  by (intro safe_at_dtor safe_at_assert safe_at_catch safe_at_deref safe_at_delete,
      auto intro!: never_intros split: file_info.split)+

lemma safe_path_callbacks [never_intros]:
  "safe (gridfs_getattr E p st)" "safe (gridfs_mkdir E p mode)" "safe (gridfs_rmdir E p)"
  "safe (gridfs_opendir E p fh)" "safe (gridfs_create E p mode)" "safe (gridfs_unlink E p)"
  "safe (gridfs_open E p fh)" "safe (gridfs_symlink E old new)" "safe (gridfs_readlink E p sz)"
  "safe (gridfs_chmod E p mode)" "safe (gridfs_chown E p uid gid)" "safe (gridfs_truncate E p off)"
  "safe (gridfs_utimens E p time)"
  unfolding gridfs_getattr_def gridfs_mkdir_def gridfs_rmdir_def gridfs_opendir_def gridfs_create_def
    gridfs_unlink_def gridfs_open_def gridfs_symlink_def gridfs_readlink_def gridfs_chmod_def
    gridfs_chown_def gridfs_truncate_def gridfs_utimens_def Let_def
  by (intro never_intros)+

text \<open>The handle that a request carries.\<close>

lemma serve_safe_at: "safe_at (handle_of req) (serve E filler req)"
proof -
  have weaker: "safe m \<Longrightarrow> safe_at fh m" for fh and m :: "(('w, 'x) fuse_state_scheme, int \<times> payload) comp"
    by (simp add: safe_at_def never_def)
  show ?thesis
    by (cases req)
      (auto simp: serve_def no_payload_def optional_def
        intro!: weaker never_intros safe_at_then [OF safe_handle_callbacks(1)]
          safe_at_then [OF safe_handle_callbacks(2)] safe_at_then [OF safe_handle_callbacks(3)]
          safe_at_then [OF safe_handle_callbacks(4)] safe_at_then [OF safe_handle_callbacks(5)])
qed

section \<open>Sessions\<close>

text \<open>The requests that the kernel may send: with a handle from its tables.\<close>

fun may_send :: "'w machine \<Rightarrow> request \<Rightarrow> bool" where
  "may_send k (Readdir fh) \<longleftrightarrow> fh \<in> dirs k"
| "may_send k (Releasedir fh) \<longleftrightarrow> fh \<in> dirs k"
| "may_send k (Read fh sz off) \<longleftrightarrow> fh \<in> files k"
| "may_send k (Write fh data off) \<longleftrightarrow> fh \<in> files k"
| "may_send k (Release p fh) \<longleftrightarrow> fh \<in> files k"
| "may_send k req \<longleftrightarrow> True"

lemma session_no_use_after_free:
  assumes "session_ok k" "may_send k req"
  shows "fst (serve E filler req (fuse k)) \<noteq> Fault UseAfterFree"
proof -
  have "handle_of req = 0 \<or> objects (fuse k) (handle_of req) \<noteq> None"
    using assms session_ok_live [OF assms(1)] by (cases req) auto
  then show ?thesis using serve_safe_at [of req E filler] unfolding safe_at_def by blast
qed

end
