(* ===== verification/Loops_End.thy ===== *)
theory Loops_End
  imports File_Correct File_Write Faults
begin

text \<open>
  The two loops of \<open>File\<close> end, whatever the servers and the kernel answer: the fuel that
  \<open>write\<close> and \<open>read\<close> give them is never used up. Each turn of the first adds a chunk of
  memory or raises an exception, each turn of the second reads at least one byte or stops.
\<close>

section \<open>Growing the memory\<close>

lemma extend_memory_grows:
  fixes f :: "'y file_obj_scheme"
  assumes "extend_memory E (f, s) = (Ret (), (f', s'))"
    and "0 \<le> theCurrentDataSize f" "0 \<le> theChunkSize f" "theCurrentDataSize f + theChunkSize f < 2 ^ 64"
  shows "theCurrentDataSize f' = theCurrentDataSize f + theChunkSize f" "theChunkSize f' = theChunkSize f"
proof -
  have "c_size_t (theCurrentDataSize f + theChunkSize f) = theCurrentDataSize f + theChunkSize f"
    using assms(2-4) by (intro c_size_t_id) simp_all
  then show "theCurrentDataSize f' = theCurrentDataSize f + theChunkSize f" "theChunkSize f' = theChunkSize f"
    using assms(1)
    by (auto simp: extend_memory_def Let_def bind_run comp_simps c_call_def
        split: prod.splits mapping.splits if_splits)
qed

lemma extend_memory_fuel: "never NoFuel (extend_memory E)"
  unfolding extend_memory_def Let_def by (auto intro!: never_intros split: mapping.split)

lemma extend_loop_ends:
  fixes f :: "'y file_obj_scheme"
  assumes cs: "0 < cs" and target: "target + cs < 2 ^ 64"
  shows "0 \<le> theCurrentDataSize f \<Longrightarrow> theChunkSize f = cs \<Longrightarrow>
    nat (target - theCurrentDataSize f) < fuel \<Longrightarrow> fst (extend_loop E fuel target (f, s)) \<noteq> Fault NoFuel"
proof (induction fuel arbitrary: f s)
  case 0
  then show ?case by simp
next
  case (Suc fuel)
  show ?case
  proof (cases "theCurrentDataSize f < target")
    case False
    then show ?thesis by (simp add: bind_run comp_simps)
  next
    case True
    obtain q f' s' where e: "extend_memory E (f, s) = (q, (f', s'))"
      by (cases "extend_memory E (f, s)") auto
    show ?thesis
    proof (cases q)
      case (Ret u)
      have "theCurrentDataSize f' = theCurrentDataSize f + cs" "theChunkSize f' = cs"
        using extend_memory_grows [of E f s f' s'] e Ret Suc.prems(1,2) True target cs by simp_all
      moreover from this have "fst (extend_loop E fuel target (f', s')) \<noteq> Fault NoFuel"
        using Suc.prems True cs by (intro Suc.IH) auto
      ultimately show ?thesis using True e Ret by (simp add: bind_run comp_simps)
    qed (use True e neverD [OF extend_memory_fuel, of E "(f, s)"] in \<open>simp_all add: bind_run comp_simps\<close>)
  qed
qed

section \<open>Reading chunk by chunk\<close>

text \<open>What a file object knows of the file's sizes; reading a chunk does not change it.\<close>

definition sizes_are :: "int \<Rightarrow> int \<Rightarrow> 'y file_obj_scheme \<Rightarrow> bool" where
  "sizes_are c D f \<longleftrightarrow> theChunkSize f = c \<and> theFileLength f = D"

lemma read_chunk_sizes: "keeps (about (sizes_are c D)) (file_read_chunk E n sz off)"
  unfolding file_read_chunk_def fetch_chunk_def gridfile_def
  by (intro about_with_lock about_intros)
    (auto simp: lock_free_def sizes_are_def intro!: about_intros about_set split: option.split)

lemma read_chunk_result:
  assumes "file_read_chunk E n k off x = (Ret (m, bs), y)"
  shows "m = k"
  using assms unfolding file_read_chunk_def with_lock_def
  by (auto simp: with_dtor_def fault_def ret_def dest!: bind_result
      split: prod.splits outcome.splits if_splits option.splits)

lemma read_chunk_fuel: "never NoFuel (file_read_chunk E n k off)"
  unfolding file_read_chunk_def with_lock_def fetch_chunk_def gridfile_def
  by (intro never_intros) simp_all

lemma read_loop_ends:
  fixes f :: "'y file_obj_scheme"
  assumes sizes: "D \<le> 2 ^ 31" "0 < c" "c < 2 ^ 31" and r: "0 \<le> off" "off + sz < 2 ^ 63"
  shows "sizes_are c D f \<Longrightarrow> 0 \<le> r \<Longrightarrow> r \<le> sz \<Longrightarrow> nat (sz - r) < fuel \<Longrightarrow>
    fst (read_loop E fuel sz off r acc (f, s)) \<noteq> Fault NoFuel"
proof (induction fuel arbitrary: f s r acc)
  case 0
  then show ?case by simp
next
  case (Suc fuel)
  have f: "theChunkSize f = c" "theFileLength f = D" using Suc.prems(1) by (simp_all add: sizes_are_def)
  show ?case
  proof (cases "r < sz \<and> off + r < D")
    case False
    have "c_size_t (off + r) = off + r" using Suc.prems r by (intro c_size_t_id) auto
    then show ?thesis using False Suc.prems f by (auto simp: bind_run comp_simps)
  next
    case True
    obtain k where k: "read_loop E (Suc fuel) sz off r acc (f, s) =
        bind (file_read_chunk E ((off + r) div c) k ((off + r) mod c))
          (\<lambda>(n, bs). read_loop E fuel sz off (c_size_t (r + n)) (acc @ bs)) (f, s)"
      "0 < k" "r + k \<le> sz" "c_size_t (r + k) = r + k"
      by (rule loop_turn [OF f sizes r(1) Suc.prems(2) _ r(2), of E fuel acc s]) (use True in auto)
    let ?chunk = "file_read_chunk E ((off + r) div c) k ((off + r) mod c)"
    obtain q f' s' where e: "?chunk (f, s) = (q, (f', s'))" by (cases "?chunk (f, s)") auto
    show ?thesis
    proof (cases q)
      case (Ret nb)
      obtain n bs where nb: "nb = (n, bs)" by (cases nb)
      have n: "n = k" using read_chunk_result e Ret nb by blast
      have "sizes_are c D f'"
        using keepsD [OF read_chunk_sizes [of c D], of "(f, s)"] e Ret Suc.prems(1) by fastforce
      then have "fst (read_loop E fuel sz off (r + k) (acc @ bs) (f', s')) \<noteq> Fault NoFuel"
        using Suc.prems k(2,3) by (intro Suc.IH) auto
      moreover have "bind ?chunk (\<lambda>(n, bs). read_loop E fuel sz off (c_size_t (r + n)) (acc @ bs)) (f, s) =
          read_loop E fuel sz off (r + k) (acc @ bs) (f', s')"
        unfolding bind_Ret [where m = ?chunk, OF e [unfolded Ret nb n]] by (simp only: prod.case k(4))
      ultimately show ?thesis unfolding k(1) by simp
    next
      case (Fault x)
      then have "x \<noteq> NoFuel" using neverD [OF read_chunk_fuel] e by blast
      with e Fault show ?thesis unfolding k(1) by (simp add: bind_Fault [where m = ?chunk])
    qed (use e in \<open>simp_all only: k(1) bind_run prod.case outcome.case fst_conv outcome.distinct not_False_eq_True\<close>)
  qed
qed

section \<open>Write and read end\<close>

definition growing :: "int \<Rightarrow> 'y file_obj_scheme \<Rightarrow> bool" where
  "growing cs f \<longleftrightarrow> theChunkSize f = cs \<and> 0 \<le> theCurrentDataSize f"

lemma file_write_ends:
  assumes cs: "mongo_chunk_size (config E) = cs" "0 < cs"
    and off: "0 \<le> off" "off + int (length data) + cs < 2 ^ 64"
  shows "never_from NoFuel (about (\<lambda>f. theChunkSize f \<in> {0, cs} \<and> 0 \<le> theCurrentDataSize f))
    (file_write E data off)"
proof -
  let ?target = "off + int (length data)"
  have t: "c_size_t ?target = ?target" using cs off by (intro c_size_t_id) auto
  have loop: "never_from NoFuel (about (growing cs)) (extend_loop E (Suc (nat ?target)) ?target)"
    unfolding never_from_def
  proof (intro allI impI, goal_cases)
    case (1 x)
    obtain f s where x: "x = (f, s)" by (cases x)
    with 1 have f: "0 \<le> theCurrentDataSize f" "theChunkSize f = cs" unfolding x by (simp_all add: growing_def)
    then have "nat (?target - theCurrentDataSize f) \<le> nat ?target" by (intro nat_mono) simp
    then have lt: "nat (?target - theCurrentDataSize f) < Suc (nat ?target)" by simp
    show ?case
      unfolding x by (rule extend_loop_ends [OF cs(2) off(2) f lt])
  qed
  have init: "keeps (about (growing cs)) (init_memory E)" "never NoFuel (init_memory E)"
    unfolding init_memory_def using cs(2)
    by (intro about_intros about_set never_intros; simp add: growing_def)+
  have copy: "never NoFuel (copy_in data off)"
    unfolding copy_in_def by (auto intro!: never_intros split: mapping.split)
  have set_size: "moves (about (\<lambda>f. theChunkSize f \<in> {0, cs} \<and> 0 \<le> theCurrentDataSize f))
      (this_set (\<lambda>f. if theChunkSize f = 0 then f\<lparr>theChunkSize := mongo_chunk_size (config E)\<rparr> else f))
      (about (growing cs))"
    using cs by (auto simp: moves_def this_set_def growing_def about_def)
  show ?thesis
    unfolding file_write_def Let_def t
    by (intro never_from_bind [OF _ set_size] never_from_keep [OF _ keeps_this_get] never_from_if
        never_from_keep [OF _ keeps_if [OF init(1) keeps_ret]]
        never_from_bind [OF loop, where Q = "\<lambda>_. True"])
      (auto simp: moves_def intro!: never_fromI never_intros init copy)
qed

lemma file_read_ends:
  fixes f :: "'y file_obj_scheme"
  assumes "0 < theChunkSize f" "theChunkSize f < 2 ^ 31" "0 < theFileLength f" "theFileLength f \<le> 2 ^ 31"
    and "0 \<le> off" "0 \<le> sz" "off + sz < 2 ^ 63"
  shows "fst (file_read E sz off (f, s)) \<noteq> Fault NoFuel"
proof -
  have "fst (read_loop E (Suc (nat sz)) sz off 0 [] (f, s)) \<noteq> Fault NoFuel"
    by (rule read_loop_ends [OF assms(4,1,2,5,7)]) (use assms(6) in \<open>simp_all add: sizes_are_def\<close>)
  then show ?thesis using assms(1,3)
    by (simp add: file_read_def fetch_chunk_size_def fetch_length_def bind_run [of this_get] comp_simps
        bind_run [of "bind m g" for m g] bind_ret del: read_loop.simps)
qed

end
