(* ===== verification/Typed_Files.thy ===== *)
theory Typed_Files
  imports Loops_End
begin

text \<open>
  The fields of a file object keep their C types and their meaning, whatever the servers and the
  kernel answer: sizes are \<open>size_t\<close> values, mapped memory is as long as \<open>theCurrentDataSize\<close>
  says, and what was written fits in it. So no write and no store leaves the mapping, and no
  read delivers more bytes than the caller has room for. As long as the kernel refuses no
  extension of mapped memory, no file loses its memory either.
\<close>

section \<open>The invariant\<close>

fun memory_typed :: "mapping \<Rightarrow> int \<Rightarrow> bool" where
  "memory_typed NoMapping n = (n = 0)"
| "memory_typed MapFailed n = True"
| "memory_typed (Mapped bs) n = (int (length bs) = n)"

definition file_typed :: "'y file_obj_scheme \<Rightarrow> bool" where
  "file_typed f \<longleftrightarrow> 0 \<le> theChunkSize f \<and> theChunkSize f < 2 ^ 32 \<and>
     0 \<le> theFileLength f \<and> theFileLength f < 2 ^ 64 \<and>
     0 \<le> theWritten f \<and> theWritten f \<le> theCurrentDataSize f \<and> theCurrentDataSize f < 2 ^ 64 \<and>
     memory_typed (theData f) (theCurrentDataSize f)"

text \<open>
  \<open>grows E\<close>: the kernel refuses no extension to a positive size. Then a pointer is \<open>MAP_FAILED\<close>
  only while the object counts no memory as its own.
\<close>

definition grows :: "'w env \<Rightarrow> bool" where
  "grows E \<longleftrightarrow> (\<forall>n n' w. 0 < n' \<longrightarrow> fst (remap_memory E n n' w))"

definition unlost :: "'y file_obj_scheme \<Rightarrow> bool" where
  "unlost f \<longleftrightarrow> (theData f = MapFailed \<longrightarrow> theCurrentDataSize f = 0)"

definition has_memory :: "'y file_obj_scheme \<Rightarrow> bool" where
  "has_memory f \<longleftrightarrow> (\<exists>bs. theData f = Mapped bs)"

definition file_valid :: "'w env \<Rightarrow> 'y file_obj_scheme \<Rightarrow> bool" where
  "file_valid E f \<longleftrightarrow> file_typed f \<and> (grows E \<longrightarrow> unlost f)"

lemma file_validD: "file_valid E f \<Longrightarrow> file_typed f"
  by (simp add: file_valid_def)

lemma has_memory_unlost: "has_memory f \<Longrightarrow> unlost f"
  by (auto simp: has_memory_def unlost_def)

lemma typed_memory: "file_typed f \<Longrightarrow> unlost f \<Longrightarrow> theCurrentDataSize f \<noteq> 0 \<Longrightarrow> has_memory f"
  by (cases "theData f") (auto simp: file_typed_def unlost_def has_memory_def)

lemma file_of_entry_typed: "file_typed (file_of_entry e)"
  by (simp add: file_typed_def file_of_entry_def)

lemma file_of_entry_valid: "file_valid E (file_of_entry e)"
  by (simp add: file_valid_def file_of_entry_typed) (simp add: unlost_def file_of_entry_def)

text \<open>Both parts of the invariant are kept together.\<close>

lemma keeps_valid:
  assumes "keeps (about file_typed) m" "keeps (about unlost) m"
  shows "keeps (about (file_valid E)) m"
  unfolding keeps_def moves_def
proof (intro allI impI)
  fix x r y assume "about (file_valid E) x" "m x = (r, y)" "goes_on r"
  then show "about (file_valid E) y"
    using keepsD [OF assms(1), of x r y] keepsD [OF assms(2), of x r y]
    by (cases x; cases y) (auto simp: file_valid_def)
qed

lemma unlost_free: "read_free unlost" "lock_free unlost"
  by (simp_all add: read_free_def lock_free_def unlost_def)

lemma c_uint_range: "0 \<le> c_uint x" "c_uint x < 2 ^ 32"
  using take_bit_int_less_exp [of 32 x] by (simp_all add: c_uint_def)

lemma c_size_t_range: "0 \<le> c_size_t x" "c_size_t x < 2 ^ 64"
  using take_bit_int_less_exp [of 64 x] by (simp_all add: c_size_t_def)

section \<open>Writing\<close>

lemma map_typed:
  assumes "init_memory E (f, s) = (r, (f', s'))" "file_typed f" "theCurrentDataSize f = 0"
  shows "file_typed f'" "theWritten f' = theWritten f" "\<And>x. r \<noteq> Fault x"
    "unlost f'" "r = Ret () \<Longrightarrow> has_memory f'"
  using assms
  by (auto simp: init_memory_def bind_run comp_simps c_call_def file_typed_def unlost_def has_memory_def
      split: prod.splits if_splits)

lemma extend_typed:
  assumes "extend_memory E (f, s) = (r, (f', s'))" "file_typed f"
    and "theCurrentDataSize f + theChunkSize f < 2 ^ 64"
  shows "file_typed f'" "theWritten f' = theWritten f" "\<And>x. r \<noteq> Fault x"
proof -
  have "c_size_t (theCurrentDataSize f + theChunkSize f) = theCurrentDataSize f + theChunkSize f"
    using assms(2,3) by (intro c_size_t_id) (auto simp: file_typed_def)
  then show "file_typed f'" "theWritten f' = theWritten f" "\<And>x. r \<noteq> Fault x"
    using assms
    by (auto simp: extend_memory_def Let_def bind_run comp_simps c_call_def file_typed_def resize_def
        split: prod.splits mapping.splits if_splits)
qed

text \<open>Where the kernel refuses no extension, the memory is not lost.\<close>

lemma extend_keeps_memory:
  assumes "extend_memory E (f, s) = (r, (f', s'))" "file_typed f" "grows E" "has_memory f"
    and "theCurrentDataSize f + theChunkSize f < 2 ^ 64"
  shows "unlost f'" "r = Ret () \<Longrightarrow> has_memory f'"
proof -
  have c: "c_size_t (theCurrentDataSize f + theChunkSize f) = theCurrentDataSize f + theChunkSize f"
    "0 \<le> theCurrentDataSize f" "0 \<le> theChunkSize f"
    using assms(2,5) by (auto simp: file_typed_def intro!: c_size_t_id)
  have "fst (remap_memory E (theCurrentDataSize f) (theCurrentDataSize f + theChunkSize f) w)"
    if "theCurrentDataSize f \<noteq> 0" for w
    using assms(3) that c(2,3) by (simp add: grows_def)
  then show "unlost f'" "r = Ret () \<Longrightarrow> has_memory f'"
    using assms(1,4) c(1)
    by (auto simp: extend_memory_def Let_def bind_run comp_simps c_call_def unlost_def has_memory_def
        split: prod.splits if_splits) (metis fst_conv)+
qed

text \<open>The loop stops with enough memory; no other fault than the missing fuel is possible.\<close>

lemma extend_loop_typed:
  fixes f :: "'y file_obj_scheme"
  assumes target: "target < 2 ^ 63"
  shows "extend_loop E fuel target (f, s) = (r, (f', s')) \<Longrightarrow> file_typed f \<Longrightarrow>
    file_typed f' \<and> theWritten f' = theWritten f \<and> (r = Ret () \<longrightarrow> target \<le> theCurrentDataSize f') \<and>
    r \<noteq> Fault OutOfBounds \<and> r \<noteq> Fault BadPointer \<and>
    (grows E \<longrightarrow> has_memory f \<longrightarrow> unlost f' \<and> (r = Ret () \<longrightarrow> has_memory f'))"
proof (induction fuel arbitrary: f s)
  case 0
  then show ?case by (auto simp: comp_simps has_memory_unlost)
next
  case (Suc fuel)
  show ?case
  proof (cases "theCurrentDataSize f < target")
    case False
    then show ?thesis using Suc.prems by (auto simp: bind_run comp_simps has_memory_unlost)
  next
    case True
    obtain q f1 s1 where e: "extend_memory E (f, s) = (q, (f1, s1))"
      by (cases "extend_memory E (f, s)") auto
    have room: "theCurrentDataSize f + theChunkSize f < 2 ^ 64"
      using True target Suc.prems(2) by (auto simp: file_typed_def)
    note t = extend_typed [OF e Suc.prems(2) room] and mem = extend_keeps_memory [OF e Suc.prems(2) _ _ room]
    show ?thesis
    proof (cases q)
      case (Ret u)
      then have "extend_loop E fuel target (f1, s1) = (r, (f', s'))"
        using Suc.prems(1) True e by (simp add: bind_run comp_simps)
      from Suc.IH [OF this t(1)] t(2) mem Ret show ?thesis by simp
    qed (use Suc.prems(1) True e t mem in \<open>auto simp: bind_run comp_simps\<close>)
  qed
qed

lemma copy_typed:
  assumes "copy_in data off (f, s) = (r, (f', s'))" "file_typed f"
    and "0 \<le> off" "off + int (length data) \<le> theCurrentDataSize f"
  shows "file_typed f'" "theWritten f' = theWritten f" "theCurrentDataSize f' = theCurrentDataSize f"
    "r \<noteq> Fault OutOfBounds" "has_memory f \<Longrightarrow> has_memory f' \<and> r \<noteq> Fault BadPointer"
proof -
  have fits: "nat off + length data \<le> length bs" if "theData f = Mapped bs" for bs
    using that assms(2-4) by (auto simp: file_typed_def)
  then show "file_typed f'" "theWritten f' = theWritten f" "theCurrentDataSize f' = theCurrentDataSize f"
    "r \<noteq> Fault OutOfBounds" "has_memory f \<Longrightarrow> has_memory f' \<and> r \<noteq> Fault BadPointer"
    using assms
    by (auto simp: copy_in_def bind_run comp_simps file_typed_def has_memory_def split: mapping.splits if_splits)
qed

lemma write_typed:
  fixes f :: "'y file_obj_scheme"
  assumes run: "file_write E data off (f, s) = (r, (f', s'))"
    and f: "file_typed f" and cs: "0 \<le> mongo_chunk_size (config E)" "mongo_chunk_size (config E) < 2 ^ 32"
    and off: "0 \<le> off" "off + int (length data) < 2 ^ 63"
  shows "file_typed f' \<and> r \<noteq> Fault OutOfBounds \<and> (grows E \<longrightarrow> unlost f \<longrightarrow> unlost f' \<and> r \<noteq> Fault BadPointer)"
proof -
  let ?f1 = "sized_chunks E f" and ?n = "int (length data)"
  have c: "c_size_t off = off" "c_size_t (off + ?n) = off + ?n"
    using off by (auto intro!: c_size_t_id)
  have f1: "file_typed ?f1" "unlost ?f1 = unlost f"
    using f cs by (auto simp: file_typed_def sized_chunks_def unlost_def)
  show ?thesis
  proof (cases "theWritten f = off")
    case False
    then show ?thesis using run f1 file_write_elsewhere [of f off E data s] c by auto
  next
    case True
    let ?mem = "if theCurrentDataSize ?f1 = 0 then init_memory E else ret ()"
    let ?loop = "extend_loop E (Suc (nat (off + ?n))) (off + ?n)"
    let ?rest = "bind (this_set (\<lambda>f. f\<lparr>theHasChanges := True\<rparr>)) (\<lambda>_.
      bind (this_set (\<lambda>f. f\<lparr>theWritten := c_size_t (theWritten f + ?n)\<rparr>)) (\<lambda>_. ret ?n))"
    have w: "file_write E data off (f, s) =
        bind ?mem (\<lambda>_. bind ?loop (\<lambda>_. bind (copy_in data off) (\<lambda>_. ?rest))) (?f1, s)"
      using True c by (simp add: file_write_def Let_def bind_run [of "this_set g" for g] bind_run [of this_get]
          comp_simps sized_chunks_def [symmetric] del: extend_loop.simps)
    obtain q2 f2 s2 where 2: "?mem (?f1, s) = (q2, (f2, s2))" by (cases "?mem (?f1, s)") auto
    have t2: "file_typed f2" "theWritten f2 = off" "\<And>x. q2 \<noteq> Fault x"
      using 2 map_typed [of E ?f1 s q2 f2 s2] f1 True by (auto simp: comp_simps split: if_splits)
    have u2: "unlost f2 \<and> (q2 = Ret () \<longrightarrow> has_memory f2)" if "unlost f"
      using 2 map_typed [of E ?f1 s q2 f2 s2] f1 that typed_memory [OF f1(1)]
      by (auto simp: comp_simps split: if_splits)
    show ?thesis
    proof (cases "q2 = Ret ()")
      case False
      then show ?thesis using run w 2 t2 u2 by (cases q2) (auto simp: bind_run simp del: extend_loop.simps)
    next
      case r2: True
      obtain q3 f3 s3 where 3: "?loop (f2, s2) = (q3, (f3, s3))" by (cases "?loop (f2, s2)") auto
      note t3 = extend_loop_typed [OF off(2) 3 t2(1)]
      show ?thesis
      proof (cases "q3 = Ret ()")
        case False
        then show ?thesis using run w 2 r2 3 t3 u2
          by (cases q3) (auto simp: bind_run simp del: extend_loop.simps)
      next
        case r3: True
        obtain q4 f4 s4 where 4: "copy_in data off (f3, s3) = (q4, (f4, s4))"
          by (cases "copy_in data off (f3, s3)") auto
        have fits: "off + ?n \<le> theCurrentDataSize f3" using t3 r3 by simp
        note t4 = copy_typed [OF 4 _ off(1) fits]
        have "file_typed (f4\<lparr>theHasChanges := True, theWritten := off + ?n\<rparr>)"
          using t4 t3 fits off(1) by (auto simp: file_typed_def)
        moreover have "theWritten f4 = off" using t4 t3 t2(2) by simp
        moreover have "unlost f4 \<and> q4 \<noteq> Fault BadPointer" if "grows E" "unlost f"
          using t3 t4(5) u2 r2 r3 that has_memory_unlost by auto
        moreover have "unlost (f4\<lparr>theHasChanges := True, theWritten := n\<rparr>) = unlost f4" for n
          by (simp add: unlost_def)
        ultimately show ?thesis using run w 2 r2 3 r3 4 t4 t3 c
          by (cases q4) (auto simp: bind_run comp_simps simp del: extend_loop.simps)
      qed
    qed
  qed
qed

section \<open>Storing\<close>

lemma typed_gridfile: "keeps (about file_typed) (gridfile E)"
  unfolding gridfile_def by (auto simp: file_typed_def intro!: about_intros about_set split: option.split)

lemma unlost_gridfile: "keeps (about unlost) (gridfile E)"
  by (rule about_gridfile [OF unlost_free(1)])

text \<open>\<open>z\<close> is a fault that the bytes to be stored do not end in, when the object satisfies \<open>Q\<close>.\<close>

lemma store_tail_never:
  assumes "\<And>f :: 'y file_obj_scheme. Q f \<Longrightarrow> mapped_bytes (theData f) (theWritten f) \<noteq> Fault z"
  shows "never_from z (about Q) (bind this_get (\<lambda>f.
     bind (of_outcome (mapped_bytes (theData f) (theWritten f))) (\<lambda>data.
     bind (outside (call (store_file E data (thePath f) ct))) (\<lambda>_.
     bind free_memory (\<lambda>_.
     bind (this_set (\<lambda>f. f\<lparr>theFileLength := theWritten f\<rparr>)) (\<lambda>_.
     outside (synchonizeUpdate E))))))
     :: ('y file_obj_scheme \<times> ('w, 'x) process_scheme, unit) comp)"
proof (unfold never_from_def, intro allI impI)
  fix x :: "'y file_obj_scheme \<times> ('w, 'x) process_scheme" assume "about Q x"
  then obtain f s where x: "x = (f, s)" and f: "Q f" by (cases x) auto
  from assms [OF f] have "never z (bind (of_outcome (mapped_bytes (theData f) (theWritten f))) (\<lambda>data.
      bind (outside (call (store_file E data (thePath f) ct))) (\<lambda>_.
      bind free_memory (\<lambda>_. bind (this_set (\<lambda>f. f\<lparr>theFileLength := theWritten f\<rparr>)) (\<lambda>_.
      outside (synchonizeUpdate E))))) :: ('y file_obj_scheme \<times> ('w, 'x) process_scheme, unit) comp)"
    unfolding free_memory_def synchonizeUpdate_def by (auto intro!: never_intros split: err_field.split)
  then show "fst (bind this_get (\<lambda>f. bind (of_outcome (mapped_bytes (theData f) (theWritten f))) (\<lambda>data.
      bind (outside (call (store_file E data (thePath f) ct))) (\<lambda>_.
      bind free_memory (\<lambda>_. bind (this_set (\<lambda>f. f\<lparr>theFileLength := theWritten f\<rparr>)) (\<lambda>_.
      outside (synchonizeUpdate E)))))) x) \<noteq> Fault z"
    unfolding x never_def by (simp only: bind_run [of this_get] this_run prod.case outcome.case) blast
qed

lemma store_never:
  fixes f :: "'y file_obj_scheme" and s :: "('w, 'x) process_scheme"
  assumes "\<And>f :: 'y file_obj_scheme. Q f \<Longrightarrow> mapped_bytes (theData f) (theWritten f) \<noteq> Fault z"
    and "keeps (about Q) (gridfile E :: ('y file_obj_scheme \<times> ('w, 'x) process_scheme, gridfile) comp)"
    and "file_store E (f, s) = (r, (f', s'))" "Q f"
  shows "r \<noteq> Fault z"
proof -
  have "never_from z (about Q) (file_store E :: ('y file_obj_scheme \<times> ('w, 'x) process_scheme, unit) comp)"
    unfolding file_store_def gridfile_def [of E]
    by (intro never_from_keep [OF _ assms(2) [unfolded gridfile_def]] store_tail_never
        never_from_keep [OF _ keeps_getter] never_fromI never_intros assms(1))
  then show ?thesis using assms(3,4) unfolding never_from_def by (metis about_iff fst_conv)
qed

lemma store_typed:
  fixes f :: "'y file_obj_scheme" and s :: "('w, 'x) process_scheme"
  assumes "file_store E (f, s) = (r, (f', s'))" "file_valid E f"
  shows "r \<noteq> Fault OutOfBounds" "grows E \<Longrightarrow> r \<noteq> Fault BadPointer"
proof -
  show "r \<noteq> Fault OutOfBounds"
    by (rule store_never [where Q = file_typed, OF _ typed_gridfile assms(1) file_validD [OF assms(2)]])
      (auto simp: mapped_bytes_def file_typed_def nat_le_iff split: mapping.splits)
  show "r \<noteq> Fault BadPointer" if "grows E"
  proof (rule store_never [where Q = "file_valid E", OF _ keeps_valid [OF typed_gridfile unlost_gridfile] assms])
    fix g :: "'y file_obj_scheme" assume "file_valid E g"
    then have g: "file_typed g" "unlost g" using that by (simp_all add: file_valid_def)
    show "mapped_bytes (theData g) (theWritten g) \<noteq> Fault BadPointer"
    proof (cases "theWritten g = 0")
      case False
      then have "theCurrentDataSize g \<noteq> 0" using g(1) by (simp add: file_typed_def)
      with typed_memory [OF g] show ?thesis by (auto simp: mapped_bytes_def has_memory_def split: if_splits)
    qed (simp add: mapped_bytes_def)
  qed
qed

lemma store_keeps_valid: "keeps (about (file_valid E)) (file_store E)"
proof (rule keeps_valid)
  show "keeps (about file_typed) (file_store E)"
    unfolding file_store_def free_memory_def
    by (intro about_intros typed_gridfile about_set) (auto simp: file_typed_def)
  show "keeps (about unlost) (file_store E)"
    unfolding file_store_def free_memory_def
    by (intro about_intros unlost_gridfile about_set) (auto simp: unlost_def)
qed

lemma write_keeps_valid:
  assumes "0 \<le> mongo_chunk_size (config E)" "mongo_chunk_size (config E) < 2 ^ 32"
    and "0 \<le> off" "off + int (length data) < 2 ^ 63"
  shows "keeps (about (file_valid E)) (file_write E data off)"
  using write_typed [OF _ _ assms] by (fastforce simp: keeps_def moves_def about_def file_valid_def)

section \<open>Reading\<close>

lemma fetch_sizes_typed:
  "keeps (about file_typed) (fetch_chunk_size E)" "keeps (about file_typed) (fetch_length E)"
  unfolding fetch_chunk_size_def fetch_length_def
  using c_uint_range c_size_t_range
  by (intro about_intros typed_gridfile about_set; simp add: file_typed_def)+

lemma read_chunk_typed: "keeps (about file_typed) (file_read_chunk E n sz off)"
  unfolding file_read_chunk_def fetch_chunk_def
  by (intro about_with_lock about_intros typed_gridfile)
    (auto simp: lock_free_def file_typed_def intro!: about_intros about_set split: option.split)

text \<open>A piece of a chunk is as long as it was asked for, and starts in the chunk.\<close>

lemma read_chunk_piece:
  assumes "file_read_chunk E n k off x = (Ret (m, bs), y)"
  shows "m = k" "0 \<le> off" "0 \<le> k \<Longrightarrow> int (length bs) = k"
  using assms unfolding file_read_chunk_def with_lock_def
  by (auto simp: with_dtor_def fault_def ret_def dest!: bind_result
      split: prod.splits outcome.splits if_splits option.splits)

text \<open>The remainder of the C division lies below a positive chunk size, however the size is cast.\<close>

lemma c_mod_bound:
  assumes "c_mod a (c_int c) = Ret m" "0 \<le> c"
  shows "\<bar>m\<bar> \<le> c" "\<bar>m\<bar> < 2 ^ 31"
proof -
  have c: "c_int c \<noteq> 0" "m = sgn a * (\<bar>a\<bar> mod \<bar>c_int c\<bar>)"
    using assms(1) by (auto simp: c_mod_def signed_modulo_int_def split: if_splits)
  have "\<bar>m\<bar> \<le> \<bar>a\<bar> mod \<bar>c_int c\<bar>" unfolding c(2) using c(1) by (simp add: abs_mult sgn_if)
  moreover have "\<bar>a\<bar> mod \<bar>c_int c\<bar> < \<bar>c_int c\<bar>" using c(1) by simp
  moreover have "\<bar>c_int c\<bar> \<le> c"
  proof (cases "c < 2 ^ 31")
    case True
    then show ?thesis using assms(2) by (simp add: c_int_id)
  next
    case False
    then show ?thesis using c_int_range [of c] by linarith
  qed
  ultimately show "\<bar>m\<bar> \<le> c" "\<bar>m\<bar> < 2 ^ 31" using c_int_range [of c] by linarith+
qed

lemma c_off_t_size: "\<bar>m\<bar> < 2 ^ 31 \<Longrightarrow> c_off_t (c_size_t m) = m"
  by (simp add: c_off_t_def c_size_t_def signed_take_bit_take_bit signed_take_bit_int_eq_self)

text \<open>The size of one piece, with the casts of the loop.\<close>

definition piece_size :: "int \<Rightarrow> int \<Rightarrow> int \<Rightarrow> int \<Rightarrow> int \<Rightarrow> int \<Rightarrow> int" where
  "piece_size c D sz off r m =
     (let a = (if c_size_t (off + sz) > D then c_size_t (D - off) else sz);
          a = c_size_t (a - r)
      in if c_size_t (a + c_size_t m) > c then c_size_t (c - c_size_t m) else a)"

lemma piece_fits:
  assumes r: "0 \<le> off" "off + sz < 2 ^ 63" "0 \<le> r" "r \<le> sz" "off + r < D" "D < 2 ^ 64"
    and m: "0 \<le> m" "m \<le> c" "m < 2 ^ 31" "c < 2 ^ 32"
  shows "0 \<le> piece_size c D sz off r m \<and> piece_size c D sz off r m \<le> sz - r"
proof -
  define a where "a = (if off + sz > D then D - off else sz) - r"
  have a: "0 \<le> a" "a \<le> sz - r" using r by (auto simp: a_def)
  have casts: "c_size_t (off + sz) = off + sz" "c_size_t (D - off) = D - off" "c_size_t m = m"
    "c_size_t (c - m) = c - m" "c_size_t a = a" "c_size_t (a + m) = a + m"
    using a r m by (auto intro!: c_size_t_id)
  have "(if c_size_t (off + sz) > D then c_size_t (D - off) else sz) - r = a"
    by (simp add: casts a_def)
  then have "piece_size c D sz off r m = (if a + m > c then c - m else a)"
    by (simp add: piece_size_def casts)
  then show ?thesis using a m by simp
qed

lemma read_loop_turn_result:
  assumes "read_loop E (Suc fuel) sz off r acc (f, s) = (Ret (n, bs), x)"
    and "r \<noteq> sz \<and> c_size_t (off + r) < theFileLength f"
  obtains m q k piece y where
    "c_mod (c_int (c_size_t (off + r))) (c_int (theChunkSize f)) = Ret m"
    "file_read_chunk E q (piece_size (theChunkSize f) (theFileLength f) sz off r m)
       (c_off_t (c_size_t m)) (f, s) = (Ret (k, piece), y)"
    "read_loop E fuel sz off (c_size_t (r + k)) (acc @ piece) y = (Ret (n, bs), x)"
  using assms
  by (auto simp: bind_run [of this_get] comp_simps piece_size_def Let_def
      dest!: bind_result split: prod.splits)

lemma read_loop_room:
  fixes f :: "'y file_obj_scheme"
  assumes r: "0 \<le> off" "off + sz < 2 ^ 63"
  shows "read_loop E fuel sz off r acc (f, s) = (Ret (n, bs), x) \<Longrightarrow> file_typed f \<Longrightarrow>
    0 \<le> r \<Longrightarrow> r \<le> sz \<Longrightarrow> int (length acc) = r \<Longrightarrow> n = int (length bs) \<and> n \<le> sz"
proof (induction fuel arbitrary: f s r acc)
  case 0
  then show ?case by (simp add: comp_simps)
next
  case (Suc fuel)
  have pos: "c_size_t (off + r) = off + r" using Suc.prems r by (intro c_size_t_id) auto
  show ?case
  proof (cases "r \<noteq> sz \<and> c_size_t (off + r) < theFileLength f")
    case False
    then show ?thesis using Suc.prems by (auto simp: bind_run comp_simps)
  next
    case True
    let ?c = "theChunkSize f" and ?D = "theFileLength f"
    obtain m q k piece y where t:
      "c_mod (c_int (c_size_t (off + r))) (c_int ?c) = Ret m"
      "file_read_chunk E q (piece_size ?c ?D sz off r m) (c_off_t (c_size_t m)) (f, s) = (Ret (k, piece), y)"
      "read_loop E fuel sz off (c_size_t (r + k)) (acc @ piece) y = (Ret (n, bs), x)"
      by (rule read_loop_turn_result [OF Suc.prems(1) True])
    have f: "0 \<le> ?c" "?c < 2 ^ 32" "?D < 2 ^ 64" using Suc.prems(2) by (simp_all add: file_typed_def)
    note m = c_mod_bound [OF t(1) f(1)]
    note p = read_chunk_piece [OF t(2)]
    have "0 \<le> m" using p(2) c_off_t_size [OF m(2)] by simp
    then have k: "0 \<le> k" "k \<le> sz - r"
      using piece_fits [OF r Suc.prems(3,4), of ?D m ?c] True pos f m p(1) by auto
    obtain f1 s1 where y: "y = (f1, s1)" by (cases y)
    have "file_typed f1" using keepsD [OF read_chunk_typed _ t(2)] Suc.prems(2) y by simp
    moreover have "c_size_t (r + k) = r + k" using k r Suc.prems(3) by (intro c_size_t_id) auto
    moreover have "int (length (acc @ piece)) = r + k" using p k(1) Suc.prems(5) by simp
    ultimately show ?thesis
      using Suc.IH [of "r + k" "acc @ piece" f1 s1] t(3) k Suc.prems(3) y by simp
  qed
qed

lemma read_room:
  fixes f :: "'y file_obj_scheme" and s :: "('w, 'x) process_scheme"
  assumes run: "file_read E sz off (f, s) = (Ret (n, bs), x)" and f: "file_typed f"
    and r: "0 \<le> off" "0 \<le> sz" "off + sz < 2 ^ 63"
  shows "n = int (length bs) \<and> n \<le> sz"
proof -
  obtain f1 s1 f2 s2 where 1: "fetch_chunk_size E (f, s) = (Ret (), (f1, s1))"
    "fetch_length E (f1, s1) = (Ret (), (f2, s2))"
    "(if theFileLength f2 < c_size_t off then ret (0, []) else read_loop E (Suc (nat sz)) sz off 0 [])
       (f2, s2) = (Ret (n, bs), x)"
    using run unfolding file_read_def
    by (auto simp: bind_run [of this_get] comp_simps simp del: read_loop.simps dest!: bind_result)
  have "file_typed f1" using keepsD [OF fetch_sizes_typed(1) _ 1(1)] f by simp
  then have "file_typed f2" using keepsD [OF fetch_sizes_typed(2) _ 1(2)] by simp
  then show ?thesis
    using 1(3) read_loop_room [OF r(1,3), of E "Suc (nat sz)" 0 "[]" f2 s2 n bs x] r(2)
    by (auto simp: comp_simps simp del: read_loop.simps split: if_splits)
qed

lemma read_typed: "keeps (about file_typed) (file_read E sz off)"
proof -
  have "keeps (about file_typed) (read_loop E fuel sz off r acc)" for fuel r acc
    by (rule about_read_loop [OF refl read_chunk_typed])
  then show ?thesis
    unfolding file_read_def by (intro about_intros fetch_sizes_typed)
qed

lemma read_keeps_valid: "keeps (about (file_valid E)) (file_read E sz off)"
proof (rule keeps_valid [OF read_typed])
  show "keeps (about unlost) (file_read E sz off)"
    by (rule about_read [OF refl]) (use unlost_free in \<open>auto intro: about_read_chunk\<close>)
qed

end
