(* ===== verification/Answers.thy ===== *)
theory Answers
  imports Session Typed_Files
begin

text \<open>
  The type of an answer: what each request may give back, as the interface of FUSE promises it to
  the kernel: which payload goes with which number, and how many bytes it may hold. The rules for
  \<open>yields R m\<close> follow the structure of a computation that returns only values with \<open>R\<close>;
  \<open>table_typed\<close> is the invariant of Typed_Files for all open files.
\<close>

section \<open>The values that a computation returns\<close>

definition yields :: "('a \<Rightarrow> bool) \<Rightarrow> ('s, 'a) comp \<Rightarrow> bool" where
  "yields R m \<longleftrightarrow> (\<forall>s a s'. m s = (Ret a, s') \<longrightarrow> R a)"

named_theorems yields_intros \<open>a computation returns only values with a property\<close>

lemma yieldsD: "yields R m \<Longrightarrow> m s = (Ret a, s') \<Longrightarrow> R a"
  by (auto simp: yields_def)

lemma yields_basic [yields_intros]:
  "R a \<Longrightarrow> yields R (ret a)" "yields R (throw e)" "yields R (fault x)"
  by (auto simp: yields_def comp_run)

lemma yields_bind [yields_intros]: "(\<And>a. yields R (f a)) \<Longrightarrow> yields R (bind m f)"
  by (auto simp: yields_def dest!: bind_result)

lemma yields_then: "yields Q m \<Longrightarrow> (\<And>a. Q a \<Longrightarrow> yields R (f a)) \<Longrightarrow> yields R (bind m f)"
  by (fastforce simp: yields_def dest!: bind_result)

lemma yields_catch [yields_intros]: "yields R m \<Longrightarrow> R a \<Longrightarrow> yields R (catch_with m a)"
  by (auto simp: yields_def dest!: catch_with_result)

lemma yields_if [yields_intros]: "(b \<Longrightarrow> yields R m) \<Longrightarrow> (\<not> b \<Longrightarrow> yields R m') \<Longrightarrow> yields R (if b then m else m')"
  by simp

lemma yields_option [yields_intros]:
  "yields R m \<Longrightarrow> (\<And>y. yields R (f y)) \<Longrightarrow> yields R (case v of None \<Rightarrow> m | Some y \<Rightarrow> f y)"
  by (simp split: option.split)

lemma yields_info [yields_intros]:
  "(\<And>p. yields R (k p)) \<Longrightarrow> (\<And>e. yields R (l e)) \<Longrightarrow> (\<And>f. yields R (m f)) \<Longrightarrow>
   yields R (case fi of PROC p \<Rightarrow> k p | DIRECTORY e \<Rightarrow> l e | FILE f \<Rightarrow> m f)"
  by (simp split: file_info.split)

lemma yields_prod [yields_intros]: "(\<And>a b. yields R (f a b)) \<Longrightarrow> yields R (case p of (a, b) \<Rightarrow> f a b)"
  by (simp split: prod.split)

lemma yields_lifetime_body:
  assumes "yields Q body" "\<And>a ob. Q a \<Longrightarrow> yields R (k a ob)"
  shows "yields R (lifetime ctor body d k)"
  unfolding lifetime_def
  by (rule yields_bind) (use assms in \<open>fastforce simp: yields_def split: prod.splits outcome.splits\<close>)

lemma yields_lifetime [yields_intros]:
  "(\<And>a ob. yields R (k a ob)) \<Longrightarrow> yields R (lifetime ctor body d k)"
  by (rule yields_lifetime_body [where Q = "\<lambda>_. True"]) (simp_all add: yields_def)

lemma yields_local [yields_intros]: "yields R body \<Longrightarrow> yields R (local_object ctor d body)"
  by (fastforce simp: yields_def local_object_def lifetime_def dest!: bind_result
      split: prod.splits outcome.splits)

lemma yields_dtor [yields_intros]: "yields R m \<Longrightarrow> yields R (with_dtor m d)"
  by (fastforce simp: yields_def with_dtor_def split: prod.splits outcome.splits)

lemma yields_memcache [yields_intros]: "yields R m \<Longrightarrow> yields R (with_memcache m)"
  unfolding with_memcache_def by (intro yields_intros)

lemma yields_with_file: "yields R m \<Longrightarrow> yields R (with_file fh f m)"
  by (fastforce simp: yields_def with_file_def split: prod.splits)

section \<open>Answers\<close>

definition status :: "int set \<Rightarrow> int \<times> payload \<Rightarrow> bool" where
  "status ns rep \<longleftrightarrow> fst rep \<in> ns \<and> snd rep = Nothing"

text \<open>A handle goes with 0; with \<open>- EIO\<close> the field stays cleared.\<close>

definition opens :: "int set \<Rightarrow> int \<times> payload \<Rightarrow> bool" where
  "opens ns rep \<longleftrightarrow> (\<exists>fh. snd rep = Handle fh \<and> (fst rep \<in> ns \<or> fst rep = - EIO \<and> fh = 0))"

text \<open>
  A read answers the number of bytes that it delivers, never more than were asked for; a write
  takes the whole block. A link is ended by a NUL inside the buffer of its caller. Where a handle
  is not that of a file, a build without assertions answers 0.
\<close>

fun conforms :: "request \<Rightarrow> int \<times> payload \<Rightarrow> bool" where
  "conforms (Getattr p) rep = (status {- ENOENT, - EIO} rep \<or> fst rep = 0 \<and> (\<exists>st. snd rep = Attributes st))"
| "conforms (Mkdir p mode) rep = status {0, - EIO} rep"
| "conforms (Rmdir p) rep = status {0, - ENOENT, - ENOTEMPTY, - EIO} rep"
| "conforms (Opendir p) rep = (opens {0} rep \<or> rep = (- ENOENT, Handle 0))"
| "conforms (Readdir fh) rep = status {0, - EIO} rep"
| "conforms (Releasedir fh) rep = status {0, - EIO} rep"
| "conforms (Create p mode) rep = opens {0, - EEXIST} rep"
| "conforms (Unlink p) rep = status {0, - ENOENT, - EIO} rep"
| "conforms (Open p) rep = opens {0, - ENAMETOOLONG} rep"
| "conforms (Read fh sz off) rep = (rep = (- EIO, Content []) \<or>
     (\<exists>bs. snd rep = Content bs \<and> fst rep = c_int (int (length bs)) \<and> int (length bs) \<le> sz))"
| "conforms (Write fh data off) rep = status {c_int (int (length data)), 0, - EIO} rep"
| "conforms (Release p fh) rep = status {0, - EIO} rep"
| "conforms (Link old new) rep = status {0, - EEXIST, - EIO} rep"
| "conforms (Readlink p sz) rep = (status {- ENOENT, - EIO} rep \<or> fst rep = 0 \<and>
     (\<exists>t. snd rep = Target (t @ [CHR 0x00]) \<and> int (length t) < sz))"
| "conforms (Chmod p mode) rep = status {0, - ENOENT, - EIO} rep"
| "conforms (Chown p uid gid) rep = status {0, - ENOENT, - EIO} rep"
| "conforms (Truncate p off) rep = status {0, - ENOENT, - EIO} rep"
| "conforms (Utimens p time) rep = status {0, - ENOENT, - EIO} rep"

lemma yields_no_payload: "yields (\<lambda>n. n \<in> ns) m \<Longrightarrow> yields (status ns) (no_payload m)"
  unfolding no_payload_def by (erule yields_then) (simp add: status_def yields_intros)

lemma yields_optional:
  assumes "yields (\<lambda>(n, v). case v of None \<Rightarrow> n \<in> ns | Some y \<Rightarrow> R (n, pl y)) m"
  shows "yields (\<lambda>rep. status ns rep \<or> R rep) (optional pl m)"
  unfolding optional_def
  by (rule yields_then [OF assms]) (auto simp: status_def yields_def comp_run split: option.splits)

lemma yields_opened:
  assumes "yields (\<lambda>(n, fh). n \<in> ns \<or> n = - EIO \<and> fh = 0) m"
  shows "yields (opens ns) (bind m (\<lambda>(n, fh). ret (n, Handle fh)))"
  by (rule yields_then [OF assms]) (auto simp: opens_def yields_def comp_run)

lemma write_yields: "yields (\<lambda>n. n = int (length data)) (file_write E data off)"
  unfolding file_write_def Let_def by (intro yields_intros refl)

lemma link_end:
  "n < sz \<Longrightarrow> 0 \<le> n \<Longrightarrow> \<exists>u. take (nat n) (c @ [CHR 0x00]) @ [CHR 0x00] = u @ [CHR 0x00] \<and> int (length u) < sz"
  by (intro exI [of _ "take (nat n) (c @ [CHR 0x00])"]) simp

lemma symlink_yields: "yields (\<lambda>t. \<exists>u. t = u @ [CHR 0x00] \<and> int (length u) < sz) (symlink_read E sz)"
  unfolding symlink_read_def Let_def by (intro yields_intros link_end) (auto simp: c_size_t_range)

text \<open>Every request but a read, whatever the state.\<close>

lemma serve_conforms:
  assumes "\<And>fh sz off. req \<noteq> Read fh sz off"
  shows "yields (conforms req) (serve E filler req)"
proof (cases req)
  case (Write fh data off)
  have w: "yields (\<lambda>n. n \<in> {c_int (int (length data)), 0, - EIO}) (gridfs_write E data off fh)"
    unfolding gridfs_write_def
    by (intro yields_intros yields_then [OF yields_with_file [OF write_yields]]) simp_all
  from yields_no_payload [OF w] show ?thesis by (simp add: serve_def Write conforms.simps(11) [abs_def])
next
  case (Readlink p sz)
  have "yields (\<lambda>(n, v). case v of None \<Rightarrow> n \<in> {- ENOENT, - EIO}
      | Some y \<Rightarrow> fst (n, Target y) = 0 \<and> (\<exists>t. snd (n, Target y) = Target (t @ [CHR 0x00]) \<and> int (length t) < sz))
      (gridfs_readlink E p sz)"
    unfolding gridfs_readlink_def Let_def
    by (intro yields_intros yields_then [OF symlink_yields [of sz]]) auto
  from yields_optional [where pl = Target, OF this] show ?thesis
    by (simp add: serve_def Readlink conforms.simps(14) [abs_def])
next
  case (Getattr p)
  have "yields (\<lambda>(n, v). case v of None \<Rightarrow> n \<in> {- ENOENT, - EIO}
      | Some y \<Rightarrow> fst (n, Attributes y) = 0 \<and> (\<exists>st. snd (n, Attributes y) = Attributes st)) (gridfs_getattr E p zero_stat)"
    unfolding gridfs_getattr_def Let_def by (intro yields_intros) auto
  from yields_optional [where pl = Attributes, OF this] show ?thesis
    by (simp add: serve_def Getattr conforms.simps(1) [abs_def])
next
  case (Opendir p)
  have "yields (\<lambda>(n, fh). n = 0 \<or> (n = - EIO \<or> n = - ENOENT) \<and> fh = 0) (gridfs_opendir E p 0)"
    unfolding gridfs_opendir_def Let_def by (intro yields_intros) auto
  then show ?thesis
    unfolding Opendir serve_def request.case
    by (rule yields_then) (auto simp: opens_def yields_def comp_run)
next
  case (Create p mode)
  have "yields (\<lambda>(n, fh). n \<in> {0, - EEXIST} \<or> n = - EIO \<and> fh = 0) (gridfs_create E p mode)"
    unfolding gridfs_create_def Let_def
    by (intro yields_intros yields_lifetime_body [where Q = "\<lambda>n. n \<in> {0, - EEXIST}"]) auto
  from yields_opened [OF this] show ?thesis by (simp add: serve_def Create conforms.simps(7) [abs_def])
next
  case (Open p)
  have "yields (\<lambda>(n, fh). n \<in> {0, - ENAMETOOLONG} \<or> n = - EIO \<and> fh = 0) (gridfs_open E p 0)"
    unfolding gridfs_open_def Let_def by (intro yields_intros) auto
  from yields_opened [OF this] show ?thesis by (simp add: serve_def Open conforms.simps(9) [abs_def])
qed (use assms in \<open>auto simp: serve_def gridfs_mkdir_def gridfs_rmdir_def gridfs_readdir_def gridfs_releasedir_def
    gridfs_unlink_def gridfs_release_def gridfs_symlink_def gridfs_chmod_def gridfs_chown_def
    gridfs_truncate_def gridfs_utimens_def Let_def conforms.simps [abs_def] intro!: yields_no_payload yields_intros\<close>)

section \<open>Typed objects\<close>

definition table_typed :: "('w, 'x) fuse_state_scheme \<Rightarrow> bool" where
  "table_typed s \<longleftrightarrow> (\<forall>a f. objects s a = Some (FILE f) \<longrightarrow> file_typed f)"

definition table_valid :: "'w env \<Rightarrow> ('w, 'x) fuse_state_scheme \<Rightarrow> bool" where
  "table_valid E s \<longleftrightarrow> (\<forall>a f. objects s a = Some (FILE f) \<longrightarrow> file_valid E f)"

lemma table_valid_typed: "table_valid E s \<Longrightarrow> table_typed s"
  by (auto simp: table_valid_def table_typed_def file_valid_def)

lemma valid_gridfile: "keeps (about (file_valid E)) (gridfile E)"
  by (rule keeps_valid [OF typed_gridfile unlost_gridfile])

fun info_valid :: "'w env \<Rightarrow> file_info \<Rightarrow> bool" where
  "info_valid E (FILE f) = file_valid E f"
| "info_valid E fi = True"

lemma table_validD: "table_valid E s \<Longrightarrow> objects s fh = Some fi \<Longrightarrow> info_valid E fi"
  by (cases fi) (auto simp: table_valid_def)

lemma typed_put: "table_valid E s \<Longrightarrow> info_valid E fi \<Longrightarrow> table_valid E (s\<lparr>objects := (objects s)(a \<mapsto> fi)\<rparr>)"
  by (auto simp: table_valid_def split: if_splits)

lemma typed_publish: "info_valid E fi \<Longrightarrow> keeps (table_valid E) (release_handle fi)"
  by (auto simp: keeps_def moves_def release_handle_def table_valid_def split: if_splits)

lemma typed_destroy: "table_valid E s \<Longrightarrow> table_valid E (destroy_handle fh s)"
  by (auto simp: destroy_handle_def table_valid_def split: option.split if_splits)

interpretation typed: stack_frame "\<lambda>_ _. table_valid E" for E
  by unfold_locales (simp_all add: table_valid_def take_connection_def drop_connection_def
      memcache_acquire_def memcache_release_def)

lemma typed_world: "world_free (table_valid E)"
  by (simp add: world_free_def typed.world)

text \<open>An object that a constructor made and member functions changed is published.\<close>

lemma typed_lifetime:
  fixes body :: "('o \<times> ('w, 'x) fuse_state_scheme, 'a) comp"
  assumes ctor: "keeps (table_valid E) ctor" "yields Q ctor"
    and body: "keeps (away (table_valid E)) body" "keeps (about Q) body"
    and k: "\<And>a ob. Q ob \<Longrightarrow> keeps (table_valid E) (k a ob)"
    and d: "\<And>s. table_valid E s \<Longrightarrow> table_valid E (d s)"
  shows "keeps (table_valid E) (lifetime ctor body d k)"
  unfolding lifetime_def
proof (rule keepsI)
  let ?rest = "\<lambda>ob s. case body (ob, s) of (Ret a, ob', s') \<Rightarrow> k a ob' s' | (Throw e, ob', s') \<Rightarrow> (Throw e, d s')
      | (Fault x, ob', s') \<Rightarrow> (Fault x, s') | (Exit n, ob', s') \<Rightarrow> (Exit n, s')"
  fix s r s' assume s: "table_valid E s" and run: "bind ctor ?rest s = (r, s')" and g: "goes_on r"
  from run g show "table_valid E s'"
  proof (rule bind_goes_on)
    fix q t assume c: "ctor s = (q, t)" "goes_on q"
      and ret: "\<And>ob. q = Ret ob \<Longrightarrow> ?rest ob t = (r, s')" and thr: "\<And>e. q = Throw e \<Longrightarrow> s' = t"
    have t: "table_valid E t" using keepsD [OF ctor(1) s c] .
    show "table_valid E s'"
    proof (cases q)
      case (Ret ob)
      then have ob: "Q ob" using yieldsD [OF ctor(2)] c(1) by simp
      obtain q2 ob2 t2 where b: "body (ob, t) = (q2, (ob2, t2))" by (cases "body (ob, t)") auto
      have t2: "table_valid E t2 \<and> Q ob2" if "goes_on q2"
        using keepsD [OF body(1) _ b that] keepsD [OF body(2) _ b that] t ob by simp
      from ret [OF Ret] b g t2 d show ?thesis
        by (cases q2) (auto dest: keepsD [OF k])
    qed (use c thr t in auto)
  qed
qed

lemma typed_release:
  "info_valid E fi \<Longrightarrow> keeps (table_valid E) (bind (release_handle fi) (\<lambda>fh. ret (g fh)))"
  by (intro keeps_bind typed_publish keeps_ret)

lemma typed_new:
  "keeps (table_valid E) (new_entry E p)" "keeps (table_valid E) (new_file E p)"
  using typed.new_entry_constructs [of E E p] typed.new_file_constructs [of E E p]
  unfolding constructs_def keeps_def moves_def by (metis goes_on.elims(2))+

lemma new_file_typed: "yields (file_valid E) (new_file E p)"
  unfolding new_file_def by (intro yields_intros file_of_entry_valid)

lemma typed_entry_calls:
  "keeps (about (file_valid E)) (entry_exists E)" "keeps (about (file_valid E)) (entry_create E mode uid gid content)"
  unfolding entry_exists_def entry_create_def force_reload_def
  by (intro about_intros valid_gridfile about_set; simp add: file_valid_def file_typed_def unlost_def)+

lemma typed_opening:
  "keeps (table_valid E) (gridfs_opendir E p fh)" "keeps (table_valid E) (gridfs_open E p fh)"
  "keeps (table_valid E) (gridfs_create E p mode)"
proof -
  note w = typed_world
  show "keeps (table_valid E) (gridfs_opendir E p fh)"
    unfolding gridfs_opendir_def Let_def
    by (intro keeps_catch keeps_if typed_release typed_lifetime [where Q = "\<lambda>_. True"] typed_new
        keeps_entry_exists w keeps_bind keeps_modify keeps_ret)
      (auto simp: typed.drop keeps_def moves_def yields_def)
  show "keeps (table_valid E) (gridfs_open E p fh)"
    unfolding gridfs_open_def Let_def
    by (intro keeps_catch keeps_if typed_release keeps_bind keeps_proc_create keeps_assert w
        typed_lifetime [where Q = "file_valid E"] typed_new new_file_typed keeps_entry_exists typed_entry_calls)
      (auto simp: typed.drop)
  show "keeps (table_valid E) (gridfs_create E p mode)"
    unfolding gridfs_create_def Let_def
    by (intro keeps_catch keeps_if typed_release keeps_bind keeps_proc_create keeps_ret w
        typed_lifetime [where Q = "file_valid E"] typed_new new_file_typed keeps_entry_exists
        keeps_entry_create typed_entry_calls)
      (auto simp: typed.drop)
qed

text \<open>A member function on the object behind a handle.\<close>

lemma typed_with_file:
  fixes m :: "(file_obj \<times> ('w, 'x) fuse_state_scheme, 'a) comp"
  assumes m: "keeps (about (file_valid E)) m" "keeps (away (table_valid E)) m" and f: "file_valid E f"
  shows "keeps (table_valid E) (with_file fh f m)"
proof (rule keepsI)
  fix s r s' assume s: "table_valid E s" and run: "with_file fh f m s = (r, s')" and g: "goes_on r"
  obtain f' t where t: "m (f, s) = (r, (f', t))" "s' = t\<lparr>objects := (objects t)(fh \<mapsto> FILE f')\<rparr>"
    using run by (auto simp: with_file_def split: prod.splits)
  have "file_valid E f'" "table_valid E t"
    using keepsD [OF m(1) _ t(1) g] keepsD [OF m(2) _ t(1) g] f s by simp_all
  then show "table_valid E s'" unfolding t(2) by (intro typed_put) simp_all
qed

lemma typed_with_directory:
  assumes "keeps (away (table_valid E)) m"
  shows "keeps (table_valid E) (with_directory fh e m)"
proof (rule keepsI)
  fix s r s' assume s: "table_valid E s" and run: "with_directory fh e m s = (r, s')" and g: "goes_on r"
  obtain e' t where t: "m (e, s) = (r, (e', t))" "s' = t\<lparr>objects := (objects t)(fh \<mapsto> DIRECTORY e')\<rparr>"
    using run by (auto simp: with_directory_def split: prod.splits)
  have "table_valid E t" using keepsD [OF assms _ t(1) g] s by simp
  then show "table_valid E s'" unfolding t(2) by (intro typed_put) simp_all
qed

lemma typed_deref:
  assumes "\<And>fi. info_valid E fi \<Longrightarrow> keeps (table_valid E) (k fi)"
  shows "keeps (table_valid E) (bind (deref fh) k)"
proof (rule deref_then)
  fix s r s' fi assume s: "table_valid E s" "objects s fh = Some fi" and run: "k fi s = (r, s')" "goes_on r"
  show "table_valid E s'" by (rule keepsD [OF assms [OF table_validD [OF s]] s(1) run])
qed

lemma typed_readdir: "keeps (table_valid E) (gridfs_readdir E filler fh)"
  unfolding gridfs_readdir_def
proof (intro keeps_catch typed_deref)
  fix fi
  have "keeps (table_valid E) (case fi of PROC lProc \<Rightarrow> proc_list E filler lProc
      | DIRECTORY lDir \<Rightarrow> with_directory fh lDir (directory_list E filler)
      | FILE _ \<Rightarrow> assert_that (ndebug E) (ret False))"
    by (cases fi) (auto intro!: keeps_proc_list typed_with_directory keeps_directory_list keeps_assert keeps_ret typed_world)
  then show "keeps (table_valid E) (bind (case fi of PROC lProc \<Rightarrow> proc_list E filler lProc
      | DIRECTORY lDir \<Rightarrow> with_directory fh lDir (directory_list E filler)
      | FILE _ \<Rightarrow> assert_that (ndebug E) (ret False)) (\<lambda>_. ret (0::int)))"
    by (intro keeps_bind keeps_ret)
qed

lemma typed_file_callbacks:
  shows "0 \<le> mongo_chunk_size (config E) \<Longrightarrow> mongo_chunk_size (config E) < 2 ^ 32 \<Longrightarrow> 0 \<le> off \<Longrightarrow>
      off + int (length data) < 2 ^ 63 \<Longrightarrow> keeps (table_valid E) (gridfs_write E data off fh)"
    and "keeps (table_valid E) (gridfs_read E sz off fh)"
    and "keeps (table_valid E) (gridfs_release E p fh)"
    and "keeps (table_valid E) (gridfs_releasedir E fh)"
proof -
  note w = typed_world
  assume a: "0 \<le> mongo_chunk_size (config E)" "mongo_chunk_size (config E) < 2 ^ 32" "0 \<le> off"
    "off + int (length data) < 2 ^ 63"
  show "keeps (table_valid E) (gridfs_write E data off fh)"
    unfolding gridfs_write_def
    by (intro keeps_bind keeps_assert keeps_ret keeps_catch typed_deref)
      (auto split: file_info.split intro!: keeps_bind keeps_assert keeps_ret typed_with_file
        write_keeps_valid keeps_file_write w a)
next
  show "keeps (table_valid E) (gridfs_read E sz off fh)"
    unfolding gridfs_read_def
    by (intro keeps_bind keeps_assert keeps_ret keeps_catch typed_deref)
      (auto split: file_info.split intro!: keeps_bind keeps_assert keeps_ret typed_with_file
        read_keeps_valid keeps_file_read typed_world)
  show "keeps (table_valid E) (gridfs_release E p fh)"
    unfolding gridfs_release_def Let_def
    by (intro keeps_with_dtor keeps_catch typed_deref typed_destroy)
      (auto split: file_info.split intro!: keeps_bind keeps_ret typed_with_file
        store_keeps_valid keeps_file_store typed.forget_path_keeps typed_world)
  show "keeps (table_valid E) (gridfs_releasedir E fh)"
    unfolding gridfs_releasedir_def
    by (intro keeps_catch keeps_bind keeps_ret)
      (auto simp: keeps_def moves_def delete_handle_def typed_destroy split: option.splits if_splits)
qed

section \<open>Sequences of requests\<close>

text \<open>The kernel sends positions and lengths of the type \<open>off_t\<close> that do not overflow.\<close>

fun sane :: "request \<Rightarrow> bool" where
  "sane (Read fh sz off) = (0 \<le> off \<and> 0 \<le> sz \<and> off + sz < 2 ^ 63)"
| "sane (Write fh data off) = (0 \<le> off \<and> off + int (length data) < 2 ^ 63)"
| "sane req = True"

abbreviation serve_all ::
  "'w env \<Rightarrow> (string \<Rightarrow> 'w \<Rightarrow> 'w) \<Rightarrow> request list \<Rightarrow> ('w, 'x, (int \<times> payload) list) callback" where
  "serve_all E filler \<equiv> perform_all (serve E filler)"

lemma serve_typed:
  assumes "0 \<le> mongo_chunk_size (config E)" "mongo_chunk_size (config E) < 2 ^ 32" "sane req"
  shows "keeps (table_valid E) (serve E filler req)"
  by (cases req; use assms in \<open>simp add: serve_def\<close>)
    (intro keeps_no_payload keeps_optional keeps_pair
      typed.getattr_keeps typed.mkdir_keeps typed.rmdir_keeps typed_opening typed_readdir
      typed.unlink_keeps typed.symlink_keeps typed.readlink_keeps typed_file_callbacks
      typed.chmod_keeps typed.chown_keeps typed.truncate_keeps typed.utimens_keeps | assumption | simp)+

lemma assert_ret_result: "assert_that nd (ret b) s = (Ret u, t) \<Longrightarrow> t = s"
  by (auto simp: assert_that_def comp_simps split: if_splits)

lemma serve_read_conforms:
  assumes "table_valid E s" "sane (Read fh sz off)" "serve E filler (Read fh sz off) s = (Ret rep, s')"
  shows "conforms (Read fh sz off) rep"
proof -
  obtain n bs where rep: "rep = (n, Content bs)" and run: "gridfs_read E sz off fh s = (Ret (n, bs), s')"
    using assms(3) by (auto simp: serve_def ret_def dest!: bind_result)
  show ?thesis
  proof (cases "(n, bs) = (- EIO, [])")
    case False
    then obtain fi where fi: "objects s fh = Some fi"
      and k: "(case fi of FILE lFile \<Rightarrow> bind (with_file fh lFile (file_read E sz off)) (\<lambda>(n, bs). ret (c_int n, bs))
          | _ \<Rightarrow> bind (assert_that (ndebug E) (ret False)) (\<lambda>_. ret (0, []))) s = (Ret (n, bs), s')"
      using run unfolding gridfs_read_def
      by (auto simp: deref_Ret dest!: bind_result catch_with_result assert_ret_result)
    show ?thesis
    proof (cases fi)
      case (FILE f)
      then obtain k x where "file_read E sz off (f, s) = (Ret (k, bs), x)" "n = c_int k"
        using k by (auto simp: with_file_def ret_def dest!: bind_result split: prod.splits)
      moreover have "file_typed f" using table_validD [OF assms(1) fi] FILE by (simp add: file_validD)
      ultimately show ?thesis using read_room [of E sz off f s k bs x] assms(2) rep by auto
    qed (use k rep assms(2) in \<open>auto simp: ret_def c_int_def dest!: bind_result\<close>)
  qed (use rep in simp)
qed

lemma serve_all_typed:
  assumes cs: "0 \<le> mongo_chunk_size (config E)" "mongo_chunk_size (config E) < 2 ^ 32"
  shows "table_valid E s \<Longrightarrow> \<forall>req \<in> set reqs. sane req \<Longrightarrow> serve_all E filler reqs s = (Ret reps, s') \<Longrightarrow>
    list_all2 conforms reqs reps \<and> table_valid E s'"
proof (induction reqs arbitrary: s reps)
  case Nil
  then show ?case by (simp add: comp_simps)
next
  case (Cons req reqs)
  obtain rep reps' t where t: "serve E filler req s = (Ret rep, t)"
    "serve_all E filler reqs t = (Ret reps', s')" "reps = rep # reps'"
    using Cons.prems(3) by (auto simp: ret_def dest!: bind_result)
  have "table_valid E t" using keepsD [OF serve_typed [OF cs] Cons.prems(1) t(1)] Cons.prems(2) by simp
  moreover have "conforms req rep"
  proof (cases "\<exists>fh sz off. req = Read fh sz off")
    case True
    then obtain fh sz off where r: "req = Read fh sz off" by blast
    show ?thesis
      unfolding r by (rule serve_read_conforms [OF Cons.prems(1) _ t(1) [unfolded r]]) (use Cons.prems(2) r in simp)
  next
    case False
    then show ?thesis using yieldsD [OF serve_conforms t(1)] by blast
  qed
  ultimately show ?case using Cons.IH [OF _ _ t(2)] Cons.prems(2) t(3) by simp
qed

text \<open>No write and no release leaves the memory of its file, and none follows a bad pointer unless the
  kernel may refuse to extend mapped memory.\<close>

lemma write_never:
  fixes s :: "('w, 'x) fuse_state_scheme"
  assumes "\<And>f r x. file_write E data off (f, s) = (r, x) \<Longrightarrow> objects s fh = Some (FILE f) \<Longrightarrow> r \<noteq> Fault z"
    and "z \<in> {OutOfBounds, BadPointer}"
  shows "fst (serve E filler (Write fh data off) s) \<noteq> Fault z"
  using assms
  by (auto simp: serve_def no_payload_def gridfs_write_def bind_def assert_that_def comp_run deref_def
      catch_with_def with_file_def split: prod.splits outcome.splits option.splits file_info.splits)

lemma release_never:
  fixes s :: "('w, 'x) fuse_state_scheme"
  assumes st: "\<And>f r x. file_store E (f, s) = (r, x) \<Longrightarrow> objects s fh = Some (FILE f) \<Longrightarrow> r \<noteq> Fault z"
    and z: "z \<in> {OutOfBounds, BadPointer}"
  shows "fst (serve E filler (Release p fh) s) \<noteq> Fault z"
proof -
  have "forget_path E q u \<noteq> (Fault z, t)" for q t and u :: "('w, 'x) fuse_state_scheme"
  proof -
    have "never z (forget_path E q)"
      unfolding forget_path_def with_memcache_def memcache_remove_def by (intro never_intros)
    then show ?thesis by (metis fst_conv never_def)
  qed
  moreover have "file_store E (f, s) \<noteq> (Fault z, x)" if "objects s fh = Some (FILE f)" for f x
    using st that by blast
  ultimately show ?thesis
    using z
    by (auto simp: serve_def no_payload_def gridfs_release_def Let_def bind_def comp_run deref_def
        catch_with_def with_dtor_def with_file_def split: prod.splits outcome.splits option.splits file_info.splits if_splits)
qed

lemma buffers_typed:
  fixes s :: "('w, 'x) fuse_state_scheme"
  assumes cs: "0 \<le> mongo_chunk_size (config E)" "mongo_chunk_size (config E) < 2 ^ 32"
    and s: "table_valid E s" "sane req" and req: "req = Write fh data off \<or> req = Release p fh"
    and z: "z = OutOfBounds \<or> z = BadPointer \<and> grows E"
  shows "fst (serve E filler req s) \<noteq> Fault z"
proof -
  have f: "file_valid E f" if "objects s fh = Some (FILE f)" for f
    using table_validD [OF s(1) that] by simp
  have st: "r \<noteq> Fault z" if "file_store E (f, s) = (r, x)" "objects s fh = Some (FILE f)" for f r x
    using store_typed [of E f s r] that f [OF that(2)] z by (cases x) auto
  from req show ?thesis
  proof
    assume r: "req = Write fh data off"
    have "r \<noteq> Fault z" if "file_write E data off (f, s) = (r, x)" "objects s fh = Some (FILE f)" for f r x
      using write_typed [OF _ _ cs, of data off f s r] that f [OF that(2)] s(2) r z
      by (cases x) (auto simp: file_valid_def)
    then show ?thesis unfolding r by (rule write_never) (use z in auto)
  next
    assume r: "req = Release p fh"
    show ?thesis unfolding r by (rule release_never [OF st]) (use z in auto)
  qed
qed

end
