(* ===== verification/Session_Objects.thy ===== *)
theory Session_Objects
  imports Answers
begin

text \<open>
  Which objects the process holds in a session: those behind the handles that the kernel has, and
  those behind handles that were handed out with an error, which the kernel does not keep and never
  releases. The locales of theory Resources are interpreted on the domain of the table of objects.
\<close>

section \<open>The domain of the table\<close>

definition table_of :: "nat set \<Rightarrow> ('w, 'x) fuse_state_scheme \<Rightarrow> bool" where
  "table_of D s \<longleftrightarrow> table_ok s \<and> dom (objects s) = D"

definition table_but :: "nat \<Rightarrow> nat set \<Rightarrow> ('w, 'x) fuse_state_scheme \<Rightarrow> bool" where
  "table_but h D s \<longleftrightarrow> table_ok s \<and> dom (objects s) - {h} = D"

lemma same_table [simp]:
  "table_ok (s\<lparr>world := w\<rparr>) = table_ok s" "table_ok (take_connection s) = table_ok s"
  "table_ok (drop_connection s) = table_ok s" "table_ok (memcache_acquire s) = table_ok s"
  "table_ok (memcache_release s) = table_ok s"
  "objects (take_connection s) = objects s" "objects (drop_connection s) = objects s"
  "objects (memcache_acquire s) = objects s" "objects (memcache_release s) = objects s"
  by (simp_all add: table_ok_def take_connection_def drop_connection_def memcache_acquire_def
      memcache_release_def)

lemma table_ok_put: "table_ok s \<Longrightarrow> objects s a = Some u \<Longrightarrow> table_ok (s\<lparr>objects := (objects s)(a \<mapsto> v)\<rparr>)"
  by (auto simp: table_ok_def)

lemma table_ok_destroy: "table_ok s \<Longrightarrow> table_ok (destroy_handle h s)"
  by (auto simp: table_ok_def destroy_handle_def split: option.splits)

lemma dom_destroy: "dom (objects (destroy_handle h s)) = dom (objects s) - {h}"
  by (auto simp: destroy_handle_def split: option.splits)

interpretation table: handle_frame "\<lambda>_ _. table_of D" "\<lambda>_. True" for D
  by unfold_locales (auto simp: table_of_def table_ok_put)

interpretation but_one: closing_frame "\<lambda>_ _. table_but h D" "\<lambda>_. True" h for h D
  by unfold_locales (auto simp: table_but_def table_ok_put table_ok_destroy dom_destroy)

lemma table_world: "world_free (table_of D)"
  by (simp add: world_free_def table.world)

fun gives_handle :: "request \<Rightarrow> bool" where
  "gives_handle (Create p mode) = True"
| "gives_handle (Open p) = True"
| "gives_handle (Opendir p) = True"
| "gives_handle req = False"

fun takes_handle :: "request \<Rightarrow> bool" where
  "takes_handle (Release p fh) = True"
| "takes_handle (Releasedir fh) = True"
| "takes_handle req = False"

lemma serve_table:
  assumes "\<not> gives_handle req" "\<not> takes_handle req"
  shows "keeps (table_of D) (serve E filler req)"
  by (cases req; use assms in \<open>simp add: serve_def\<close>)
    (intro keeps_no_payload keeps_optional keeps_pair
      table.getattr_keeps table.mkdir_keeps table.rmdir_keeps table.readdir_keeps [OF TrueI]
      table.unlink_keeps table.read_keeps [OF TrueI] table.write_keeps [OF TrueI] table.symlink_keeps
      table.readlink_keeps table.chmod_keeps table.chown_keeps table.truncate_keeps table.utimens_keeps)+

section \<open>Opening\<close>

text \<open>
  A computation that hands out a handle: a null one and the table is as it was, or the address of one
  new object. When it throws the table is as it was.
\<close>

definition hands_out :: "nat set \<Rightarrow> (('w, 'x) fuse_state_scheme, int \<times> nat) comp \<Rightarrow> bool" where
  "hands_out D m \<longleftrightarrow> (\<forall>s r s'. table_of D s \<longrightarrow> m s = (r, s') \<longrightarrow>
     (\<forall>n fh. r = Ret (n, fh) \<longrightarrow> fh \<notin> D \<and> table_of (if fh = 0 then D else insert fh D) s') \<and>
     (\<forall>e. r = Throw e \<longrightarrow> table_of D s'))"

lemma table_of_null: "table_of D s \<Longrightarrow> 0 \<notin> D"
  using table_ok_null [of s] by (auto simp: table_of_def)

lemma hands_out_null: "hands_out D (ret (n, 0))"
  using table_of_null by (auto simp: hands_out_def ret_def)

lemma hands_out_if: "hands_out D m \<Longrightarrow> hands_out D m' \<Longrightarrow> hands_out D (if b then m else m')"
  by simp

lemma hands_out_catch: "hands_out D m \<Longrightarrow> hands_out D (catch_with m (n, 0))"
  using table_of_null by (fastforce simp: hands_out_def catch_with_def split: prod.splits outcome.splits)

lemma table_of_publish:
  assumes "table_of D s" "release_handle fi s = (Ret fh, s')"
  shows "fh \<noteq> 0" "fh \<notin> D" "table_of (insert fh D) s'"
  using assms by (auto simp: table_of_def table_ok_def release_handle_def less_Suc_eq split: if_splits)

lemma hands_out_object: "hands_out D (bind (release_handle fi) (\<lambda>fh. ret (n, fh)))"
  unfolding hands_out_def
proof (intro allI impI)
  fix s :: "('a, 'b) fuse_state_scheme" and r s'
  assume s: "table_of D s" and run: "bind (release_handle fi) (\<lambda>fh. ret (n, fh)) s = (r, s')"
  obtain fh t where o: "release_handle fi s = (Ret fh, t)" by (simp add: release_handle_def)
  with run have "r = Ret (n, fh)" "s' = t" by (simp_all add: bind_def ret_def)
  with table_of_publish [OF s o]
  show "(\<forall>m fh. r = Ret (m, fh) \<longrightarrow> fh \<notin> D \<and> table_of (if fh = 0 then D else insert fh D) s') \<and>
      (\<forall>e. r = Throw e \<longrightarrow> table_of D s')" by simp
qed

lemma hands_out_after:
  assumes "keeps (table_of D) m" "\<And>x. hands_out D (f x)"
  shows "hands_out D (bind m f)"
  unfolding hands_out_def
proof (intro allI impI)
  fix s r s' assume s: "table_of D s" and run: "bind m f s = (r, s')"
  obtain q t where q: "m s = (q, t)" by (cases "m s")
  show "(\<forall>n fh. r = Ret (n, fh) \<longrightarrow> fh \<notin> D \<and> table_of (if fh = 0 then D else insert fh D) s') \<and>
      (\<forall>e. r = Throw e \<longrightarrow> table_of D s')"
  proof (cases q)
    case (Ret x)
    then have "table_of D t" using keepsD [OF assms(1) s q] by simp
    moreover have "f x t = (r, s')" using run q Ret by (simp add: bind_def)
    ultimately show ?thesis using assms(2) [of x] unfolding hands_out_def by blast
  next
    case (Throw e)
    then show ?thesis using keepsD [OF assms(1) s q] run q by (auto simp: bind_def)
  qed (use run q in \<open>auto simp: bind_def\<close>)
qed

lemma hands_out_lifetime:
  assumes "keeps (table_of D) ctor" "keeps (away (table_of D)) body" "\<And>a ob. hands_out D (k a ob)"
  shows "hands_out D (lifetime ctor body drop_connection k)"
  unfolding lifetime_def
proof (rule hands_out_after [OF assms(1)])
  fix ob
  show "hands_out D (\<lambda>s. case body (ob, s) of (Ret a, ob', s') \<Rightarrow> k a ob' s'
      | (Throw e, ob', s') \<Rightarrow> (Throw e, drop_connection s')
      | (Fault x, ob', s') \<Rightarrow> (Fault x, s') | (Exit n, ob', s') \<Rightarrow> (Exit n, s'))"
    unfolding hands_out_def
  proof (intro allI impI)
    fix s r s' assume s: "table_of D s" and run: "(case body (ob, s) of (Ret a, ob', s') \<Rightarrow> k a ob' s'
      | (Throw e, ob', s') \<Rightarrow> (Throw e, drop_connection s')
      | (Fault x, ob', s') \<Rightarrow> (Fault x, s') | (Exit n, ob', s') \<Rightarrow> (Exit n, s')) = (r, s')"
    obtain q ob1 t where b: "body (ob, s) = (q, ob1, t)" by (cases "body (ob, s)") auto
    have t: "table_of D t" if "goes_on q" using keepsD [OF assms(2) _ b that] s by simp
    show "(\<forall>n fh. r = Ret (n, fh) \<longrightarrow> fh \<notin> D \<and> table_of (if fh = 0 then D else insert fh D) s') \<and>
        (\<forall>e. r = Throw e \<longrightarrow> table_of D s')"
    proof (cases q)
      case (Ret a)
      then show ?thesis using run b t assms(3) [of a ob1] unfolding hands_out_def by simp
    next
      case (Throw e)
      then show ?thesis using run b t by (auto simp: table.drop)
    qed (use run b in auto)
  qed
qed

lemma table_new:
  "keeps (table_of D) (new_entry E p)" "keeps (table_of D) (new_file E p)"
  using table.new_entry_constructs [of D E p] table.new_file_constructs [of D E p]
  unfolding constructs_def keeps_def moves_def by (metis goes_on.elims(2))+

lemma opening_hands_out:
  "hands_out D (gridfs_open E p 0)" "hands_out D (gridfs_create E p mode)" "hands_out D (gridfs_opendir E p 0)"
  unfolding gridfs_open_def gridfs_create_def gridfs_opendir_def Let_def
  by (intro hands_out_catch hands_out_if hands_out_lifetime hands_out_after hands_out_object hands_out_null
      table_new keeps_intros table_world keeps_assert; simp add: keeps_def moves_def table.drop modify_def)+

lemma serve_opens:
  fixes s :: "('w, 'x) fuse_state_scheme"
  assumes "table_of D s" "gives_handle req" "serve E filler req s = (Ret rep, s')"
  obtains n fh where "rep = (n, Handle fh)" "fh \<notin> D" "table_of (if fh = 0 then D else insert fh D) s'"
proof -
  have "\<exists>m n fh. hands_out D m \<and> m s = (Ret (n, fh), s') \<and> rep = (n, Handle fh)"
  proof -
    from assms(2) obtain m :: "(('w, 'x) fuse_state_scheme, int \<times> nat) comp" where m: "hands_out D m" "serve E filler req = bind m (\<lambda>(n, fh). ret (n, Handle fh))"
      by (cases req) (auto simp: serve_def intro: opening_hands_out that)
    with assms(3) obtain a t where "m s = (Ret a, t)" "(case a of (n, fh) \<Rightarrow> ret (n, Handle fh)) t = (Ret rep, s')"
      by (auto dest!: bind_result)
    with m(1) show ?thesis by (cases a) (auto simp: ret_def intro!: exI [of _ m])
  qed
  then show thesis using that assms(1) unfolding hands_out_def by blast
qed

section \<open>Closing\<close>

lemma with_dtor_end: "with_dtor m d s = (Ret a, s') \<Longrightarrow> \<exists>t. s' = d t"
  by (auto simp: with_dtor_def split: prod.splits outcome.splits)

lemma release_destroys: "gridfs_release E p fh s = (Ret n, s') \<Longrightarrow> \<exists>t. s' = destroy_handle fh t"
  unfolding gridfs_release_def Let_def by (rule with_dtor_end)

lemma serve_closes:
  assumes s: "table_of D s" and req: "req = Release p fh \<or> req = Releasedir fh"
    and run: "serve E filler req s = (Ret rep, s')"
  shows "table_of (D - {fh}) s'"
proof -
  have "keeps (table_but fh (D - {fh})) (serve E filler req)"
    using req by (auto simp: serve_def intro!: keeps_no_payload but_one.release_keeps but_one.releasedir_keeps)
  from keepsD [OF this _ run] s have b: "table_but fh (D - {fh}) s'" by (simp add: table_of_def table_but_def)
  moreover have "objects s' fh = None"
    using req
  proof
    assume r: "req = Release p fh"
    then obtain n where "gridfs_release E p fh s = (Ret n, s')"
      using run by (auto simp: serve_def no_payload_def ret_def dest!: bind_result)
    then obtain t where "s' = destroy_handle fh t" using release_destroys by blast
    then show ?thesis using dom_destroy [of fh t] by (auto simp: dom_def)
  next
    assume r: "req = Releasedir fh"
    then obtain n where "catch_with (bind (delete_handle fh) (\<lambda>_. ret (0::int))) (- EIO) s = (Ret n, s')"
      using run by (auto simp: serve_def no_payload_def gridfs_releasedir_def ret_def dest!: bind_result)
    then have "s' = destroy_handle fh s \<or> fh = 0 \<and> s' = s"
      by (auto simp: catch_with_def bind_def ret_def delete_handle_def split: prod.splits outcome.splits option.splits if_splits)
    then show ?thesis
      using dom_destroy [of fh s] s table_ok_null [of s] by (auto simp: dom_def table_of_def)
  qed
  then have "dom (objects s') - {fh} = dom (objects s')" by auto
  ultimately show ?thesis by (simp add: table_of_def table_but_def)
qed

section \<open>A session with its answers\<close>

inductive session_run ::
  "'w env \<Rightarrow> (string \<Rightarrow> 'w \<Rightarrow> 'w) \<Rightarrow> 'w machine \<Rightarrow> (request \<times> int \<times> payload) list \<Rightarrow> 'w machine \<Rightarrow> bool"
  for E filler k0 where
    Mounted: "session_run E filler k0 [] k0"
  | Served: "\<lbrakk>session_run E filler k0 tr k; session_step E filler k req rep k'\<rbrakk> \<Longrightarrow>
      session_run E filler k0 (tr @ [(req, rep)]) k'"

lemma session_run_reachable: "session_run E filler k0 tr k \<Longrightarrow> reachable E filler k0 k"
  by (induction rule: session_run.induct) (auto intro: reachable.intros)

text \<open>
  The handles that came with an error: of an object that a failed \<open>create\<close> made, and of one that a
  refused \<open>open\<close> below /proc made. The kernel takes neither into its tables.
\<close>

definition lost :: "(request \<times> int \<times> payload) list \<Rightarrow> nat set" where
  "lost tr = {fh. fh \<noteq> 0 \<and> ((\<exists>p mode. (Create p mode, - EEXIST, Handle fh) \<in> set tr) \<or>
     (\<exists>p. (Open p, - ENAMETOOLONG, Handle fh) \<in> set tr))}"

lemma lost_snoc:
  "lost (tr @ [(req, rep)]) = lost tr \<union> {fh. fh \<noteq> 0 \<and> ((\<exists>p mode. req = Create p mode \<and> rep = (- EEXIST, Handle fh)) \<or>
     (\<exists>p. req = Open p \<and> rep = (- ENAMETOOLONG, Handle fh)))}"
  by (auto simp: lost_def)

lemma lost_by_others: "\<not> gives_handle req \<Longrightarrow> lost (tr @ [(req, rep)]) = lost tr"
  by (auto simp: lost_snoc)

text \<open>Every object is behind a handle of the kernel or a lost one, and behind one of them only.\<close>

definition accounted :: "(request \<times> int \<times> payload) list \<Rightarrow> 'w machine \<Rightarrow> bool" where
  "accounted tr k \<longleftrightarrow> table_of ((files k - {0}) \<union> dirs k \<union> lost tr) (fuse k) \<and> files k \<inter> dirs k = {} \<and>
     lost tr \<inter> (files k \<union> dirs k) = {}"

lemma opened_lost:
  assumes "serve E filler req s = (Ret (n, Handle fh), s')" "req = Create p mode \<or> req = Open p" "fh \<noteq> 0"
  shows "lost (tr @ [(req, n, Handle fh)]) = (if n = 0 then lost tr else insert fh (lost tr))"
proof -
  have "conforms req (n, Handle fh)"
    using yieldsD [OF serve_conforms assms(1)] assms(2) by auto
  then show ?thesis
    using assms(2,3) by (auto simp: lost_snoc opens_def EEXIST_def ENAMETOOLONG_def EIO_def)
qed

lemma accounted_step:
  assumes a: "accounted tr k" and ok: "session_ok k" and step: "session_step E filler k req rep k'"
  shows "accounted (tr @ [(req, rep)]) k'"
proof -
  let ?D = "(files k - {0}) \<union> dirs k \<union> lost tr"
  have D: "table_of ?D (fuse k)" and disj: "files k \<inter> dirs k = {}" "lost tr \<inter> (files k \<union> dirs k) = {}"
    using a by (simp_all add: accounted_def)
  have same: "accounted (tr @ [(req, rep)]) (k\<lparr>fuse := s'\<rparr>)"
    if "\<not> gives_handle req" "\<not> takes_handle req" "serve E filler req (fuse k) = (Ret rep, s')" for s'
    using keepsD [OF serve_table [OF that(1,2)] D that(3)] disj
    by (simp add: accounted_def lost_by_others [OF that(1)])
  from step show ?thesis
  proof (cases rule: session_step.cases)
    case (Path s')
    then show ?thesis using same by (cases req) auto
  next
    case (OpenFile p mode n fh s')
    have g: "gives_handle req" using OpenFile(3) by auto
    have new: "fh \<notin> ?D" "table_of (if fh = 0 then ?D else insert fh ?D) s'"
      by (rule serve_opens [OF D g OpenFile(4)]; auto)+
    show ?thesis
    proof (cases "fh = 0")
      case True
      have "0 \<notin> dirs k" using table_of_null [OF D] by simp
      moreover have "lost (tr @ [(req, n, Handle 0)]) = lost tr" by (auto simp: lost_snoc)
      ultimately show ?thesis
        unfolding OpenFile(1,2) using True new(2) disj by (auto simp: accounted_def opened_def lost_def)
    next
      case False
      have t: "table_of (insert fh ?D) s'" using new(2) False by simp
      have "insert fh (files k) - {0} \<union> dirs k \<union> lost tr = insert fh ?D" "(files k - {0}) \<union> dirs k \<union> insert fh (lost tr) = insert fh ?D"
        using False by auto
      with t opened_lost [OF OpenFile(4,3) False, of tr] new(1) False disj show ?thesis unfolding OpenFile(1,2)
        by (cases "n = 0") (auto simp: accounted_def opened_def)
    qed
  next
    case (OpenDir p n fh s')
    have new: "fh \<notin> ?D" "table_of (if fh = 0 then ?D else insert fh ?D) s'"
      by (rule serve_opens [OF D _ OpenDir(4)]; simp)+
    have "conforms (Opendir p) (n, Handle fh)" using yieldsD [OF serve_conforms OpenDir(4)] by simp
    then have z: "n = 0 \<or> fh = 0" by (auto simp: opens_def)
    have l: "lost (tr @ [(req, rep)]) = lost tr" unfolding OpenDir(1,2) by (auto simp: lost_snoc)
    show ?thesis
    proof (cases "n = 0")
      case True
      have "gridfs_opendir E p 0 (fuse k) = (Ret (0, fh), s')"
        using OpenDir(4) True by (auto simp: serve_def ret_def dest!: bind_result)
      then have "live_dir s' fh" using ok opendir_handle(1) by (auto simp: session_ok_def)
      then have "fh \<noteq> 0" using new(2) table_ok_null [of s'] by (auto simp: live_dir_def table_of_def split: if_splits)
      then have t: "table_of (insert fh ?D) s'" using new(2) by simp
      have "(files k - {0}) \<union> insert fh (dirs k) \<union> lost tr = insert fh ?D" by auto
      with t new(1) disj True \<open>fh \<noteq> 0\<close> show ?thesis
        unfolding accounted_def l OpenDir(3) by (auto simp: opened_def)
    next
      case False
      with z new(2) disj show ?thesis unfolding accounted_def l OpenDir(3) by (simp add: opened_def)
    qed
  next
    case (UseFile fh sz off data s')
    then show ?thesis using same by auto
  next
    case (UseDir fh s')
    then show ?thesis using same by auto
  next
    case (CloseFile fh p s')
    have "table_of (?D - {fh}) s'" by (rule serve_closes [OF D _ CloseFile(4)]) simp
    moreover have "?D - {fh} = (files k - {fh} - {0}) \<union> dirs k \<union> lost tr" using CloseFile(3) disj by auto
    ultimately have t: "table_of ((files k - {fh} - {0}) \<union> dirs k \<union> lost tr) s'" by simp
    have l: "lost (tr @ [(req, rep)]) = lost tr" unfolding CloseFile(1) by (rule lost_by_others) simp
    show ?thesis unfolding accounted_def l CloseFile(2) using t disj by (simp; blast)
  next
    case (CloseDir fh s')
    have "table_of (?D - {fh}) s'" by (rule serve_closes [OF D _ CloseDir(4)]) simp
    moreover have "?D - {fh} = (files k - {0}) \<union> (dirs k - {fh}) \<union> lost tr" using CloseDir(3) disj by auto
    ultimately have t: "table_of ((files k - {0}) \<union> (dirs k - {fh}) \<union> lost tr) s'" by simp
    have l: "lost (tr @ [(req, rep)]) = lost tr" unfolding CloseDir(1) by (rule lost_by_others) simp
    show ?thesis unfolding accounted_def l CloseDir(2) using t disj by (simp; blast)
  qed
qed

lemma session_accounted:
  assumes "session_run E filler k0 tr k" "fresh k0"
  shows "accounted tr k"
  using assms
proof (induction rule: session_run.induct)
  case Mounted
  then show ?case by (auto simp: fresh_def accounted_def table_of_def table_ok_def lost_def)
next
  case (Served tr k req rep k')
  then have "accounted tr k" "session_ok k" using reachable_ok [OF session_run_reachable] by blast+
  then show ?case using Served(2) by (rule accounted_step)
qed

end
