(* ===== verification/Session_Theorems.thy ===== *)
theory Session_Theorems
  imports File_Theorems Memory_Safety Session_Objects
begin

text \<open>
  What holds of whole sessions, from the mount on, and of every callback in every environment:
  the pools and handles, exceptions, freed memory, the ends of the loops, a database that
  cannot be reached.
\<close>

section \<open>Sessions\<close>

text \<open>C4: In every state that requests reach from a fresh mount, whatever the servers answer: the objects of
  the process are exactly those behind the handles that the kernel has, and those that a failed \<open>create\<close> or a
  refused \<open>open\<close> below /proc left behind (C36), which nothing releases; no object is counted twice. The
  database connections in use are as many as these objects, less those of /proc, which hold none. No cache
  handle stays taken. The file handles of the kernel point to live files or /proc objects, or are null
  (\<open>create\<close> below /proc gives such a handle, C37), and its directory handles to live directories or /proc
  objects.\<close>

theorem session_invariant:
  assumes "fresh k0" "session_run E filler k0 tr k"
  shows "dom (objects (fuse k)) = (files k - {0}) \<union> dirs k \<union> lost tr \<and>
    files k \<inter> dirs k = {} \<and> lost tr \<inter> (files k \<union> dirs k) = {} \<and>
    conns (fuse k) = card {fh \<in> (files k - {0}) \<union> dirs k \<union> lost tr. \<nexists>p. objects (fuse k) fh = Some (PROC p)} \<and>
    caches (fuse k) = 0 \<and> (\<forall>fh \<in> files k. fh = 0 \<or> live_file (fuse k) fh) \<and>
    (\<forall>fh \<in> dirs k. live_dir (fuse k) fh)"
proof -
  have a: "accounted tr k" by (rule session_accounted [OF assms(2,1)])
  have ok: "session_ok k" by (rule reachable_ok [OF session_run_reachable [OF assms(2)] assms(1)])
  have d: "dom (objects (fuse k)) = (files k - {0}) \<union> dirs k \<union> lost tr"
    using a by (simp add: accounted_def table_of_def)
  have h: "holds_connection v \<longleftrightarrow> (\<nexists>p. v = PROC p)" for v by (cases v) simp_all
  have "holders (objects (fuse k)) = {fh \<in> dom (objects (fuse k)). \<nexists>p. objects (fuse k) fh = Some (PROC p)}"
    by (auto simp: holders_def h)
  with a ok d show ?thesis by (simp add: accounted_def session_ok_def balanced_def)
qed

definition mounted_demo :: "ref_world machine" where
  "mounted_demo = \<lparr>fuse = demo, files = {}, dirs = {}\<rparr>"

lemma mounted_demo_fresh: "fresh mounted_demo"
  by (simp add: fresh_def mounted_demo_def demo_def)

text \<open>One request: the kernel opens the file.\<close>

lemma demo_session_run:
  obtains k f where "session_run (ref_env []) filler mounted_demo [(Open ''/a'', 0, Handle 1)] k"
    "files k = {1}" "dirs k = {}" "fuse k = fuse k\<lparr>objects := [1 \<mapsto> FILE f]\<rparr>" "next_addr (fuse k) = 2" "conns (fuse k) = 1"
    "ref_docs (world (fuse k)) = ref_docs (world demo)"
proof -
  have p: "''/a'' = configure_path (config (ref_env [])) ''/a''"
    "\<not> is_proc (config (ref_env [])) ''/a''" by (simp_all add: plain_path)
  from ref.open_run [where pre = "[]" and s = demo, OF p demo_newest(1)]
  obtain f s' where o: "gridfs_open (ref_env []) ''/a'' 0 demo = (Ret (0, next_addr demo), s')"
    "new_handle (next_addr demo) f demo s'" "calm ref_docs w_cache (world demo) (world s')" by blast
  have n: "next_addr demo = 1" by (simp add: demo_def)
  let ?k = "mounted_demo\<lparr>fuse := s', files := opened 0 1 (files mounted_demo)\<rparr>"
  have "session_step (ref_env []) filler mounted_demo (Open ''/a'') (0, Handle 1) ?k"
    by (rule session_step.OpenFile) (use o(1) n in \<open>simp_all add: serve_def bind_run comp_simps mounted_demo_def\<close>)
  from session_run.Served [OF session_run.Mounted this]
  have "session_run (ref_env []) filler mounted_demo [(Open ''/a'', 0, Handle 1)] ?k" by simp
  moreover have "files ?k = {1}" "dirs ?k = {}" "fuse ?k = fuse ?k\<lparr>objects := [1 \<mapsto> FILE f]\<rparr>" "next_addr (fuse ?k) = 2"
    "conns (fuse ?k) = 1" "ref_docs (world (fuse ?k)) = ref_docs (world demo)"
    using o(2,3) by (simp_all add: new_handle_def mounted_demo_def demo_def opened_def calm_def)
  ultimately show thesis using that by blast
qed

lemma demo_opened:
  obtains k where "reachable (ref_env []) filler mounted_demo k" "files k = {1}" "dirs k = {}"
    "conns (fuse k) = 1"
proof -
  obtain k where "session_run (ref_env []) filler mounted_demo [(Open ''/a'', 0, Handle 1)] k"
    "files k = {1}" "dirs k = {}" "conns (fuse k) = 1" by (rule demo_session_run)
  with session_run_reachable that show thesis by blast
qed

text \<open>The kernel opens a file, and then fails to create the same path: one object too many is left.\<close>

theorem session_invariant_witness:
  "\<exists>k. session_run (ref_env []) (\<lambda>n w. w) mounted_demo
      [(Open ''/a'', 0, Handle 1), (Create ''/a'' 0, - EEXIST, Handle 2)] k \<and> files k = {1} \<and> live_file (fuse k) 1 \<and>
    dom (objects (fuse k)) = {1, 2} \<and> card {fh \<in> {1, 2}. \<nexists>p. objects (fuse k) fh = Some (PROC p)} = conns (fuse k)"
proof -
  let ?tr = "[(Open ''/a'', 0, Handle 1), (Create ''/a'' 0, - EEXIST, Handle 2)]"
  obtain k f where k: "session_run (ref_env []) (\<lambda>n w. w) mounted_demo [(Open ''/a'', 0, Handle 1)] k"
    "files k = {1}" "dirs k = {}" "next_addr (fuse k) = 2" "ref_docs (world (fuse k)) = ref_docs (world demo)"
    by (rule demo_session_run)
  have p: "''/a'' = configure_path (config (ref_env [])) ''/a''"
    "\<not> is_proc (config (ref_env [])) ''/a''" by (simp_all add: plain_path)
  have "newest ''/a'' (ref_docs (world (fuse k))) \<noteq> None" using demo_newest(1) k(5) by simp
  from ref.create_run(2) [OF p this] k(4)
  obtain s' where c: "gridfs_create (ref_env []) ''/a'' 0 (fuse k) = (Ret (- EEXIST, 2), s')" by auto
  let ?k = "k\<lparr>fuse := s', files := opened (- EEXIST) 2 (files k)\<rparr>"
  have "session_step (ref_env []) (\<lambda>n w. w) k (Create ''/a'' 0) (- EEXIST, Handle 2) ?k"
    by (rule session_step.OpenFile) (use c in \<open>simp_all add: serve_def bind_run comp_simps\<close>)
  from session_run.Served [OF k(1) this] have run: "session_run (ref_env []) (\<lambda>n w. w) mounted_demo ?tr ?k" by simp
  have files: "files ?k = {1}" "dirs ?k = {}" using k(2,3) by (simp_all add: opened_def EEXIST_def)
  have "{fh. fh = 2} = {2 :: nat}" by auto
  then have l: "lost ?tr = {2}" by (auto simp: lost_def EEXIST_def ENAMETOOLONG_def)
  have "{1} - {0} \<union> {} \<union> {2} = {1, 2 :: nat}" by auto
  with session_invariant [OF mounted_demo_fresh run, unfolded files l] files run show ?thesis
    by (intro exI [of _ ?k]) (auto simp: disj_commute)
qed

text \<open>C9: No request that the kernel may send in such a state makes a callback follow a handle
  whose object was deleted.\<close>

theorem requests_are_memory_safe:
  assumes "fresh k0" "reachable E filler k0 k" "may_send k req"
  shows "fst (serve E filler req (fuse k)) \<noteq> Fault UseAfterFree"
  by (rule session_no_use_after_free [OF reachable_ok [OF assms(2,1)] assms(3)])

theorem requests_are_memory_safe_witness:
  "\<exists>k. reachable (ref_env []) (\<lambda>n w. w) mounted_demo k \<and> may_send k (Read 1 5 0) \<and>
    fst (serve (ref_env []) (\<lambda>n w. w) (Read 1 5 0) (fuse k)) \<noteq> Fault UseAfterFree"
proof -
  obtain k where k: "reachable (ref_env []) (\<lambda>n w. w) mounted_demo k" "files k = {1}" by (rule demo_opened)
  moreover from k(2) have "may_send k (Read 1 5 0)" by simp
  ultimately show ?thesis using requests_are_memory_safe [OF mounted_demo_fresh] by blast
qed

text \<open>C15: Handles are isolated: a request changes at most the object behind the handle it names; what
  was read or written through any other handle stays as it is, whatever the servers answer.\<close>

theorem handles_are_isolated:
  assumes "table_ok s" "serve E filler req s = (Ret rep, s')" "handle_of req \<noteq> a"
    and "objects s a = Some v"
  shows "objects s' a = Some v"
  by (rule serve_same_but [OF assms])

text \<open>A file is written through one handle while the same file is removed by its path.\<close>

theorem handles_are_isolated_witness:
  "\<exists>rep s'. serve (ref_env []) (\<lambda>n w. w) (Unlink ''/a'') (opened_file (world demo) full_file) = (Ret rep, s') \<and>
    objects s' 1 = Some (FILE full_file)"
proof -
  have ok: "table_ok (opened_file (world demo) full_file)" by (simp add: table_ok_def)
  have c: "coherent (ref_env []) ref_docs w_cache (opened_file (world demo) full_file)"
    using demo_coherent [of "[]"] by (simp add: coherent_def only_stats_def entries_of_def [abs_def])
  obtain w where "gridfs_unlink (ref_env []) ''/a'' (opened_file (world demo) full_file) =
      (Ret 0, (opened_file (world demo) full_file)\<lparr>world := w\<rparr>)"
    using backend.unlink_run [OF ref_backend refl c, of "''/a''"] by (auto simp: plain_path)
  then obtain rep s' where 1: "serve (ref_env []) (\<lambda>n w. w) (Unlink ''/a'') (opened_file (world demo) full_file) = (Ret rep, s')"
    by (auto simp: serve_def no_payload_def bind_run comp_simps)
  from handles_are_isolated [OF ok 1, of 1] 1 show ?thesis by simp
qed

section \<open>Types of answers, bounds of buffers\<close>

text \<open>C7: The answers to every sequence of requests from the mount on have the type of their request,
  whatever the servers answer: which number goes with which payload, a read delivers as many bytes
  as it answers and never more than were asked for, a link ends inside the caller's buffer. The
  open files keep the types of their fields.\<close>

theorem answers_are_typed:
  assumes "0 \<le> mongo_chunk_size (config E)" "mongo_chunk_size (config E) < 2 ^ 32"
    and "objects s = (\<lambda>_. None)" "\<forall>req \<in> set reqs. sane req"
    and "serve_all E filler reqs s = (Ret reps, s')"
  shows "list_all2 conforms reqs reps \<and> table_typed s'"
  using serve_all_typed [OF assms(1,2) _ assms(4,5)] table_valid_typed assms(3)
  by (fastforce simp: table_valid_def)

lemma demo_session:
  obtains s' where "serve_all (ref_env []) (\<lambda>n w. w) [Open ''/a''] demo = (Ret [(0, Handle 1)], s')"
proof -
  have p: "''/a'' = configure_path (config (ref_env [])) ''/a''"
    "\<not> is_proc (config (ref_env [])) ''/a''" by (simp_all add: plain_path)
  from ref.open_run [where pre = "[]" and s = demo, OF p demo_newest(1)]
  obtain s' where "gridfs_open (ref_env []) ''/a'' 0 demo = (Ret (0, next_addr demo), s')" by blast
  then have "serve_all (ref_env []) (\<lambda>n w. w) [Open ''/a''] demo = (Ret [(0, Handle 1)], s')"
    by (simp add: serve_def bind_run comp_simps demo_def)
  then show thesis by (rule that)
qed

theorem answers_are_typed_witness:
  "\<exists>s'. serve_all (ref_env []) (\<lambda>n w. w) [Open ''/a''] demo = (Ret [(0, Handle 1)], s') \<and>
    list_all2 conforms [Open ''/a''] [(0, Handle 1)] \<and> table_typed s'"
proof -
  obtain s' where s': "serve_all (ref_env []) (\<lambda>n w. w) [Open ''/a''] demo = (Ret [(0, Handle 1)], s')"
    by (rule demo_session)
  have "list_all2 conforms [Open ''/a''] [(0, Handle 1)] \<and> table_typed s'"
    by (rule answers_are_typed [OF _ _ _ _ s']) (simp_all add: ref_config_chunk demo_def)
  with s' show ?thesis by blast
qed

text \<open>C8: After such a sequence no write and no release runs over the ends of the memory that is mapped
  for its file, whatever the servers and the kernel answer. And none follows a pointer that is no mapping,
  as long as the kernel refuses no extension (\<open>mremap\<close>) to a positive size; it may refuse new memory
  (\<open>mmap\<close>). The condition is needed: C33 shows what a release does after a refused extension.\<close>

theorem buffers_never_overrun:
  assumes "0 \<le> mongo_chunk_size (config E)" "mongo_chunk_size (config E) < 2 ^ 32"
    and "objects s = (\<lambda>_. None)" "\<forall>req \<in> set (req # reqs). sane req"
    and "serve_all E filler reqs s = (Ret reps, s')" "req = Write fh data off \<or> req = Release p fh"
  shows "fst (serve E filler req s') \<noteq> Fault OutOfBounds \<and>
    ((\<forall>n n' w. 0 < n' \<longrightarrow> fst (remap_memory E n n' w)) \<longrightarrow> fst (serve E filler req s') \<noteq> Fault BadPointer)"
proof -
  have "table_valid E s'"
    using serve_all_typed [OF assms(1,2) _ _ assms(5)] assms(3,4) by (simp add: table_valid_def)
  with buffers_typed [OF assms(1,2) _ _ assms(6), of s'] assms(4) show ?thesis by (simp add: grows_def)
qed

theorem buffers_never_overrun_witness:
  "\<exists>s'. serve_all (ref_env []) (\<lambda>n w. w) [Open ''/a''] demo = (Ret [(0, Handle 1)], s') \<and>
    fst (serve (ref_env []) (\<lambda>n w. w) (Write 1 ''text'' 0) s') \<notin> {Fault OutOfBounds, Fault BadPointer}"
proof -
  obtain s' where s': "serve_all (ref_env []) (\<lambda>n w. w) [Open ''/a''] demo = (Ret [(0, Handle 1)], s')"
    by (rule demo_session)
  have "\<forall>n n' w. 0 < n' \<longrightarrow> fst (remap_memory (ref_env []) n n' w)" by (simp add: ref_env_def)
  then have "fst (serve (ref_env []) (\<lambda>n w. w) (Write 1 ''text'' 0) s') \<notin> {Fault OutOfBounds, Fault BadPointer}"
    using buffers_never_overrun [of "ref_env []" demo "Write 1 ''text'' 0" "[Open ''/a'']" "\<lambda>n w. w", OF _ _ _ _ s' disjI1 [OF refl]]
    by (simp add: ref_config_chunk demo_def)
  with s' show ?thesis by blast
qed

section \<open>Every environment\<close>

text \<open>C24: No exception leaves a callback, whatever the servers raise: it would end the process.\<close>

theorem callbacks_never_throw:
  "fst (serve E filler req s) \<noteq> Throw e"
  using no_throw_serve [of E filler req] unfolding no_throw_def by blast

text \<open>C22: A \<open>write\<close> ends: the loop that grows the memory stops, whatever the kernel answers, when
  the chunk size of the options is positive, the sizes stay below \<open>2 ^ 64\<close>, and the object has either no chunk
  size yet or that of the options (an object that read a file stored with other chunks first is not meant).\<close>

theorem write_ends:
  assumes "mongo_chunk_size (config E) = cs" "0 < cs" "theChunkSize f \<in> {0, cs}"
    and "0 \<le> theCurrentDataSize f" "0 \<le> off" "off + int (length data) + cs < 2 ^ 64"
    and "objects s fh = Some (FILE f)" "fh \<noteq> 0"
  shows "fst (gridfs_write E data off fh s) \<noteq> Fault NoFuel"
proof -
  have "fst (file_write E data off (f, s)) \<noteq> Fault NoFuel"
    using file_write_ends [OF assms(1,2,5,6)] assms(3,4) by (auto simp: never_from_def)
  then have "fst (with_file fh f (file_write E data off) s) \<noteq> Fault NoFuel"
    by (auto simp: with_file_def split: prod.split)
  then show ?thesis using assms(7,8)
    by (auto simp: gridfs_write_def assert_that_true bind_run comp_simps deref_def catch_with_def
        split: prod.split outcome.split)
qed

theorem write_ends_witness:
  "fst (gridfs_write (ref_env []) ''data'' 0 1 (opened_file (world demo) (fresh_file ''/a''))) \<noteq> Fault NoFuel"
  by (rule write_ends [where f = "fresh_file ''/a''" and cs = 262144])
    (simp_all add: ref_config_chunk file_of_entry_def)

text \<open>C23: A \<open>read\<close> of a file whose sizes are known ends, whatever the servers answer: each turn of
  its loop takes at least one byte. The length is at most \<open>2 ^ 31\<close>.\<close>

theorem read_ends:
  assumes "0 < theChunkSize f" "theChunkSize f < 2 ^ 31" "0 < theFileLength f" "theFileLength f \<le> 2 ^ 31"
    and "0 \<le> off" "0 \<le> sz" "off + sz < 2 ^ 63" and "objects s fh = Some (FILE f)" "fh \<noteq> 0"
  shows "fst (gridfs_read E sz off fh s) \<noteq> Fault NoFuel"
proof -
  have "fst (file_read E sz off (f, s)) \<noteq> Fault NoFuel" by (rule file_read_ends [OF assms(1-7)])
  then have "fst (with_file fh f (file_read E sz off) s) \<noteq> Fault NoFuel"
    by (auto simp: with_file_def split: prod.split)
  then show ?thesis using assms(8,9)
    by (auto simp: gridfs_read_def assert_that_true bind_run comp_simps deref_def catch_with_def
        split: prod.split outcome.split)
qed

theorem read_ends_witness:
  "fst (gridfs_read (ref_env []) 100 2 1 (opened_file (world demo)
     ((fresh_file ''/a'')\<lparr>theChunkSize := 4, theFileLength := 5\<rparr>))) \<noteq> Fault NoFuel"
  by (rule read_ends [where f = "(fresh_file ''/a'')\<lparr>theChunkSize := 4, theFileLength := 5\<rparr>"]) simp_all

section \<open>A database that cannot be reached\<close>

lemma new_entry_down:
  assumes "\<And>w. \<exists>e w'. scoped_connection E w = (Inl e, w')"
  shows "\<exists>e w. new_entry E p s = (Throw e, s\<lparr>world := w\<rparr>)" "\<exists>e w. new_file E p s = (Throw e, s\<lparr>world := w\<rparr>)"
proof -
  obtain e w where "scoped_connection E (world s) = (Inl e, w)" using assms by blast
  then show "\<exists>e w. new_entry E p s = (Throw e, s\<lparr>world := w\<rparr>)"
    by (auto simp: new_entry_def connection_string_def bind_run comp_simps call_def
        intro: exI [of _ "world s"])
  then show "\<exists>e w. new_file E p s = (Throw e, s\<lparr>world := w\<rparr>)"
    by (auto simp: new_file_def bind_run)
qed

lemma scope_down:
  assumes "\<exists>e w. ctor s = (Throw e, s\<lparr>world := w\<rparr>)"
  shows "\<exists>w. catch_with (local_object ctor d body) a s = (Ret a, s\<lparr>world := w\<rparr>)"
  using assms by (auto simp: catch_with_def local_object_def lifetime_def bind_def)

lemma opening_down:
  assumes "\<exists>e w. ctor s = (Throw e, s\<lparr>world := w\<rparr>)"
  shows "\<exists>w. bind (catch_with (lifetime ctor body d k) (a, 0)) (\<lambda>(n, fh). ret (n, Handle fh)) s =
    (Ret (a, Handle 0), s\<lparr>world := w\<rparr>)"
  using assms by (auto simp: catch_with_def lifetime_def bind_def ret_def)

lemma getattr_down:
  fixes s :: "('w, 'x) fuse_state_scheme"
  assumes "\<And>w. \<exists>e w'. scoped_connection E w = (Inl e, w')"
    and "\<not> is_proc (config E) (configure_path (config E) p)"
    and "fst (mc_lookup E (memcache_key (configure_path (config E) p)) (world s)) = None"
  shows "\<exists>w. gridfs_getattr E p st s = (Ret (- EIO, None), s\<lparr>world := w\<rparr>)"
proof -
  let ?p = "configure_path (config E) p"
  obtain v where v: "mc_lookup E (memcache_key ?p) (world s) = (None, v)"
    using assms(3) by (cases "mc_lookup E (memcache_key ?p) (world s)") auto
  let ?t = "(memcache_acquire s)\<lparr>world := v\<rparr>"
  obtain w where w: "catch_with (local_object (new_entry E ?p) drop_connection body) (- EIO, None) ?t =
      (Ret (- EIO, None), ?t\<lparr>world := w\<rparr>)" for body :: "(entry \<times> ('w, 'x) fuse_state_scheme, int \<times> stat_buf option) comp"
    using new_entry_down(1) [OF assms(1), of ?p ?t] by (auto simp: catch_with_def local_object_def lifetime_def bind_def)
  have get: "memcache_get E ?p (memcache_acquire s) = (Ret None, ?t)"
    using v by (simp add: memcache_get_def c_call_def bind_def comp_run memcache_acquire_def)
  have "gridfs_getattr E p st s = (Ret (- EIO, None), memcache_release (?t\<lparr>world := w\<rparr>))"
    using w assms(2) by (simp add: gridfs_getattr_def Let_def with_memcache_def with_dtor_def bind_def modify_def get)
  then show ?thesis by (auto simp: memcache_release_def memcache_acquire_def)
qed

text \<open>C25: When no connection to the database can be had, every request by path answers \<open>- EIO\<close>:
  each that changes or reads an entry, and each that opens, which hands out the null handle. Nothing of the
  process is left behind: no connection, no cache handle, no object. Two scopes never ask the database and
  are excluded: a \<open>getattr\<close> that the cache answers, and the paths below /proc of the five
  requests that look for them (\<open>getattr\<close>, \<open>opendir\<close>, \<open>create\<close>, \<open>open\<close>,
  \<open>utimens\<close>). Requests by handle are not spoken of.\<close>

theorem unreachable_database_reported:
  fixes s :: "('w, 'x) fuse_state_scheme"
  assumes "\<And>w. \<exists>e w'. scoped_connection E w = (Inl e, w')"
    and "by_path req \<or> (\<exists>p mode. req \<in> {Opendir p, Create p mode, Open p})"
    and "\<And>p mode time. req \<in> {Getattr p, Opendir p, Create p mode, Open p, Utimens p time} \<Longrightarrow>
      \<not> is_proc (config E) (configure_path (config E) p)"
    and "\<And>p. req = Getattr p \<Longrightarrow>
      fst (mc_lookup E (memcache_key (configure_path (config E) p)) (world s)) = None"
  shows "\<exists>w. serve E filler req s =
    (Ret (- EIO, if by_path req then Nothing else Handle 0), s\<lparr>world := w\<rparr>)"
proof -
  have np: "\<exists>w. no_payload (catch_with (local_object ctor d body) (- EIO)) s = (Ret (- EIO, Nothing), s\<lparr>world := w\<rparr>)"
    if "\<exists>e w. ctor s = (Throw e, s\<lparr>world := w\<rparr>)" for ctor d and body :: "('o \<times> ('w, 'x) fuse_state_scheme, int) comp"
    using scope_down [where ctor = ctor and d = d and body = body and a = "- EIO", OF that] by (auto simp: no_payload_def bind_run comp_simps)
  have opt: "\<exists>w. optional pl (catch_with (local_object ctor d body) (- EIO, None)) s =
      (Ret (- EIO, Nothing), s\<lparr>world := w\<rparr>)"
    if "\<exists>e w. ctor s = (Throw e, s\<lparr>world := w\<rparr>)" for pl :: "bytes \<Rightarrow> payload" and ctor d body
    using scope_down [where ctor = ctor and d = d and body = body and a = "(- EIO, None)", OF that] by (auto simp: optional_def bind_run comp_simps)
  note down = new_entry_down [OF assms(1)]
  show ?thesis
  proof (cases "\<exists>p. req = Getattr p")
    case True
    then obtain p where p: "req = Getattr p" by blast
    obtain w where "gridfs_getattr E p zero_stat s = (Ret (- EIO, None), s\<lparr>world := w\<rparr>)"
      using getattr_down [OF assms(1) _ assms(4) [OF p]] assms(3) [of p 0 0] p by auto
    then show ?thesis by (intro exI [of _ w]) (simp add: p serve_def optional_def bind_def ret_def)
  next
    case other: False
    show ?thesis
    proof (cases "by_path req")
      case True
      have "\<exists>w. serve E filler req s = (Ret (- EIO, Nothing), s\<lparr>world := w\<rparr>)"
        using True other assms(3)
        by (cases req) (auto simp: serve_def gridfs_mkdir_def gridfs_rmdir_def gridfs_unlink_def
            gridfs_symlink_def gridfs_readlink_def gridfs_chmod_def gridfs_chown_def gridfs_truncate_def
            gridfs_utimens_def Let_def intro!: np opt down)
      with True show ?thesis by simp
    next
      case False
      with assms(2) obtain p mode where req: "req \<in> {Opendir p, Create p mode, Open p}" by blast
      with assms(3) [of p mode] have "\<not> is_proc (config E) (configure_path (config E) p)" by blast
      with req False show ?thesis
        unfolding serve_def gridfs_opendir_def gridfs_create_def gridfs_open_def Let_def
        by (elim insertE emptyE) (simp_all add: opening_down down)
    qed
  qed
qed

theorem unreachable_database_reported_witness:
  "\<exists>v w. serve ((ref_env [])\<lparr>scoped_connection := (\<lambda>w. (Inl (UserException ''down''), w))\<rparr>) (\<lambda>n w. w)
       (Rmdir ''/d'') demo = (Ret (- EIO, Nothing), demo\<lparr>world := v\<rparr>) \<and>
     serve ((ref_env [])\<lparr>scoped_connection := (\<lambda>w. (Inl (UserException ''down''), w))\<rparr>) (\<lambda>n w. w)
       (Open ''/a'') demo = (Ret (- EIO, Handle 0), demo\<lparr>world := w\<rparr>)"
proof -
  let ?E = "(ref_env [])\<lparr>scoped_connection := (\<lambda>w. (Inl (UserException ''down''), w))\<rparr>"
  have "\<not> is_proc (config ?E) (configure_path (config ?E) ''/a'')" by (simp add: plain_path)
  then have "\<exists>w. serve ?E (\<lambda>n w. w) (Open ''/a'') demo = (Ret (- EIO, Handle 0), demo\<lparr>world := w\<rparr>)"
    using unreachable_database_reported [of ?E "Open ''/a''"] by simp
  moreover have "\<exists>w. serve ?E (\<lambda>n w. w) (Rmdir ''/d'') demo = (Ret (- EIO, Nothing), demo\<lparr>world := w\<rparr>)"
    using unreachable_database_reported [of ?E "Rmdir ''/d''"] by simp
  ultimately show ?thesis by blast
qed

end
