(* ===== verification/Handle_Theorems.thy ===== *)
theory Handle_Theorems
  imports File_Theorems Session
begin

text \<open>
  What the rules of theory Shared_Files leave out or put up with: a handle that is both written and
  read, and a release that undoes what happened to its path since the handle saw it.
\<close>

section \<open>A write spoils the reads of its handle\<close>

lemma first_piece:
  assumes "theChunkSize f = c" "theFileLength f = D" "0 < sz" "sz \<le> D" "D \<le> c" "c < 2 ^ 31"
  shows "next_piece f sz 0 0 s = (Ret (0, sz, 0), s)"
proof -
  have "c_size_t sz = sz" "c_int c = c" using assms by (auto intro!: c_size_t_id c_int_id)
  moreover have "c_size_t 0 = 0" "c_int 0 = 0" "c_off_t 0 = 0" by (simp_all add: c_size_t_id c_int_id c_off_t_id)
  moreover have "c_div 0 c = Ret 0" "c_mod 0 c = Ret 0" using assms by (simp_all add: c_div_nonneg c_mod_nonneg)
  ultimately show ?thesis using assms by (simp add: next_piece_def bind_run comp_simps Let_def)
qed

context backend
begin

text \<open>A piece longer than its chunk: the copy leaves the data of the chunk.\<close>

lemma chunk_overrun:
  assumes f: "\<not> mutex_read f" "theCachedChunkN f = - 1" "theChunkSize f = c" "theFileLength f = d_length d"
    and cur: "current (docs (world s)) f" "newest (thePath f) (docs (world s)) = Some d"
    and d: "sound_length d" "d_length d \<le> c" "c < 2 ^ 31" "0 < d_chunk d" "d_chunk d < sz" "sz \<le> d_length d"
  shows "fst (file_read_chunk E 0 sz 0 (f, s)) = Fault OutOfBounds"
proof -
  let ?f = "f\<lparr>mutex_read := True\<rparr>"
  have data: "0 < int (length (d_data d))" using d unfolding sound_length_def by linarith
  obtain f1 s1 where 1: "fetch_chunk E 0 (?f, s) = (Ret (), (f1, s1))"
    "theCachedChunk f1 = Some (chunk_of d 0)"
    using fetch_chunk_run [of s ?f d 0] cur data f(2) by (auto simp: current_def)
  have "c_size_t sz = sz" using d by (intro c_size_t_id) auto
  then have asserts: "theChunkSize ?f \<noteq> 0" "c_size_t (0 + sz) \<le> theChunkSize ?f" "c_size_t (0 + sz) \<le> theFileLength ?f"
    using f(3,4) d by auto
  have "int (length (chunk_of d 0)) \<le> d_chunk d" using d(4) by (simp add: chunk_of_def)
  then show ?thesis
    using f(1) asserts 1 d(5)
    by (simp add: file_read_chunk_def with_lock_def bind_run comp_simps with_dtor_def assert_this)
qed

lemma read_overrun:
  fixes f :: "'y file_obj_scheme" and s :: "('w, 'x) process_scheme"
  assumes ok: "reader_ok (docs (world s)) d f" and f: "theCachedChunkN f = - 1" "theFileLength f \<in> {0, d_length d}"
    and d: "sound_length d" "d_length d \<le> c" "c < 2 ^ 31" "0 < d_chunk d" "d_chunk d < sz" "sz \<le> d_length d"
  shows "fst (file_read E sz 0 (f\<lparr>theChunkSize := c\<rparr>, s)) = Fault OutOfBounds"
proof -
  let ?f = "f\<lparr>theChunkSize := c\<rparr>"
  have cur: "current (docs (world s)) ?f" "newest (thePath ?f) (docs (world s)) = Some d" "\<not> mutex_read ?f"
    using ok by (auto simp: reader_ok_def current_def)
  have D: "c_size_t (d_length d) = d_length d" using d by (intro c_size_t_id) auto
  obtain g s1 where "\<exists>h. fetch_length E (?f, s) = (Ret (), (?f\<lparr>theGridFile := h, theFileLength := d_length d\<rparr>, s1)) \<and>
      current (docs (world s1)) (?f\<lparr>theGridFile := h, theFileLength := d_length d\<rparr>) \<and> docs (world s1) = docs (world s)"
  proof (cases "theFileLength f = 0")
    case True
    obtain g f1 s1 where 1: "gridfile E (?f, s) = (Ret g, (f1, s1))" "shows_doc g (Some d)"
      "theGridFile f1 = Some g" "fetched (docs (world s)) ?f f1" "evolves docs cached s (docs (world s)) s1"
      using gridfile_run [OF cur(1)] cur(2) by auto
    have f1: "f1 = ?f\<lparr>theGridFile := Some g\<rparr>" using 1(3,4) by (auto simp: fetched_def)
    have "gf_content_length g = Inr (d_length d)" using 1(2) by (simp add: shows_doc_def)
    then have "fetch_length E (?f, s) = (Ret (), (?f\<lparr>theGridFile := Some g, theFileLength := d_length d\<rparr>, s1))"
      using True 1(1) D by (simp add: fetch_length_def bind_run comp_simps f1)
    moreover have "current (docs (world s)) (?f\<lparr>theGridFile := Some g, theFileLength := d_length d\<rparr>)"
      using 1(2) cur(2) by (simp add: current_def)
    ultimately show ?thesis using evolves_docs [OF 1(5)] that by metis
  next
    case False
    then have "fetch_length E (?f, s) = (Ret (), (?f, s))" "theFileLength ?f = d_length d"
      using f(2) by (simp_all add: fetch_length_def bind_run comp_simps)
    moreover from this(2) have "?f = ?f\<lparr>theGridFile := theGridFile f, theFileLength := d_length d\<rparr>" by simp
    ultimately show ?thesis using cur(1) that by metis
  qed
  then obtain h where h: "fetch_length E (?f, s) = (Ret (), (?f\<lparr>theGridFile := h, theFileLength := d_length d\<rparr>, s1))"
    "current (docs (world s1)) (?f\<lparr>theGridFile := h, theFileLength := d_length d\<rparr>)" "docs (world s1) = docs (world s)"
    by blast
  let ?h = "?f\<lparr>theGridFile := h, theFileLength := d_length d\<rparr>"
  have piece: "next_piece ?h sz 0 0 (?h, s1) = (Ret (0, sz, 0), (?h, s1))"
    by (rule first_piece [where c = c and D = "d_length d"]) (use d in simp_all)
  have over: "fst (file_read_chunk E 0 sz 0 (?h, s1)) = Fault OutOfBounds"
    by (rule chunk_overrun [of ?h c d s1]) (use cur h(2,3) f(1) d in simp_all)
  have z: "c_size_t 0 = 0" by (simp add: c_size_t_id)
  have "fst (read_loop E (Suc (nat sz)) sz 0 0 [] (?h, s1)) = Fault OutOfBounds"
    unfolding read_loop_turn using piece over d z
    by (auto simp: bind_run comp_simps split: prod.split)
  moreover have "fetch_chunk_size E (?f, s) = (Ret (), (?f, s))"
    using d by (simp add: fetch_chunk_size_def bind_run comp_simps)
  ultimately show ?thesis
    using h(1) z d by (simp add: file_read_def bind_run comp_simps del: read_loop.simps)
qed

end





section \<open>A release undoes a change of attributes\<close>

text \<open>
  The requests after \<open>open\<close> that make the object fetch its \<open>GridFile\<close>: a read in any build; none are
  needed in a build with assertions, where \<open>open\<close> itself evaluates \<open>exists()\<close>.
\<close>

definition looks :: "'w env \<Rightarrow> doc \<Rightarrow> nat \<Rightarrow> request list \<Rightarrow> bool" where
  "looks E d fh first \<longleftrightarrow> first = [] \<and> \<not> ndebug E \<or>
     (\<exists>sz. first = [Read fh sz 0] \<and> 0 \<le> sz \<and> sz < 2 ^ 63 \<and> sound_length d \<and> d_length d < 2 ^ 31 \<and>
       0 < d_chunk d \<and> d_chunk d < 2 ^ 31)"

lemma perform_all_append:
  assumes "perform_all run xs s = (Ret as, t)" "perform_all run ys t = (Ret bs, u)"
  shows "perform_all run (xs @ ys) s = (Ret (as @ bs), u)"
  using assms
proof (induction xs arbitrary: s as)
  case (Cons x xs)
  then show ?case by (auto simp: bind_def ret_def split: prod.splits outcome.splits)
qed (simp add: ret_def)

text \<open>The object after the first look: it has the \<open>GridFile\<close> of the document, and nothing is written yet.\<close>

lemma opened_and_looked:
  fixes s :: "('w, 'x) fuse_state_scheme"
  assumes m: "mounted E docs cached" and p: "p = configure_path (config E) q" "\<not> is_proc (config E) p"
    and ok: "table_ok s" and d: "newest p (docs (world s)) = Some d" and first: "looks E d (next_addr s) first"
  obtains reps s1 f g where
    "perform_all (serve E filler) (Open q # first) s = (Ret ((0, Handle (next_addr s)) # reps), s1)"
    "length reps = length first" "objects s1 (next_addr s) = Some (FILE f)" "calm docs cached (world s) (world s1)"
    "writer_ok f" "written f = []" "thePath f = p" "theGridFile f = Some g" "gf_content_type g = Inr (d_type d)"
proof -
  let ?fh = "next_addr s"
  have fh: "?fh \<noteq> 0" using ok by (simp add: table_ok_def)
  obtain f s1 where 1: "gridfs_open E q 0 s = (Ret (0, ?fh), s1)" "new_handle ?fh f s s1"
    "calm docs cached (world s) (world s1)" "reader_ok (docs (world s1)) d f" "writer_ok f"
    "written f = []" "thePath f = p" "ndebug E \<longrightarrow> f = fresh_file p" "ndebug E \<or> theGridFile f \<noteq> None" "theCurrentDataSize f = 0"
    using mounted.open_run [OF m p d] by blast
  have o1: "objects s1 ?fh = Some (FILE f)" using 1(2) by (simp add: new_handle_def)
  have d1: "newest p (docs (world s1)) = Some d" using d 1(3) by (simp add: calm_def)
  have shown: "gf_content_type g = Inr (d_type d)" if "reader_ok ds d h" "theGridFile h = Some g" "thePath h = p"
    for ds g and h :: file_obj using that by (auto simp: reader_ok_def current_def shows_doc_def)
  have open_only: "perform_all (serve E filler) [Open q] s = (Ret [(0, Handle ?fh)], s1)"
    using 1(1) by (simp add: serve_def bind_run comp_simps)
  from first consider "first = []" "\<not> ndebug E" | sz where "first = [Read ?fh sz 0]" "0 \<le> sz" "sz < 2 ^ 63"
    "sound_length d" "d_length d < 2 ^ 31" "0 < d_chunk d" "d_chunk d < 2 ^ 31"
    by (auto simp: looks_def)
  then show thesis
  proof cases
    case 1
    with \<open>ndebug E \<or> theGridFile f \<noteq> None\<close> obtain g where "theGridFile f = Some g" by auto
    with that [of "[]" s1 f g] 1 open_only o1 \<open>calm docs cached (world s) (world s1)\<close> \<open>writer_ok f\<close>
      \<open>written f = []\<close> \<open>thePath f = p\<close> shown [OF \<open>reader_ok (docs (world s1)) d f\<close>] show thesis by simp
  next
    case (2 sz)
    have off: "0 \<le> (0::int)" "0 + sz < 2 ^ 63" using 2(3) by simp_all
    have lk: "linked f" using 1(8,9) by (auto simp: linked_def file_of_entry_def)
    let ?bs = "take (nat sz) (drop (nat 0) (doc_content d))"
    from mounted.read_run [OF m fh o1 1(4) 2(4,5,6,7) off(1) 2(2) off(2)]
    obtain f2 s2 where r: "gridfs_read E sz 0 ?fh s1 = (Ret (int (length ?bs), ?bs), s2)" "file_step docs cached ?fh f2 s1 s2"
      "reader_ok (docs (world s2)) d f2" "thePath f2 = thePath f" "writer_part f2 = writer_part f"
      "linked f \<longrightarrow> theGridFile f2 \<noteq> None \<and> linked f2"
      by (elim exE conjE) (rule that)
    have r4: "thePath f2 = p" and r6: "theGridFile f2 \<noteq> None" using r(4,6) lk 1(7) by simp_all
    have w: "writer_ok f2" "written f2 = []"
      using r(3,5) 1(5,10) 2(6,7) by (auto simp: writer_part_def writer_ok_def written_def buffer_ok_def reader_ok_def)
    obtain g where g: "theGridFile f2 = Some g" using r6 by blast
    have "perform_all (serve E filler) [Read ?fh sz 0] s1 = (Ret [(int (length ?bs), Content ?bs)], s2)"
      using r(1) by (simp add: serve_def bind_run comp_simps)
    from perform_all_append [OF open_only this]
    have "perform_all (serve E filler) (Open q # first) s = (Ret [(0, Handle ?fh), (int (length ?bs), Content ?bs)], s2)"
      using 2(1) by simp
    moreover have "calm docs cached (world s) (world s2)"
      using 1(3) r(2) by (auto simp: file_step_def calm_def intro: map_le_trans)
    moreover have "objects s2 ?fh = Some (FILE f2)" using r(2) by (simp add: file_step_def)
    ultimately show thesis
      using that [of "[(int (length ?bs), Content ?bs)]" s2 f2 g] 2(1) w r4 g shown [OF r(3) g r4] by simp
  qed
qed

text \<open>C35: The release of a written file stores the content with the attributes that the file had when
  its object fetched the \<open>GridFile\<close>: a \<open>chmod\<close> of the path in between answers 0 and is undone. The object
  fetches it when it is opened only in a build with assertions; in every build it does at the first read
  through the handle. (In a build without assertions and without a read it is fetched at the release
  only; the theorem does not speak of that case.)\<close>

theorem release_undoes_chmod:
  fixes s :: "('w, 'x) fuse_state_scheme"
  assumes m: "mounted E docs cached" and p: "p = configure_path (config E) q"
    and np: "\<not> is_proc (config E) p" and ok: "table_ok s" and co: "coherent E docs cached s"
    and wf: "wf_docs (docs (world s))" and d: "newest p (docs (world s)) = Some d"
    and first: "looks E d (next_addr s) first"
    and a: "parse_content_type (config E) (d_type d) = Ret a" "at_time a = Some t" "time_fits t"
    and len: "length data < 2 ^ 31"
  shows "\<exists>reps s' d'. perform_all (serve E filler)
      ((Open q # first) @ [Chmod q mode, Write (next_addr s) data 0, Release q (next_addr s)]) s =
      (Ret (((0, Handle (next_addr s)) # reps) @ [(0, Nothing), (int (length data), Nothing), (0, Nothing)]), s') \<and>
    length reps = length first \<and> newest p (docs (world s')) = Some d' \<and> d_type d' = d_type d \<and> d_data d' = data"
proof -
  let ?fh = "next_addr s"
  have b: "backend E docs cached" using m by (simp add: mounted_def)
  have fh: "?fh \<noteq> 0" using ok by (simp add: table_ok_def)
  obtain reps s1 f g where 1:
    "perform_all (serve E filler) (Open q # first) s = (Ret ((0, Handle ?fh) # reps), s1)"
    "length reps = length first" "objects s1 ?fh = Some (FILE f)" "calm docs cached (world s) (world s1)"
    "writer_ok f" "written f = []" "thePath f = p" and g: "theGridFile f = Some g" "gf_content_type g = Inr (d_type d)"
    by (rule opened_and_looked [OF m p np ok d first])
  have dd: "docs (world s1) = docs (world s)" using 1(4) by (simp add: calm_def)
  have co1: "coherent E docs cached s1" by (rule mounted.coherent_step [OF m co 1(4)])
  have d1: "newest p (docs (world s1)) = Some d" and wf1: "wf_docs (docs (world s1))" using d wf dd by simp_all
  have at: "at_time (a\<lparr>at_mode := mode\<rparr>) = Some t" using a(2) by simp
  obtain w ct where 2: "gridfs_chmod E q mode s1 = (Ret 0, s1\<lparr>world := w\<rparr>)"
    "docs w = update_docs (d_id d) (SetContentType ct) (docs (world s1))"
    "coherent E docs cached (s1\<lparr>world := w\<rparr>)"
    using backend.attrs_callback_docs [OF b backend.entry_chmod_changes [OF b, of mode] backend.new_entry_builds [OF b, of p]
        _ _ co1 wf1 d1 a(1) at a(3)]
    unfolding backend.change_callbacks(1) [OF b] p [symmetric] by auto
  let ?s2 = "s1\<lparr>world := w\<rparr>"
  have o2: "objects ?s2 ?fh = Some (FILE f)" using 1(3) by simp
  have room: "length (written f) + length data < 2 ^ 31" using len 1(6) by simp
  obtain f3 s3 where 3: "gridfs_write E data 0 ?fh ?s2 = (Ret (int (length data)), s3)"
    "file_step docs cached ?fh f3 ?s2 s3" "written f3 = data" "writer_ok f3" "theHasChanges f3"
    "thePath f3 = p" "theGridFile f3 = Some g"
    using mounted.write_run [OF m fh o2 1(5) room] 1(6,7) g(1) by auto
  have o3: "objects s3 ?fh = Some (FILE f3)" using 3(2) by (simp add: file_step_def)
  have co3: "coherent E docs cached s3"
    using mounted.coherent_step [OF m 2(3), of s3] 3(2) by (simp add: file_step_def)
  have same: "f3 = f3\<lparr>theGridFile := Some g\<rparr>" using 3(7) by simp
  have g3: "gridfile E (f3, s3) = (Ret g, (f3\<lparr>theGridFile := Some g\<rparr>, s3))"
    using 3(7) same by (simp add: gridfile_def bind_run comp_simps)
  have ev: "evolves docs cached s3 (docs (world s3)) s3" by (simp add: evolves_def)
  obtain d4 s4 where 4: "gridfs_release E q ?fh s3 = (Ret 0, s4)" "docs (world s4) = docs (world s3) @ [d4]"
    "stored_doc p (d_type d) (written f3) (docs (world s3)) d4"
    using mounted.release_fetched [OF m p fh o3 3(6,5,4) g3 g(2) ev co3] by blast
  have "perform_all (serve E filler) [Chmod q mode, Write ?fh data 0, Release q ?fh] s1 =
      (Ret [(0, Nothing), (int (length data), Nothing), (0, Nothing)], s4)"
    using 2(1) 3(1) 4(1) by (simp add: serve_def no_payload_def bind_run comp_simps)
  note perform_all_append [OF 1(1) this]
  moreover have "newest p (docs (world s4)) = Some d4" "d_type d4 = d_type d" "d_data d4 = data"
    using 4(2,3) 3(3) by (simp_all add: stored_doc_def newest_snoc)
  ultimately show ?thesis using 1(2) by blast
qed

text \<open>The environment of a build with assertions.\<close>

definition debug_env :: "ref_world env" where
  "debug_env = (ref_env [])\<lparr>ndebug := False\<rparr>"

lemma debug_mounted: "mounted debug_env ref_docs w_cache"
  using ref_mounted [where pre = "[]"]
  by (simp add: debug_env_def mounted_def backend_def mounted_axioms_def mongo_server_def backend_axioms_def)

text \<open>In the release build with a read, and in the one with assertions without.\<close>

theorem release_undoes_chmod_witness:
  "(\<exists>r s' d'. perform_all (serve (ref_env []) (\<lambda>n w. w)) [Open ''/a'', Read 1 5 0,
        Chmod ''/a'' (S_IFREG OR 0x180), Write 1 ''new'' 0, Release ''/a'' 1] demo =
      (Ret [(0, Handle 1), r, (0, Nothing), (3, Nothing), (0, Nothing)], s') \<and>
    newest ''/a'' (ref_docs (world s')) = Some d' \<and>
    d_type d' = print_content_type (S_IFREG OR 0x1A4) 1000 1000 0 \<and> d_data d' = ''new'') \<and>
   (\<exists>s' d'. perform_all (serve debug_env (\<lambda>n w. w))
      [Open ''/a'', Chmod ''/a'' (S_IFREG OR 0x180), Write 1 ''new'' 0, Release ''/a'' 1] demo =
      (Ret [(0, Handle 1), (0, Nothing), (3, Nothing), (0, Nothing)], s') \<and>
    newest ''/a'' (ref_docs (world s')) = Some d' \<and>
    d_type d' = print_content_type (S_IFREG OR 0x1A4) 1000 1000 0 \<and> d_data d' = ''new'')"
proof -
  let ?d = "plain_doc 1 ''/a'' (S_IFREG OR 0x1A4) ''hello''"
  let ?a = "\<lparr>at_mode = S_IFREG OR 0x1A4, at_uid = 1000, at_gid = 1000, at_time = Some 0\<rparr>"
  have env: "config debug_env = config (ref_env [])" by (simp add: debug_env_def)
  have co: "coherent debug_env ref_docs w_cache demo"
    using demo_coherent [of "[]"] by (simp add: debug_env_def coherent_def)
  have n: "next_addr demo = 1" by (simp add: demo_def)
  have d: "d_type ?d = print_content_type (S_IFREG OR 0x1A4) 1000 1000 0" by (simp add: plain_doc_def)
  have first: "looks (ref_env []) ?d (next_addr demo) [Read 1 5 0]" "looks debug_env ?d (next_addr demo) []"
    by (simp_all add: looks_def n sound_length_def MONGO_DEFAULT_CHUNK_SIZE_def debug_env_def)
  have a: "parse_content_type (config (ref_env [])) (d_type ?d) = Ret ?a" by simp
  from release_undoes_chmod [OF ref_mounted _ _ demo_table_ok demo_coherent demo_wf demo_newest(1) first(1) a,
      where q = "''/a''" and t = 0 and data = "''new''" and filler = "\<lambda>n w. w" and mode = "S_IFREG OR 0x180"]
    release_undoes_chmod [OF debug_mounted _ _ demo_table_ok co demo_wf demo_newest(1) first(2) a [folded env],
      where q = "''/a''" and t = 0 and data = "''new''" and filler = "\<lambda>n w. w" and mode = "S_IFREG OR 0x180"]
  show ?thesis
    by (fastforce simp: env plain_path time_fits_def n d length_Suc_conv simp del: perform_all.simps)
qed

end
