(* ===== verification/Directory_Theorems.thy ===== *)
theory Directory_Theorems
  imports Attribute_Theorems
begin

text \<open>
  What holds of directories: the regular expression that selects the children, the listing
  from \<open>opendir\<close> to \<open>releasedir\<close>, and making and removing entries.
\<close>

section \<open>A listing as one program\<close>

definition ls :: "'w env \<Rightarrow> (string \<Rightarrow> 'w \<Rightarrow> 'w) \<Rightarrow> string \<Rightarrow> ('w, 'x, int) callback" where
  "ls E filler path = bind (gridfs_opendir E path 0) (\<lambda>(n, fh).
     if n \<noteq> 0 then ret n
     else bind (gridfs_readdir E filler fh) (\<lambda>m. bind (gridfs_releasedir E fh) (\<lambda>_. ret m)))"

text \<open>C11: Listing an existing directory whose path has no opening brace, from \<open>opendir\<close> over
  \<open>readdir\<close> to \<open>releasedir\<close>: the caller gets the two dot entries and then the name of each child
  exactly once, and handles and pools are as before.\<close>

theorem ls_lists_children:
  fixes s :: "('w, 'x) fuse_state_scheme"
  assumes m: "mounted E docs cached" and p: "p = configure_path (config E) path"
    and np: "\<not> is_proc (config E) p" and ok: "table_ok s"
    and d: "newest p (docs (world s)) \<noteq> None" and brace: "CHR ''{'' \<notin> set p"
    and names: "c_names (docs (world s))"
  shows "\<exists>ns w s'. ls E filler path s = (Ret 0, s') \<and> distinct ns \<and>
    set ns = {nm. CHR ''/'' \<notin> set nm \<and> (\<exists>e \<in> set (docs (world s)). d_name e = p @ ''/'' @ nm)} \<and>
    calm docs cached (world s) w \<and> world s' = fills filler (''.'' # ''..'' # ns) w \<and>
    objects s' = objects s \<and> conns s' = conns s \<and> caches s' = caches s"
proof -
  obtain e w where 1: "gridfs_opendir E path 0 s = (Ret (0, next_addr s), s\<lparr>world := w,
      conns := Suc (conns s), objects := (objects s)(next_addr s \<mapsto> DIRECTORY e),
      next_addr := Suc (next_addr s)\<rparr>)" "thePath e = p" "calm docs cached (world s) w"
    using mounted.opendir_run(1) [OF m p np d] by blast
  let ?s1 = "s\<lparr>world := w, conns := Suc (conns s), objects := (objects s)(next_addr s \<mapsto> DIRECTORY e),
      next_addr := Suc (next_addr s)\<rparr>"
  have fh: "next_addr s \<noteq> 0" "objects ?s1 (next_addr s) = Some (DIRECTORY e)"
    using ok by (simp_all add: table_ok_def)
  have d1: "docs w = docs (world s)" using 1(3) by (simp add: calm_def)
  have "CHR ''{'' \<notin> set (thePath e)" "c_names (docs (world ?s1))" using brace names 1(2) d1 by simp_all
  from mounted.readdir_run [where filler = filler, OF m fh this] obtain ns v where 2:
    "gridfs_readdir E filler (next_addr s) ?s1 = (Ret 0, ?s1\<lparr>world := fills filler (''.'' # ''..'' # ns) v\<rparr>)"
    "distinct ns" "set ns = children p (docs (world s))" "calm docs cached w v"
    using 1(2) d1 by auto
  have fresh: "(objects s)(next_addr s := None) = objects s"
    using table_ok_fresh [OF ok] by (simp add: fun_upd_idem)
  have "ls E filler path s = (Ret 0, s\<lparr>next_addr := Suc (next_addr s),
      world := fills filler (''.'' # ''..'' # ns) v\<rparr>)"
    using 1(1) 2(1) fh(1) fresh
    by (simp add: ls_def bind_run comp_simps gridfs_releasedir_def catch_with_def delete_handle_def
        destroy_handle_def destroy_object_def drop_connection_def)
  moreover have "calm docs cached (world s) v" using 1(3) 2(4) by (auto simp: calm_def intro: map_le_trans)
  moreover have "children p (docs (world s)) =
      {nm. CHR ''/'' \<notin> set nm \<and> (\<exists>e \<in> set (docs (world s)). d_name e = p @ ''/'' @ nm)}"
    by (auto simp: children_def child_def)
  ultimately show ?thesis using 2(2,3)
    by (intro exI [of _ ns] exI [of _ v]) auto
qed

theorem ls_lists_children_witness:
  "\<exists>ns w s'. ls (ref_env []) ref_fill ''/d'' demo = (Ret 0, s') \<and>
    distinct ns \<and> set ns = {''x''} \<and>
    world s' = fills ref_fill (''.'' # ''..'' # ns) w"
proof -
  have c: "c_names (ref_docs (world demo))" by (simp add: c_names_def demo_docs)
  have "{nm. CHR ''/'' \<notin> set nm \<and> (\<exists>e \<in> set (ref_docs (world demo)). d_name e = ''/d'' @ ''/'' @ nm)} = {''x''}"
    by (auto simp: demo_docs)
  then show ?thesis
    using ls_lists_children [OF ref_mounted _ _ demo_table_ok _ _ c, of "''/d''" "[]" "''/d''"
        ref_fill]
    by (fastforce simp: plain_path)
qed

section \<open>The regular expression\<close>

text \<open>C20: For a path without an opening brace, the expression that \<open>list\<close> builds is well formed
  and matches exactly the paths of the children: the path, a slash, and a name without one.\<close>

theorem list_regex_matches_children:
  assumes "CHR ''{'' \<notin> set path"
  shows "\<exists>pat. parse_pcre (list_regex path) = Some pat \<and>
    (\<forall>q. pcre_match pat q \<longleftrightarrow> (\<exists>nm. q = path @ ''/'' @ nm \<and> CHR ''/'' \<notin> set nm))"
  using parse_list_regex [OF assms] match_child by (auto simp: child_def)

theorem list_regex_matches_children_witness:
  "\<exists>pat. parse_pcre (list_regex ''/a.b*'') = Some pat \<and> pcre_match pat ''/a.b*/x'' \<and>
    \<not> pcre_match pat ''/aXbb/x''"
  using list_regex_matches_children [of "''/a.b*''"] by auto

text \<open>An opening brace is not quoted. For the directory \<open>/a{2}\<close> the expression matches the
  entries of \<open>/aa\<close> and not its own.\<close>

theorem list_regex_misreads_braces:
  "\<exists>pat. parse_pcre (list_regex ''/a{2}'') = Some pat \<and> pcre_match pat ''/aa/x'' \<and>
    \<not> pcre_match pat ''/a{2}/x''"
proof -
  have "parse_pcre (list_regex ''/a{2}'') = Some ([(Lit CHR ''/'', 1, Some 1), (Lit CHR ''a'', 2, Some 2),
      (Lit CHR ''/'', 1, Some 1), (Except CHR ''/'', 0, None)], True)"
    by code_simp
  moreover have "pcre_match ([(Lit CHR ''/'', 1, Some 1), (Lit CHR ''a'', 2, Some 2),
      (Lit CHR ''/'', 1, Some 1), (Except CHR ''/'', 0, None)], True) ''/aa/x''"
    by code_simp
  moreover have "\<not> pcre_match ([(Lit CHR ''/'', 1, Some 1), (Lit CHR ''a'', 2, Some 2),
      (Lit CHR ''/'', 1, Some 1), (Except CHR ''/'', 0, None)], True) ''/a{2}/x''"
    by code_simp
  ultimately show ?thesis by blast
qed

section \<open>Removing\<close>

text \<open>C14: \<open>rmdir\<close> of a path without an opening brace answers \<open>- ENOENT\<close> without a document,
  \<open>- ENOTEMPTY\<close> when there is a child, and changes nothing then; otherwise 0, and exactly the
  documents of the path are gone. The cache stays right.\<close>

theorem rmdir_refuses_children:
  fixes s :: "('w, 'x) fuse_state_scheme"
  assumes "backend E docs cached" "p = configure_path (config E) path" "coherent E docs cached s"
    and "CHR ''{'' \<notin> set p"
  shows "\<exists>w. gridfs_rmdir E path s =
      (Ret (if newest p (docs (world s)) = None then - ENOENT
            else if children p (docs (world s)) \<noteq> {} then - ENOTEMPTY else 0), s\<lparr>world := w\<rparr>) \<and>
     docs w = (if newest p (docs (world s)) = None \<or> children p (docs (world s)) \<noteq> {}
       then docs (world s) else filter (\<lambda>d. d_name d \<noteq> p) (docs (world s))) \<and>
     coherent E docs cached (s\<lparr>world := w\<rparr>)"
  by (rule backend.rmdir_run [OF assms])

theorem rmdir_refuses_children_witness:
  "\<exists>w. gridfs_rmdir (ref_env []) ''/d'' demo = (Ret (- ENOTEMPTY), demo\<lparr>world := w\<rparr>) \<and>
    ref_docs w = ref_docs (world demo)"
proof -
  have "''x'' \<in> children ''/d'' (ref_docs (world demo))" by (auto simp: children_def child_def demo_docs)
  then have "children ''/d'' (ref_docs (world demo)) \<noteq> {}" by blast
  then show ?thesis
    using rmdir_refuses_children [OF ref_backend _ demo_coherent, of "''/d''" "[]" "''/d''"]
    by (auto simp: plain_path)
qed

text \<open>C31: With the unquoted brace \<open>rmdir\<close> removes the directory \<open>/a{2}\<close> though it has an entry, when
  \<open>/aa\<close> has none: the entry stays behind without its directory.\<close>

theorem rmdir_orphans_below_braces:
  fixes s :: "('w, 'x) fuse_state_scheme"
  assumes b: "backend E docs cached" and p: "''/a{2}'' = configure_path (config E) path"
    and co: "coherent E docs cached s" and d: "newest ''/a{2}'' (docs (world s)) \<noteq> None"
    and "\<forall>d \<in> set (docs (world s)). \<forall>nm. d_name d \<noteq> ''/aa/'' @ nm"
    and e: "e \<in> set (docs (world s))" "d_name e = ''/a{2}/x''"
  shows "\<exists>w. gridfs_rmdir E path s = (Ret 0, s\<lparr>world := w\<rparr>) \<and> newest ''/a{2}'' (docs w) = None \<and>
    e \<in> set (docs w)"
proof -
  let ?items = "[(Lit CHR ''/'', 1, Some 1), (Lit CHR ''a'', 2, Some 2),
      (Lit CHR ''/'', 1, Some 1), (Except CHR ''/'', 0, None)]"
  have pat: "parse_pcre (list_regex ''/a{2}'') = Some (?items, True)" by code_simp
  have twice: "match_items ((Lit CHR ''a'', 2, Some 2) # items) b q \<longleftrightarrow>
      (\<exists>r. q = CHR ''a'' # CHR ''a'' # r \<and> match_items items b r)" for items b q
    by (auto simp: match_items.simps(2) numeral_2_eq_2 split: list.splits)
  have "\<exists>nm. q = ''/aa/'' @ nm" if "pcre_match (?items, True) q" for q
    using that by (auto simp: pcre_match_def twice match_once simp del: One_nat_def)
  then have "\<not> matched (?items, True) (docs (world s))"
    using assms(5) unfolding matched_def by blast
  then obtain w where w: "gridfs_rmdir E path s = (Ret 0, s\<lparr>world := w\<rparr>)"
    "docs w = filter (\<lambda>d. d_name d \<noteq> ''/a{2}'') (docs (world s))"
    using backend.rmdir_pattern_run [OF b p co pat] d by auto
  then have "newest ''/a{2}'' (docs w) = None" "e \<in> set (docs w)" using e by (simp_all add: newest_remove)
  with w(1) show ?thesis by blast
qed

theorem rmdir_orphans_below_braces_witness:
  "\<exists>w. gridfs_rmdir (ref_env []) ''/a{2}'' (start_of (world_of [plain_doc 1 ''/a{2}'' S_IFDIR [],
      plain_doc 2 ''/a{2}/x'' S_IFREG []])) = (Ret 0, (start_of (world_of [plain_doc 1 ''/a{2}'' S_IFDIR [],
      plain_doc 2 ''/a{2}/x'' S_IFREG []]))\<lparr>world := w\<rparr>) \<and> newest ''/a{2}'' (ref_docs w) = None \<and>
    plain_doc 2 ''/a{2}/x'' S_IFREG [] \<in> set (ref_docs w)"
  by (rule rmdir_orphans_below_braces [OF ref_backend _ start_coherent])
    (simp_all add: configure_path_def world_of_docs newest_def)

text \<open>After \<open>unlink\<close> of an existing path \<open>getattr\<close> answers \<open>- ENOENT\<close>, whatever the cache held,
  and every other path has the documents it had.\<close>

theorem unlink_then_getattr:
  fixes s :: "('w, 'x) fuse_state_scheme"
  assumes b: "backend E docs cached" and p: "p = configure_path (config E) path"
    and np: "\<not> is_proc (config E) p" and co: "coherent E docs cached s"
    and d: "newest p (docs (world s)) \<noteq> None"
  shows "\<exists>s1 s2. gridfs_unlink E path s = (Ret 0, s1) \<and>
    gridfs_getattr E path buf s1 = (Ret (- ENOENT, None), s2) \<and>
    docs (world s2) = filter (\<lambda>d. d_name d \<noteq> p) (docs (world s))"
proof -
  obtain w where w: "gridfs_unlink E path s = (Ret 0, s\<lparr>world := w\<rparr>)"
    "docs w = filter (\<lambda>d. d_name d \<noteq> p) (docs (world s))" "coherent E docs cached (s\<lparr>world := w\<rparr>)"
    using backend.unlink_run [OF b p co] d by auto
  then obtain w' where "gridfs_getattr E path buf (s\<lparr>world := w\<rparr>) =
      (Ret (- ENOENT, None), (s\<lparr>world := w\<rparr>)\<lparr>world := w'\<rparr>)" "docs w' = docs w"
    using backend.getattr_run(1) [OF b w(3) p np, of buf] by (auto simp: newest_remove)
  with w(1,2) show ?thesis by auto
qed

theorem unlink_then_getattr_witness:
  "\<exists>s1 s2. gridfs_unlink (ref_env []) ''/a'' demo = (Ret 0, s1) \<and>
    gridfs_getattr (ref_env []) ''/a'' zero_stat s1 = (Ret (- ENOENT, None), s2)"
  using unlink_then_getattr [OF ref_backend _ _ demo_coherent, of "''/a''" "[]" "''/a''" zero_stat]
  by (auto simp: plain_path)

section \<open>Making\<close>

lemma directory_bit: "(S_IFDIR OR m) AND S_IFDIR = S_IFDIR"
  by (rule bit_word_eqI) (auto simp: bit_simps)

text \<open>A directory made by \<open>mkdir\<close> at a free path has the mode asked for with the directory
  bit, the default owner, two links and a size of 4096, as the next \<open>getattr\<close> tells.\<close>

theorem mkdir_then_getattr:
  fixes s :: "('w, 'x) fuse_state_scheme"
  assumes b: "backend E docs cached" and p: "p = configure_path (config E) path"
    and np: "\<not> is_proc (config E) p" and co: "coherent E docs cached s"
    and d: "newest p (docs (world s)) = None"
  shows "\<exists>s1 s2 t. gridfs_mkdir E path mode s = (Ret 0, s1) \<and>
    gridfs_getattr E path buf s1 = (Ret (0, Some \<lparr>st_mode = S_IFDIR OR mode, st_nlink = 2,
      st_uid = default_uid (config E), st_gid = default_gid (config E), st_size = 4096,
      st_atime = Some t, st_mtime = Some t, st_ctime = Some t\<rparr>), s2) \<and>
    only_path p (docs (world s)) (docs (world s2))"
proof -
  obtain d w where 1: "gridfs_mkdir E path mode s = (Ret 0, s\<lparr>world := w\<rparr>)"
    "docs w = docs (world s) @ [d]"
    "new_doc p (S_IFDIR OR mode) (default_uid (config E)) (default_gid (config E)) [] (docs (world s)) d"
    "cached w \<subseteq>\<^sub>m cached (world s)"
    using backend.mkdir_run [OF b p] by blast
  then have dn: "d_name d = p" by (auto simp: new_doc_def stored_doc_def)
  have "S_IFDIR \<noteq> (0 :: u32)" by (simp add: S_IFDIR_def)
  then obtain t where st: "stat_of_doc (config E) d = Ret \<lparr>st_mode = S_IFDIR OR mode, st_nlink = 2,
      st_uid = default_uid (config E), st_gid = default_gid (config E), st_size = 4096,
      st_atime = Some t, st_mtime = Some t, st_ctime = Some t\<rparr>"
    using new_doc_stat [OF 1(3), of "config E"] by (auto simp: directory_bit)
  have only: "only_path p (docs (world s)) (docs w)" using only_path_snoc [OF dn] 1(2) by simp
  have "coherent E docs cached (s\<lparr>world := w\<rparr>)"
    by (rule backend.coherent_added [OF b co d]) (use only 1(4) in simp_all)
  then obtain w' where "gridfs_getattr E path buf (s\<lparr>world := w\<rparr>) = (Ret (0, Some \<lparr>st_mode = S_IFDIR OR mode,
      st_nlink = 2, st_uid = default_uid (config E), st_gid = default_gid (config E), st_size = 4096,
      st_atime = Some t, st_mtime = Some t, st_ctime = Some t\<rparr>), (s\<lparr>world := w\<rparr>)\<lparr>world := w'\<rparr>)"
    "docs w' = docs w"
    using backend.getattr_run(2) [OF b _ p np _ st, of "s\<lparr>world := w\<rparr>" buf] 1(2) dn
    by (auto simp: newest_snoc)
  with 1(1) only show ?thesis by auto
qed

theorem mkdir_then_getattr_witness:
  "\<exists>s1 s2 t. gridfs_mkdir (ref_env []) ''/b'' 0x1ED demo = (Ret 0, s1) \<and>
    gridfs_getattr (ref_env []) ''/b'' zero_stat s1 = (Ret (0, Some \<lparr>st_mode = S_IFDIR OR 0x1ED,
      st_nlink = 2, st_uid = 1000, st_gid = 1000, st_size = 4096,
      st_atime = Some t, st_mtime = Some t, st_ctime = Some t\<rparr>), s2)"
  using mkdir_then_getattr [OF ref_backend _ _ demo_coherent, of "''/b''" "[]" "''/b''" "0x1ED" zero_stat]
  by (auto simp: plain_path)

end
