(* ===== verification/Proc_Theorems.thy ===== *)
theory Proc_Theorems
  imports Directory_Theorems
begin

text \<open>
  What holds of the \<open>/proc\<close> tree: which paths belong to it, how memcached servers are added
  and listed through it, and where its handlers fail.
\<close>

section \<open>Paths\<close>

text \<open>A path belongs to the tree when it is the prefix of the configuration with \<open>/proc\<close>, or
  continues that with a slash; \<open>/process\<close> does not belong to it.\<close>

theorem proc_paths:
  "is_proc c p \<longleftrightarrow> (\<exists>r. p = path_prefix c @ ''/proc'' @ r \<and> (r = [] \<or> hd r = CHR ''/''))"
  unfolding is_proc_iff
proof
  assume "p = path_prefix c @ ''/proc'' \<or> (\<exists>r. p = path_prefix c @ ''/proc'' @ ''/'' @ r)"
  then show "\<exists>r. p = path_prefix c @ ''/proc'' @ r \<and> (r = [] \<or> hd r = CHR ''/'')"
    by (elim disjE exE) (rule exI [of _ "[]"], simp, rule exI [of _ "''/'' @ _"], simp)
next
  assume "\<exists>r. p = path_prefix c @ ''/proc'' @ r \<and> (r = [] \<or> hd r = CHR ''/'')"
  then obtain r where r: "p = path_prefix c @ ''/proc'' @ r" "r = [] \<or> hd r = CHR ''/''" by blast
  show "p = path_prefix c @ ''/proc'' \<or> (\<exists>r. p = path_prefix c @ ''/proc'' @ ''/'' @ r)"
  proof (cases r)
    case (Cons x xs)
    with r show ?thesis by (intro disjI2 exI [of _ xs]) simp
  qed (use r in simp)
qed

definition instances :: "gridfs_config \<Rightarrow> string" where
  "instances c = path_prefix c @ ''/proc/instances/''"

lemma instances_proc: "is_proc c (instances c @ name)"
  unfolding is_proc_iff instances_def by (intro disjI2 exI [of _ "''instances/'' @ name"]) simp

lemma instances_server:
  "thePrefixLength (new_proc c p) = length (instances c)" "proc_path (new_proc c p) = p"
  by (simp_all add: new_proc_def Let_def instances_def)

section \<open>Adding servers\<close>

context server_list
begin

lemma proc_create_new:
  assumes "length (proc_path pr) \<ge> thePrefixLength pr"
    and "parse_server (drop (thePrefixLength pr) (proc_path pr)) = Some (n, p)"
    and "plain_server (n, c_uint16 p)" "(n, p) \<notin> set (servers (world s))"
  shows "\<exists>w. proc_create E pr s = (Ret True, s\<lparr>world := w\<rparr>) \<and>
    servers w = servers (world s) @ [(n, c_uint16 p)]"
proof -
  have "c_str n = n" using assms(3) by (simp add: plain_server_def c_str_id)
  then have "proc_create E pr s = (Ret True, s\<lparr>world := server_add E n (c_uint16 p) (world s)\<rparr>)"
    using assms(1,2,4) known_server_iff [of n p "world s"]
    by (simp add: proc_create_def bind_run c_call_def comp_simps)
  moreover have "servers (server_add E n (c_uint16 p) (world s)) = servers (world s) @ [(n, c_uint16 p)]"
    using add [OF assms(3), of "world s"] by simp
  ultimately show ?thesis by (intro exI [of _ "server_add E n (c_uint16 p) (world s)"] conjI)
qed

lemma open_server_run:
  fixes s :: "('w, 'x) fuse_state_scheme"
  assumes q: "configure_path (config E) q = instances (config E) @ name"
    and sv: "parse_server name = Some (n, p)" "plain_server (n, c_uint16 p)"
    and new: "(n, p) \<notin> set (servers (world s))"
  shows "\<exists>s'. gridfs_open E q fh s = (Ret (0, next_addr s), s') \<and>
    servers (world s') = servers (world s) @ [(n, c_uint16 p)] \<and> next_addr s' = Suc (next_addr s) \<and>
    conns s' = conns s"
proof -
  let ?pr = "new_proc (config E) (instances (config E) @ name)"
  obtain w where "proc_create E ?pr s = (Ret True, s\<lparr>world := w\<rparr>)"
    "servers w = servers (world s) @ [(n, c_uint16 p)]"
    using proc_create_new [of ?pr n p s] sv new by (auto simp: instances_server)
  then show ?thesis
    by (simp add: gridfs_open_def q Let_def instances_proc bind_run catch_with_def release_handle_def comp_simps)
qed

lemma open_known_server_run:
  fixes s :: "('w, 'x) fuse_state_scheme"
  assumes q: "configure_path (config E) q = instances (config E) @ name"
    and sv: "parse_server name = Some sv" "plain_server sv" "sv \<in> set (servers (world s))"
  shows "\<exists>s'. gridfs_open E q fh s = (Ret (- ENAMETOOLONG, next_addr s), s') \<and>
    servers (world s') = servers (world s)"
proof -
  let ?pr = "new_proc (config E) (instances (config E) @ name)"
  obtain s1 where 1: "proc_create E ?pr s = (Ret False, s1)" "servers (world s1) = servers (world s)"
    using proc_create_run [of ?pr sv s] sv by (auto simp: instances_server)
  obtain n p where "sv = (n, p)" by (cases sv)
  then have "s1 = s" using 1(1) sv known_server_iff [of n p "world s"]
    by (auto simp: proc_create_def instances_server bind_run c_call_def comp_simps split: if_splits)
  with 1 show ?thesis
    by (simp add: gridfs_open_def q Let_def instances_proc bind_run catch_with_def release_handle_def comp_simps)
qed

end

text \<open>C26: Opening \<open>/proc/instances/host:port\<close>, as the directory lists it, adds that server at the
  end of the list and answers 0, once: opening it again answers \<open>- ENAMETOOLONG\<close> and adds
  nothing.\<close>

theorem open_adds_server_once:
  fixes s :: "('w, 'x) fuse_state_scheme"
  assumes l: "server_list E servers" and sv: "plain_server sv"
    and q: "configure_path (config E) path = instances (config E) @ show_server sv"
    and new: "sv \<notin> set (servers (world s))"
  shows "\<exists>s1 s2. gridfs_open E path 0 s = (Ret (0, next_addr s), s1) \<and>
    servers (world s1) = servers (world s) @ [sv] \<and>
    gridfs_open E path 0 s1 = (Ret (- ENAMETOOLONG, next_addr s1), s2) \<and>
    servers (world s2) = servers (world s) @ [sv]"
proof -
  obtain n p where np: "sv = (n, p)" by (cases sv)
  have u: "c_uint16 p = p" using sv np by (auto simp: plain_server_def intro!: c_uint16_id)
  note parse = parse_show_server [OF sv]
  obtain s1 where 1: "gridfs_open E path 0 s = (Ret (0, next_addr s), s1)"
    "servers (world s1) = servers (world s) @ [sv]"
    using server_list.open_server_run [OF l q, of n p s 0] parse sv new by (auto simp: np u)
  then obtain s2 where "gridfs_open E path 0 s1 = (Ret (- ENAMETOOLONG, next_addr s1), s2)"
    "servers (world s2) = servers (world s1)"
    using server_list.open_known_server_run [OF l q parse sv, of s1 0] by auto
  with 1 show ?thesis by auto
qed

lemma ref_server_list: "server_list (ref_env pre) w_servers"
  by (rule ref_servers.server_list_axioms)

theorem open_adds_server_once_witness:
  "\<exists>s1 s2. gridfs_open (ref_env []) ''/proc/instances/cache:11212'' 0 demo = (Ret (0, 1), s1) \<and>
    w_servers (world s1) = [(''cache'', 11212)] \<and>
    gridfs_open (ref_env []) ''/proc/instances/cache:11212'' 0 s1 = (Ret (- ENAMETOOLONG, next_addr s1), s2)"
proof -
  have sv: "plain_server (''cache'', 11212)" by (simp add: plain_server_def)
  have shown: "show_server (''cache'', 11212) = ''cache:11212''"
    by (simp add: show_server_def dec_int_def dec.simps digit_chars)
  have "configure_path (config (ref_env [])) ''/proc/instances/cache:11212'' =
      instances (config (ref_env [])) @ show_server (''cache'', 11212)"
    unfolding shown by (simp add: configure_path_def instances_def)
  moreover have "w_servers (world demo) = []" "next_addr demo = 1" by (simp_all add: demo_def world_of_def)
  ultimately show ?thesis
    using open_adds_server_once [OF ref_server_list sv, of "[]" "''/proc/instances/cache:11212''" demo] by auto
qed

text \<open>The bound of the port: it is compared as an \<open>int\<close> and stored with 16 bits. A port of
  \<open>2 ^ 16\<close> or more is never found again, and every opening adds the same server once more.\<close>

theorem wide_port_is_added_again:
  fixes s :: "('w, 'x) fuse_state_scheme"
  assumes l: "server_list E servers"
    and q: "configure_path (config E) path = instances (config E) @ host @ '':'' @ dec_int port"
    and port: "2 ^ 16 \<le> port" "port < 2 ^ 31" and sv: "plain_server (host, port mod 2 ^ 16)"
    and all: "\<forall>sv \<in> set (servers (world s)). snd sv < 2 ^ 16"
  shows "\<exists>s1 s2. gridfs_open E path 0 s = (Ret (0, next_addr s), s1) \<and>
    gridfs_open E path 0 s1 = (Ret (0, next_addr s1), s2) \<and>
    servers (world s2) = servers (world s) @ [(host, port mod 2 ^ 16), (host, port mod 2 ^ 16)]"
proof -
  have u: "c_uint16 port = port mod 2 ^ 16" by (simp add: c_uint16_def take_bit_eq_mod)
  have "c_int port = port" using port by (intro c_int_id) simp_all
  then have parse: "parse_server (host @ '':'' @ dec_int port) = Some (host, port)"
    using parse_server_entry [of port host] port by simp
  have new: "(host, port) \<notin> set (servers (world t))" if "\<forall>sv \<in> set (servers (world t)). snd sv < 2 ^ 16"
    for t :: "('w, 'x) fuse_state_scheme"
    using that port(1) by fastforce
  obtain s1 where 1: "gridfs_open E path 0 s = (Ret (0, next_addr s), s1)"
    "servers (world s1) = servers (world s) @ [(host, port mod 2 ^ 16)]"
    using server_list.open_server_run [OF l q parse _ new [OF all], of 0] sv by (auto simp: u)
  have "port mod 2 ^ 16 < 2 ^ 16" by simp
  then have "\<forall>sv \<in> set (servers (world s1)). snd sv < 2 ^ 16" using all 1(2) by auto
  then obtain s2 where "gridfs_open E path 0 s1 = (Ret (0, next_addr s1), s2)"
    "servers (world s2) = servers (world s1) @ [(host, port mod 2 ^ 16)]"
    using server_list.open_server_run [OF l q parse _ new, of s1 0] sv by (auto simp: u)
  with 1 show ?thesis by auto
qed

theorem wide_port_is_added_again_witness:
  "\<exists>s1 s2. gridfs_open (ref_env []) ''/proc/instances/h:65537'' 0 demo = (Ret (0, 1), s1) \<and>
    gridfs_open (ref_env []) ''/proc/instances/h:65537'' 0 s1 = (Ret (0, next_addr s1), s2) \<and>
    w_servers (world s2) = [(''h'', 1), (''h'', 1)]"
proof -
  have shown: "dec_int 65537 = ''65537''" by (simp add: dec_int_def dec.simps digit_chars)
  have "configure_path (config (ref_env [])) ''/proc/instances/h:65537'' =
      instances (config (ref_env [])) @ ''h'' @ '':'' @ dec_int 65537"
    unfolding shown by (simp add: configure_path_def instances_def)
  moreover have "w_servers (world demo) = []" "next_addr demo = 1" by (simp_all add: demo_def world_of_def)
  ultimately show ?thesis
    using wide_port_is_added_again [OF ref_server_list, of "[]" "''/proc/instances/h:65537''" "''h''" 65537 demo]
    by (auto simp: plain_server_def)
qed

section \<open>Listing the servers\<close>

lemma instances_type:
  "theType (new_proc c (path_prefix c @ ''/proc/instances'')) = Some INSTANCES"
  by (simp add: new_proc_def Let_def)

lemma instances_root_proc: "is_proc c (path_prefix c @ ''/proc/instances'')"
  unfolding is_proc_iff by (intro disjI2 exI [of _ "''instances''"]) simp

text \<open>Listing \<open>/proc/instances\<close> shows the two dot entries and then every server, in the order
  of the list, as host and port; the list of servers and the handles are as before.\<close>

theorem ls_instances_lists_servers:
  fixes s :: "('w, 'x) fuse_state_scheme"
  assumes l: "server_list E servers" and ok: "table_ok s"
    and q: "configure_path (config E) path = path_prefix (config E) @ ''/proc/instances''"
    and filler: "\<And>n w. servers (filler n w) = servers w"
    and names: "\<forall>sv \<in> set (servers (world s)). CHR 0x00 \<notin> set (fst sv)"
  shows "\<exists>s'. ls E filler path s = (Ret 0, s') \<and>
    world s' = fills filler (''.'' # ''..'' # map show_server (servers (world s))) (world s) \<and>
    objects s' = objects s \<and> conns s' = conns s"
proof -
  let ?pr = "new_proc (config E) (path_prefix (config E) @ ''/proc/instances'')"
  let ?s1 = "s\<lparr>objects := (objects s)(next_addr s \<mapsto> PROC ?pr), next_addr := Suc (next_addr s)\<rparr>"
  have fh: "next_addr s \<noteq> 0" "(objects s)(next_addr s := None) = objects s"
    using ok table_ok_fresh [OF ok] by (auto simp: table_ok_def fun_upd_idem)
  have 1: "gridfs_opendir E path 0 s = (Ret (0, next_addr s), ?s1)"
    by (simp add: gridfs_opendir_def q Let_def instances_root_proc bind_run release_handle_def comp_simps
        catch_with_def)
  let ?w2 = "filler ''..'' (filler ''.'' (world s))"
  have w2: "servers ?w2 = servers (world s)" by (simp add: filler)
  have dots: "c_str ''.'' = ''.''" "c_str ''..'' = ''..''" by (simp_all add: c_str_def)
  have "listServers E filler (?s1\<lparr>world := ?w2\<rparr>) = (Ret (), ?s1\<lparr>world :=
      fills filler (map show_server (servers (world s))) ?w2\<rparr>)"
    using server_list.listServers_run [OF l, of filler "?s1\<lparr>world := ?w2\<rparr>"] filler names w2 by simp
  then have "proc_list E filler ?pr ?s1 = (Ret (), ?s1\<lparr>world :=
      fills filler (''.'' # ''..'' # map show_server (servers (world s))) (world s)\<rparr>)"
    by (simp add: proc_list_def bind_run fill_def c_call_def instances_type dots fills_def)
  then have 2: "gridfs_readdir E filler (next_addr s) ?s1 = (Ret 0, ?s1\<lparr>world :=
      fills filler (''.'' # ''..'' # map show_server (servers (world s))) (world s)\<rparr>)"
    using fh by (simp add: gridfs_readdir_def bind_run deref_def comp_simps catch_with_def)
  show ?thesis
    using 1 2 fh by (simp add: ls_def bind_run comp_simps gridfs_releasedir_def catch_with_def
        delete_handle_def destroy_handle_def destroy_object_def)
qed

theorem ls_instances_lists_servers_witness:
  "\<exists>s'. ls (ref_env []) (\<lambda>n w. w\<lparr>w_docs := plain_doc 9 n 0 [] # w_docs w\<rparr>) ''/proc/instances''
      (demo\<lparr>world := (world demo)\<lparr>w_servers := [(''cache'', 11212)]\<rparr>\<rparr>) = (Ret 0, s') \<and>
    map d_name (take 3 (w_docs (world s'))) = [''cache:11212'', ''..'', ''.'']"
proof -
  have shown: "show_server (''cache'', 11212) = ''cache:11212''"
    by (simp add: show_server_def dec_int_def dec.simps digit_chars)
  have "configure_path (config (ref_env [])) ''/proc/instances'' =
      path_prefix (config (ref_env [])) @ ''/proc/instances''"
    by (simp add: configure_path_def)
  moreover have "table_ok (demo\<lparr>world := (world demo)\<lparr>w_servers := [(''cache'', 11212)]\<rparr>\<rparr>)"
    using demo_table_ok by (simp add: table_ok_def)
  ultimately show ?thesis
    using ls_instances_lists_servers [OF ref_server_list, of
        "demo\<lparr>world := (world demo)\<lparr>w_servers := [(''cache'', 11212)]\<rparr>\<rparr>" "[]" "''/proc/instances''"
        "\<lambda>n w. w\<lparr>w_docs := plain_doc 9 n 0 [] # w_docs w\<rparr>"]
    by (auto simp: shown fills_def)
qed

section \<open>Where the handlers fail\<close>

text \<open>C37: \<open>create\<close> of a path below \<open>/proc/instances/\<close> answers 0 and leaves the handle null;
  the \<open>release\<close> that the kernel sends for it reads through the null pointer.\<close>

theorem created_server_kills_release:
  fixes s :: "('w, 'x) fuse_state_scheme"
  assumes q: "configure_path (config E) path = instances (config E) @ name"
  shows "\<exists>s1. gridfs_create E path mode s = (Ret (0, 0), s1) \<and>
    fst (gridfs_release E path 0 s1) = Fault NullDeref"
proof -
  let ?pr = "new_proc (config E) (instances (config E) @ name)"
  have "\<exists>b s1. proc_create E ?pr s = (Ret b, s1)"
    by (cases "parse_server name")
      (auto simp: proc_create_def bind_run c_call_def comp_simps instances_server)
  then obtain b s1 where "proc_create E ?pr s = (Ret b, s1)" by blast
  then have "gridfs_create E path mode s = (Ret (0, 0), s1)"
    by (simp add: gridfs_create_def q Let_def instances_proc bind_run comp_simps catch_with_def)
  moreover have "fst (gridfs_release E path 0 s1) = Fault NullDeref"
    by (simp add: gridfs_release_def Let_def bind_run deref_def catch_with_def with_dtor_def)
  ultimately show ?thesis by blast
qed

theorem created_server_kills_release_witness:
  "\<exists>s1. gridfs_create (ref_env []) ''/proc/instances/h'' 0 demo = (Ret (0, 0), s1) \<and>
    fst (gridfs_release (ref_env []) ''/proc/instances/h'' 0 s1) = Fault NullDeref"
  by (rule created_server_kills_release [of _ _ "''h''"]) (simp add: configure_path_def instances_def)

text \<open>C38: \<open>getattr\<close> of any other path of the tree, when the cache has no entry for it, switches on
  a type that the constructor never set.\<close>

theorem unknown_proc_path_uninitialised:
  fixes s :: "('w, 'x) fuse_state_scheme"
  assumes p: "p = configure_path (config E) path" "is_proc (config E) p"
    and other: "p \<noteq> path_prefix (config E) @ ''/proc''" "p \<noteq> path_prefix (config E) @ ''/proc/instances''"
      "\<nexists>name. p = instances (config E) @ name"
    and miss: "fst (mc_lookup E (memcache_key p) (world s)) = None"
  shows "fst (gridfs_getattr E path buf s) = Fault Uninitialised"
proof -
  have "take (length (instances (config E))) p \<noteq> instances (config E)"
    using other(3) append_take_drop_id [of "length (instances (config E))" p] by metis
  then have t: "theType (new_proc (config E) p) = None"
    using other(1,2) by (simp add: new_proc_def Let_def instances_def)
  have ws: "world (memcache_acquire s) = world s" by (simp add: memcache_acquire_def)
  obtain w where "mc_lookup E (memcache_key p) (world s) = (None, w)"
    using miss by (cases "mc_lookup E (memcache_key p) (world s)") simp
  then have "memcache_get E p (memcache_acquire s) = (Ret None, (memcache_acquire s)\<lparr>world := w\<rparr>)"
    by (simp add: memcache_get_def bind_run c_call_def comp_simps ws)
  then show ?thesis
    by (simp add: gridfs_getattr_def p(1) [symmetric] p(2) Let_def with_memcache_def bind_run comp_simps
        proc_stat_def t catch_with_def with_dtor_def)
qed

theorem unknown_proc_path_uninitialised_witness:
  "fst (gridfs_getattr (ref_env []) ''/proc/other'' zero_stat demo) = Fault Uninitialised"
proof (rule unknown_proc_path_uninitialised [of "''/proc/other''"])
  show "is_proc (config (ref_env [])) ''/proc/other''"
    unfolding is_proc_iff by (intro disjI2 exI [of _ "''other''"]) simp
qed (simp_all add: configure_path_def instances_def ref_env_def ref_config_def default_config_def
    demo_def world_of_def)

end
