(* ===== verification/Startup_Theorems.thy ===== *)
theory Startup_Theorems
  imports Proc_Theorems
begin

text \<open>
  What holds of the start of the process: the level of the log, the options, the checks of
  \<open>init\<close>, the authentication hook and the root directory.
\<close>

section \<open>The log\<close>

text \<open>After \<open>initSyslog\<close> a message is logged exactly if its level is at most the configured
  one; a name that is no level, as the default \<open>ERROR\<close>, stands for \<open>ERR\<close>.\<close>

theorem log_mask_selects_levels:
  "logged (initSyslog c) l \<longleftrightarrow>
    l \<le> (case log_level c of Some lvl \<Rightarrow> level_of lvl | None \<Rightarrow> LOG_ERR)"
  unfolding initSyslog_def logged_upto by (simp add: level_of_def split: option.split)

text \<open>The same by the names of the levels and the numbers of syslog.\<close>

lemma logged_level:
  "logged (initSyslog c) l \<longleftrightarrow> priority l \<le>
    (case map_of [(''EMERG'', 0), (''ALERT'', 1), (''CRIT'', 2), (''ERR'', 3), (''WARNING'', 4),
        (''NOTICE'', 5), (''INFO'', 6), (''DEBUG'', 7)] (case log_level c of Some lvl \<Rightarrow> lvl | None \<Rightarrow> ''ERR'') of
       Some n \<Rightarrow> n | None \<Rightarrow> 3)"
  unfolding log_mask_selects_levels less_eq_syslog_level_def
  by (simp add: level_of_def split: option.split)

section \<open>Options and init\<close>

text \<open>
  What a command line says, without the table and the setters: the last value given for a template, or
  a default, and the arguments that are no options.
\<close>

definition text_given :: "string \<Rightarrow> string \<Rightarrow> opt_event list \<Rightarrow> string" where
  "text_given template d es = last (d # [v. Text t v \<leftarrow> es, t = template])"

definition number_given :: "string \<Rightarrow> u32 \<Rightarrow> opt_event list \<Rightarrow> u32" where
  "number_given template d es = last (d # [n. Number t n \<leftarrow> es, t = template])"

definition arguments_given :: "opt_event list \<Rightarrow> string list" where
  "arguments_given es = [a. Other a \<leftarrow> es]"

lemma given_simps [simp]:
  "text_given T d [] = d"
  "text_given T d (Text t v # es) = text_given T (if t = T then v else d) es"
  "text_given T d (Number t n # es) = text_given T d es"
  "text_given T d (Other a # es) = text_given T d es"
  "text_given T d (Switch t # es) = text_given T d es"
  "number_given T u [] = u"
  "number_given T u (Text t v # es) = number_given T u es"
  "number_given T u (Number t n # es) = number_given T (if t = T then n else u) es"
  "number_given T u (Other a # es) = number_given T u es"
  "number_given T u (Switch t # es) = number_given T u es"
  by (simp_all add: text_given_def number_given_def)

lemma arguments_given_simps [simp]:
  "arguments_given [] = []"
  "arguments_given (Text t v # es) = arguments_given es"
  "arguments_given (Number t n # es) = arguments_given es"
  "arguments_given (Other a # es) = a # arguments_given es"
  "arguments_given (Switch t # es) = arguments_given es"
  by (simp_all add: arguments_given_def)

text \<open>Each entry of the table reaches its own field.\<close>

lemma text_field:
  assumes "\<And>t v c. get (set_option set_text t v c) = (if t = T then wrap v else get c)"
    and "\<And>t n c. get (set_option set_number t n c) = get c" and "get c = wrap d"
  shows "get (fst (apply_events es (c, as))) = wrap (text_given T d es)"
  using assms(3)
  by (induction es "(c, as)" arbitrary: c as d rule: apply_events.induct) (simp_all add: assms(1,2))

lemma number_field:
  assumes "\<And>t n c. get (set_option set_number t n c) = (if t = T then n else get c)"
    and "\<And>t v c. get (set_option set_text t v c) = get c"
  shows "get (fst (apply_events es (c, as))) = number_given T (get c) es"
  by (induction es "(c, as)" arbitrary: c as rule: apply_events.induct) (simp_all add: assms)

lemma other_arguments: "snd (apply_events es (c, as)) = as @ arguments_given es"
  by (induction es "(c, as)" arbitrary: c as rule: apply_events.induct) simp_all

lemma log_file_kept: "log_file (fst (apply_events es (c, as))) = log_file c"
  by (induction es "(c, as)" arbitrary: c as rule: apply_events.induct)
    (simp_all add: set_option_def set_text_def set_number_def split: option.split option_field.split)

lemmas option_table = set_option_def set_text_def set_number_def opts_def

definition configured :: "u32 \<Rightarrow> u32 \<Rightarrow> opt_event list \<Rightarrow> gridfs_config" where
  "configured uid gid es = \<lparr>
     mongo_conn_string = text_given ''mongo_conn_string=%s'' ''localhost:27017'' es,
     mongo_user = text_given ''mongo_user=%s'' '''' es,
     mongo_password = text_given ''mongo_password=%s'' '''' es,
     mongo_db = text_given ''mongo_db=%s'' '''' es,
     mongo_collection_prefix = text_given ''mongo_collection_prefix=%s'' ''fs'' es,
     path_prefix = text_given ''path_prefix=%s'' '''' es,
     log_level = Some (text_given ''log_level=%s'' ''ERROR'' es),
     log_file = ''console'',
     default_uid = number_given ''default_uid=%u'' uid es,
     default_gid = number_given ''default_gid=%u'' gid es,
     mongo_chunk_size = 262144\<rparr>"

lemma options_configure: "apply_events es (default_config uid gid, []) = (configured uid gid es, arguments_given es)"
proof -
  let ?c = "fst (apply_events es (default_config uid gid, []))"
  have "mongo_conn_string ?c = text_given ''mongo_conn_string=%s'' ''localhost:27017'' es"
    by (rule text_field) (simp_all add: option_table default_config_def)
  moreover have "mongo_user ?c = text_given ''mongo_user=%s'' '''' es"
    by (rule text_field) (simp_all add: option_table default_config_def)
  moreover have "mongo_password ?c = text_given ''mongo_password=%s'' '''' es"
    by (rule text_field) (simp_all add: option_table default_config_def)
  moreover have "mongo_db ?c = text_given ''mongo_db=%s'' '''' es"
    by (rule text_field) (simp_all add: option_table default_config_def)
  moreover have "mongo_collection_prefix ?c = text_given ''mongo_collection_prefix=%s'' ''fs'' es"
    by (rule text_field) (simp_all add: option_table default_config_def)
  moreover have "path_prefix ?c = text_given ''path_prefix=%s'' '''' es"
    by (rule text_field) (simp_all add: option_table default_config_def)
  moreover have "log_level ?c = Some (text_given ''log_level=%s'' ''ERROR'' es)"
    by (rule text_field) (simp_all add: option_table default_config_def)
  moreover have "default_uid ?c = number_given ''default_uid=%u'' uid es"
    by (subst number_field) (simp_all add: option_table default_config_def)
  moreover have "default_gid ?c = number_given ''default_gid=%u'' gid es"
    by (subst number_field) (simp_all add: option_table default_config_def)
  moreover have "log_file ?c = ''console''" by (simp add: log_file_kept default_config_def)
  moreover have "mongo_chunk_size ?c = 262144"
    by (simp add: apply_events_chunk_size default_config_def MONGO_DEFAULT_CHUNK_SIZE_def)
  ultimately have "?c = configured uid gid es" unfolding configured_def by (intro gridfs_config.equality) simp_all
  then show ?thesis using other_arguments [of es "default_config uid gid" "[]"] by (simp add: prod_eq_iff)
qed

text \<open>C29: \<open>init\<close> without a switch among the options: it ends the process with 1 when no
  database is named. Otherwise it goes on with every field of the configuration set to the last value
  given for its own template, or to its default; with the arguments that are no options before the
  bounds of reads and writes, both 256 KiB; with the log open for the messages up to the level named,
  or up to ERR when the name is none of the eight, as the default ERROR; with the pool of cache handles
  and, if a user is named, the credentials of the hook.\<close>

theorem init_configures:
  assumes "no_switch es" and "st_hook st = None"
  shows "if text_given ''mongo_db=%s'' [] es = [] then fst (fuse_init uid gid es st) = Exit 1
    else \<exists>st'. fuse_init uid gid es st = (Ret (), st') \<and>
      st_config st' = \<lparr>
        mongo_conn_string = text_given ''mongo_conn_string=%s'' ''localhost:27017'' es,
        mongo_user = text_given ''mongo_user=%s'' [] es,
        mongo_password = text_given ''mongo_password=%s'' [] es,
        mongo_db = text_given ''mongo_db=%s'' [] es,
        mongo_collection_prefix = text_given ''mongo_collection_prefix=%s'' ''fs'' es,
        path_prefix = text_given ''path_prefix=%s'' [] es,
        log_level = Some (text_given ''log_level=%s'' ''ERROR'' es),
        log_file = ''console'',
        default_uid = number_given ''default_uid=%u'' uid es,
        default_gid = number_given ''default_gid=%u'' gid es,
        mongo_chunk_size = 262144\<rparr> \<and>
      st_args st' = arguments_given es @
        [''-o'', ''max_read=262144'', ''-o'', ''max_write=262144'', ''-o'', ''big_writes''] \<and>
      (\<forall>l. logged (st_logmask st') l \<longleftrightarrow> priority l \<le>
        (case map_of [(''EMERG'', 0), (''ALERT'', 1), (''CRIT'', 2), (''ERR'', 3), (''WARNING'', 4),
            (''NOTICE'', 5), (''INFO'', 6), (''DEBUG'', 7)] (text_given ''log_level=%s'' ''ERROR'' es) of
           Some n \<Rightarrow> n | None \<Rightarrow> 3)) \<and>
      theMemcachePool st' \<and> theMaster st' \<and>
      st_hook st' = (if text_given ''mongo_user=%s'' [] es = [] then None
        else Some \<lparr>theUsername = text_given ''mongo_user=%s'' [] es,
          thePassword = text_given ''mongo_password=%s'' [] es,
          theDBName = text_given ''mongo_db=%s'' [] es\<rparr>)"
proof -
  note run = fuse_init_run [OF assms(1) options_configure assms(2)]
  show ?thesis
  proof (cases "text_given ''mongo_db=%s'' [] es = []")
    case True
    then show ?thesis using run(1) by (simp add: configured_def)
  next
    case False
    then obtain st' where "fuse_init uid gid es st = (Ret (), st')" "st_config st' = configured uid gid es"
      "st_args st' = fuse_args (arguments_given es)" "st_logmask st' = initSyslog (configured uid gid es)"
      "theMemcachePool st'" "theMaster st'"
      "st_hook st' = (if mongo_user (configured uid gid es) = [] then None
        else Some (new_auth_hook (mongo_db (configured uid gid es)) (mongo_user (configured uid gid es))
          (mongo_password (configured uid gid es))))"
      using run(2) [of uid gid] by (auto simp: configured_def)
    then show ?thesis
      using False by (simp add: configured_def fuse_args_def new_auth_hook_def logged_level)
  qed
qed

definition idle :: startup where
  "idle = new_fuse"

theorem init_configures_witness:
  "fst (fuse_init 0 0 [Other ''/mnt''] idle) = Exit 1 \<and>
   (\<exists>st'. fuse_init 7 8 [Text ''mongo_db=%s'' ''old'', Other ''/mnt'', Text ''mongo_db=%s'' ''test'',
        Text ''mongo_user=%s'' ''me'', Text ''log_level=%s'' ''NOTICE'', Number ''default_gid=%u'' 100] idle =
        (Ret (), st') \<and>
     st_args st' = [''/mnt'', ''-o'', ''max_read=262144'', ''-o'', ''max_write=262144'', ''-o'', ''big_writes''] \<and>
     mongo_conn_string (st_config st') = ''localhost:27017'' \<and> default_uid (st_config st') = 7 \<and>
     default_gid (st_config st') = 100 \<and> logged (st_logmask st') LOG_NOTICE \<and> \<not> logged (st_logmask st') LOG_INFO \<and>
     st_hook st' = Some \<lparr>theUsername = ''me'', thePassword = [], theDBName = ''test''\<rparr>)"
  using init_configures [of "[Other ''/mnt'']" idle 0 0]
    init_configures [of "[Text ''mongo_db=%s'' ''old'', Other ''/mnt'', Text ''mongo_db=%s'' ''test'',
        Text ''mongo_user=%s'' ''me'', Text ''log_level=%s'' ''NOTICE'', Number ''default_gid=%u'' 100]" idle 7 8]
  by (fastforce simp: idle_def new_fuse_def)

text \<open>A switch ends \<open>init\<close>, whatever follows it and before the checks: with 1 after the
  help, with 0 after the version; \<open>fuse_main\<close> has run exactly once, with the arguments so far and
  the flag of the switch.\<close>

theorem switch_ends_init:
  assumes "no_switch es" and "map_of opt_keys t = Some k"
  shows "\<exists>st'. fuse_init uid gid (es @ Switch t # es') st =
      (Exit (case k of KEY_HELP \<Rightarrow> 1 | KEY_VERSION \<Rightarrow> 0), st') \<and>
    fuse_runs st' = fuse_runs st @ [arguments_given es @
      [case k of KEY_HELP \<Rightarrow> ''-ho'' | KEY_VERSION \<Rightarrow> ''--version'']]"
  by (simp add: fuse_init_def bind_run comp_simps parse_options_switch_run [OF assms] Let_def
      options_configure)

theorem switch_ends_init_witness:
  "\<exists>st'. fuse_init 0 0 [Other ''prog'', Switch ''-v'', Text ''mongo_db=%s'' ''test''] idle = (Exit 0, st') \<and>
    fuse_runs st' = [[''prog'', ''--version'']]"
  using switch_ends_init [of "[Other ''prog'']" "''-v''" KEY_VERSION 0 0 "[Text ''mongo_db=%s'' ''test'']" idle]
  by (simp add: opt_keys_def idle_def new_fuse_def)

section \<open>From the constructor to the destructor\<close>




section \<open>The authentication hook\<close>

text \<open>With a user among the options a new connection is used only after a login with the configured
  database, user and password; without one there is no hook.\<close>

theorem connections_log_in:
  assumes "no_switch es" and "db = text_given ''mongo_db=%s'' [] es" and "user = text_given ''mongo_user=%s'' [] es"
    and "db \<noteq> []" "user \<noteq> []"
  shows "\<exists>h. st_hook (snd (fuse_init uid gid es new_fuse)) = Some h \<and>
    (\<forall>auth s s'. onCreate h auth s = (Ret (), s') \<longleftrightarrow>
      auth db user (text_given ''mongo_password=%s'' [] es) = Inr True \<and> s' = s)"
proof -
  have "st_hook new_fuse = None" by (simp add: new_fuse_def)
  from fuse_init_run(2) [OF assms(1) options_configure this, of uid gid]
  have "st_hook (snd (fuse_init uid gid es new_fuse)) =
      Some (new_auth_hook db user (text_given ''mongo_password=%s'' [] es))"
    using assms by (auto simp: configured_def)
  then show ?thesis
    by (auto simp: onCreate_def new_auth_hook_def comp_simps split: sum.splits exn.splits bool.splits)
qed

section \<open>The root directory\<close>

text \<open>\<open>createRootDir\<close> looks for the path prefix, and \<open>mkdir\<close> stores the prefix without its last
  slash.\<close>

lemma root_path:
  "configure_path c [] = (if path_prefix c \<noteq> [] \<and> last (path_prefix c) = CHR ''/''
     then butlast (path_prefix c) else path_prefix c)"
  by (simp add: configure_path_def Let_def)

text \<open>C28: When the prefix does not end in a slash, a mount makes the root directory if there is
  none, with the directory bit and permissions 755, and the next mount leaves the documents as
  they are.\<close>

theorem root_is_made_once:
  fixes s :: "('w, 'x) fuse_state_scheme"
  assumes b: "backend E docs cached" and pre: "pre = path_prefix (config E)" "pre = [] \<or> last pre \<noteq> CHR ''/''"
  shows "\<exists>s1 s2. createRootDir E s = (Ret (), s1) \<and> createRootDir E s1 = (Ret (), s2) \<and>
    docs (world s2) = docs (world s1) \<and>
    (case newest pre (docs (world s)) of
       Some d \<Rightarrow> docs (world s1) = docs (world s)
     | None \<Rightarrow> \<exists>d. docs (world s1) = docs (world s) @ [d] \<and> new_doc pre (S_IFDIR OR 0x1ED)
         (default_uid (config E)) (default_gid (config E)) [] (docs (world s)) d)"
proof -
  have root: "pre = configure_path (config E) []" using pre by (auto simp: root_path)
  note run = backend.createRootDir_run [OF b root, folded pre(1)]
  obtain w where 1: "createRootDir E s = (Ret (), s\<lparr>world := w\<rparr>)" and
    w: "if newest pre (docs (world s)) \<noteq> None then docs w = docs (world s)
     else \<exists>d. docs w = docs (world s) @ [d] \<and>
       new_doc pre (S_IFDIR OR 0x1ED) (default_uid (config E)) (default_gid (config E)) [] (docs (world s)) d"
    using run [of s] by blast
  have "newest pre (docs w) \<noteq> None"
    using w by (auto simp: newest_snoc new_doc_def stored_doc_def split: if_splits)
  then obtain w' where "createRootDir E (s\<lparr>world := w\<rparr>) = (Ret (), s\<lparr>world := w'\<rparr>)" "docs w' = docs w"
    using run [of "s\<lparr>world := w\<rparr>"] by auto
  with 1 w show ?thesis
    by (intro exI [of _ "s\<lparr>world := w\<rparr>"] exI [of _ "s\<lparr>world := w'\<rparr>"])
      (auto split: option.split if_splits)
qed

theorem root_is_made_once_witness:
  "\<exists>s1 s2. createRootDir (ref_env ''/mnt'') demo = (Ret (), s1) \<and>
    createRootDir (ref_env ''/mnt'') s1 = (Ret (), s2) \<and> ref_docs (world s2) = ref_docs (world s1)"
  using root_is_made_once [OF ref_backend, of "''/mnt''" "''/mnt''" demo] by auto

text \<open>When the prefix ends in a slash, the directory that is made is not the one that is looked
  for: every mount adds another document of the same path.\<close>

theorem root_is_made_again:
  fixes s :: "('w, 'x) fuse_state_scheme"
  assumes b: "backend E docs cached" and pre: "path_prefix (config E) = pre @ ''/''"
    and none: "newest (pre @ ''/'') (docs (world s)) = None"
  shows "\<exists>s1 s2 d e. createRootDir E s = (Ret (), s1) \<and> createRootDir E s1 = (Ret (), s2) \<and>
    docs (world s2) = docs (world s) @ [d, e] \<and> d_name d = pre \<and> d_name e = pre"
proof -
  have root: "pre = configure_path (config E) []" using pre by (simp add: root_path)
  note run = backend.createRootDir_run [OF b root, unfolded pre]
  obtain w d where 1: "createRootDir E s = (Ret (), s\<lparr>world := w\<rparr>)" "docs w = docs (world s) @ [d]"
    "d_name d = pre"
    using run [of s] none by (auto simp: new_doc_def stored_doc_def)
  have "newest (pre @ ''/'') (docs w) = None" using 1(2,3) none by (simp add: newest_snoc)
  then obtain w' e where "createRootDir E (s\<lparr>world := w\<rparr>) = (Ret (), s\<lparr>world := w'\<rparr>)"
    "docs w' = docs w @ [e]" "d_name e = pre"
    using run [of "s\<lparr>world := w\<rparr>"] by (auto simp: new_doc_def stored_doc_def)
  with 1 show ?thesis
    by (intro exI [of _ "s\<lparr>world := w\<rparr>"] exI [of _ "s\<lparr>world := w'\<rparr>"] exI [of _ d] exI [of _ e])
      simp
qed

theorem root_is_made_again_witness:
  "\<exists>s1 s2 d e. createRootDir (ref_env ''/mnt/'') demo = (Ret (), s1) \<and>
    createRootDir (ref_env ''/mnt/'') s1 = (Ret (), s2) \<and>
    ref_docs (world s2) = ref_docs (world demo) @ [d, e] \<and> d_name d = ''/mnt'' \<and> d_name e = ''/mnt''"
  by (rule root_is_made_again [OF ref_backend]) (simp_all add: demo_docs newest_def)

end
