(* ===== verification/Shared_Reads.thy ===== *)
theory Shared_Reads
  imports File_Correct
begin

text \<open>
  FUSE serves requests with several threads, and two of them may read through the same handle.
  Here \<open>File::read\<close> of src/file.cpp is cut into the steps between which another thread can run:
  the test of the two sizes, their first load and assignment, which no lock guards, the test of the
  loop, the lock of src/lock.h, and inside it the comparison with the cached chunk, the fetch, the
  note of its number and the copy. A schedule is the list of the threads in the order in which they
  take steps. What \<open>gridfile()\<close> itself does when several threads call it first is in theory Lazy_Load.
\<close>

section \<open>Threads\<close>

text \<open>
  Where a thread is. \<open>Begin\<close> to \<open>SetLength\<close> are the two assignments at the start of \<open>read\<close>, with the
  value that is assigned. The later arguments are those of the private \<open>read\<close>: number of the chunk,
  size and offset in the chunk; \<open>Leave\<close> holds what was copied.
\<close>

datatype position =
    Begin | LoadChunk | SetChunk int | TestLength | LoadLength | SetLength int
  | Enter | Turn | Acquire int int int | Compare int int int | Fetch int int int
  | Stamp int int int | Copy int int int | Leave int bytes | Finished | Failed exn

record reader =
  r_size :: int
  r_offset :: int
  r_read :: int
  r_data :: bytes
  r_at :: position

definition new_reader :: "int \<times> int \<Rightarrow> reader" where
  "new_reader req = \<lparr>r_size = fst req, r_offset = snd req, r_read = 0, r_data = [], r_at = Begin\<rparr>"

fun inside :: "position \<Rightarrow> bool" where
  "inside (Compare n k m) = True"
| "inside (Fetch n k m) = True"
| "inside (Stamp n k m) = True"
| "inside (Copy n k m) = True"
| "inside (Leave k bs) = True"
| "inside _ = False"

section \<open>Steps\<close>

text \<open>The two assignments at the start of \<open>read\<close>: test, load, store.\<close>

definition load_step :: "'w env \<Rightarrow> reader \<Rightarrow> ('y, 'w, 'x, reader) file_comp" where
  "load_step E r = (case r_at r of
     Begin \<Rightarrow> bind this_get (\<lambda>f. ret (r\<lparr>r_at := if theChunkSize f = 0 then LoadChunk else TestLength\<rparr>))
   | LoadChunk \<Rightarrow> bind (gridfile E) (\<lambda>g. bind (getter (gf_chunk_size g)) (\<lambda>n. ret (r\<lparr>r_at := SetChunk n\<rparr>)))
   | SetChunk n \<Rightarrow>
       bind (this_set (\<lambda>f. f\<lparr>theChunkSize := c_uint n\<rparr>)) (\<lambda>_. ret (r\<lparr>r_at := TestLength\<rparr>))
   | TestLength \<Rightarrow> bind this_get (\<lambda>f. ret (r\<lparr>r_at := if theFileLength f = 0 then LoadLength else Enter\<rparr>))
   | LoadLength \<Rightarrow> bind (gridfile E) (\<lambda>g. bind (getter (gf_content_length g)) (\<lambda>n. ret (r\<lparr>r_at := SetLength n\<rparr>)))
   | SetLength n \<Rightarrow>
       bind (this_set (\<lambda>f. f\<lparr>theFileLength := c_size_t n\<rparr>)) (\<lambda>_. ret (r\<lparr>r_at := Enter\<rparr>))
   | _ \<Rightarrow> ret r)"

text \<open>One step of a thread. At a lock that is taken it stays where it is.\<close>

definition reader_step :: "'w env \<Rightarrow> reader \<Rightarrow> ('y, 'w, 'x, reader) file_comp" where
  "reader_step E r = (case r_at r of
     Begin \<Rightarrow> load_step E r
   | LoadChunk \<Rightarrow> load_step E r
   | SetChunk n \<Rightarrow> load_step E r
   | TestLength \<Rightarrow> load_step E r
   | LoadLength \<Rightarrow> load_step E r
   | SetLength n \<Rightarrow> load_step E r
   | Enter \<Rightarrow> bind this_get (\<lambda>f.
       if theFileLength f < c_size_t (r_offset r) then ret (r\<lparr>r_at := Finished\<rparr>)
       else ret (r\<lparr>r_at := Turn\<rparr>))
   | Turn \<Rightarrow> bind this_get (\<lambda>f.
       if r_read r \<noteq> r_size r \<and> c_size_t (r_offset r + r_read r) < theFileLength f
       then bind (next_piece f (r_size r) (r_offset r) (r_read r)) (\<lambda>(n, k, m).
         ret (r\<lparr>r_at := Acquire n k m\<rparr>))
       else ret (r\<lparr>r_at := Finished\<rparr>))
   | Acquire n k m \<Rightarrow> bind this_get (\<lambda>f.
       if mutex_read f then ret r
       else bind (this_set (\<lambda>f. f\<lparr>mutex_read := True\<rparr>)) (\<lambda>_. ret (r\<lparr>r_at := Compare n k m\<rparr>)))
   | Compare n k m \<Rightarrow>
       bind (assert_that (ndebug E) (bind this_get (\<lambda>f. ret (theChunkSize f \<noteq> 0)))) (\<lambda>_.
       bind (assert_that (ndebug E)
         (bind this_get (\<lambda>f. ret (c_size_t (m + k) \<le> theChunkSize f)))) (\<lambda>_.
       bind (assert_that (ndebug E)
         (bind this_get (\<lambda>f. ret (c_size_t (m + k) \<le> theFileLength f)))) (\<lambda>_.
       bind this_get (\<lambda>f.
       if n \<noteq> theCachedChunkN f then ret (r\<lparr>r_at := Fetch n k m\<rparr>) else ret (r\<lparr>r_at := Copy n k m\<rparr>)))))
   | Fetch n k m \<Rightarrow>
       bind (gridfile E) (\<lambda>g.
       bind (outside (call (get_chunk E g n))) (\<lambda>bs.
       bind (this_set (\<lambda>f. f\<lparr>theCachedChunk := Some bs\<rparr>)) (\<lambda>_.
       ret (r\<lparr>r_at := Stamp n k m\<rparr>))))
   | Stamp n k m \<Rightarrow>
       bind (this_set (\<lambda>f. f\<lparr>theCachedChunkN := n\<rparr>)) (\<lambda>_. ret (r\<lparr>r_at := Copy n k m\<rparr>))
   | Copy n k m \<Rightarrow> bind this_get (\<lambda>f. case theCachedChunk f of
         None \<Rightarrow> fault BadPointer
       | Some bs \<Rightarrow>
           (if 0 \<le> m \<and> m + k \<le> int (length bs)
            then ret (r\<lparr>r_at := Leave k (take (nat k) (drop (nat m) bs))\<rparr>)
            else fault OutOfBounds))
   | Leave k bs \<Rightarrow>
       bind (this_set (\<lambda>f. f\<lparr>mutex_read := False\<rparr>)) (\<lambda>_.
       ret (r\<lparr>r_read := c_size_t (r_read r + k), r_data := r_data r @ bs, r_at := Turn\<rparr>))
   | Finished \<Rightarrow> ret r
   | Failed e \<Rightarrow> ret r)"

text \<open>
  A thread of the system takes a step. An exception ends the \<open>read\<close> of its thread; the
  destructor of the lock frees the mutex when the thread was inside.
\<close>

type_synonym ('y, 'w, 'x) readers = "reader list \<times> ('y file_obj_scheme \<times> ('w, 'x) process_scheme)"

definition unlock_for :: "position \<Rightarrow> 'y file_obj_scheme \<Rightarrow> 'y file_obj_scheme" where
  "unlock_for p f = (if inside p then f\<lparr>mutex_read := False\<rparr> else f)"

definition reader_turn :: "'w env \<Rightarrow> nat \<Rightarrow> (('y, 'w, 'x) readers, unit) comp" where
  "reader_turn E i = (\<lambda>(rs, f, s).
     if i < length rs then
       (case reader_step E (rs ! i) (f, s) of
          (Ret r, f', s') \<Rightarrow> (Ret (), rs[i := r], f', s')
        | (Throw e, f', s') \<Rightarrow>
            (Ret (), rs[i := (rs ! i)\<lparr>r_at := Failed e\<rparr>], unlock_for (r_at (rs ! i)) f', s')
        | (Fault x, f', s') \<Rightarrow> (Fault x, rs, f', s')
        | (Exit n, f', s') \<Rightarrow> (Exit n, rs, f', s'))
     else (Ret (), rs, f, s))"

fun run_readers :: "'w env \<Rightarrow> nat list \<Rightarrow> (('y, 'w, 'x) readers, unit) comp" where
  "run_readers E [] = ret ()"
| "run_readers E (i # is) = bind (reader_turn E i) (\<lambda>_. run_readers E is)"

lemma run_readers_append: "run_readers E (is @ js) = bind (run_readers E is) (\<lambda>_. run_readers E js)"
  by (induction "is") (simp_all add: bind_ret bind_assoc)

section \<open>Mutual exclusion\<close>

text \<open>Whatever the servers answer: the mutex is taken as long as one thread is inside, and only one is.\<close>

definition exclusive :: "('y, 'w, 'x) readers \<Rightarrow> bool" where
  "exclusive S \<longleftrightarrow> (case S of (rs, f, s) \<Rightarrow>
     (mutex_read f \<longleftrightarrow> (\<exists>i < length rs. inside (r_at (rs ! i)))) \<and>
     (\<forall>i < length rs. \<forall>j < length rs. inside (r_at (rs ! i)) \<longrightarrow> inside (r_at (rs ! j)) \<longrightarrow> i = j))"

text \<open>What a step does to the mutex.\<close>

lemma reader_step_mutex:
  assumes "reader_step E r (f, s) = (Ret r', f', s')"
  obtains "inside (r_at r') = inside (r_at r)" "mutex_read f' = mutex_read f"
  | "\<not> mutex_read f" "inside (r_at r')" "mutex_read f'"
  | "inside (r_at r)" "\<not> inside (r_at r')" "\<not> mutex_read f'"
proof (cases "r_at r")
  case (Fetch n k m)
  have "mutex_read f' = mutex_read f" "inside (r_at r')"
    using assms gridfile_frame [of E f s]
    by (auto simp: reader_step_def load_step_def Fetch bind_run comp_simps split: prod.splits outcome.splits)
  with that(1) Fetch show thesis by simp
next
  case LoadChunk
  have "mutex_read f' = mutex_read f" "\<not> inside (r_at r')"
    using assms gridfile_frame [of E f s]
    by (auto simp: reader_step_def load_step_def LoadChunk bind_run comp_simps getter_def split: prod.splits outcome.splits sum.splits)
  with that(1) LoadChunk show thesis by simp
next
  case LoadLength
  have "mutex_read f' = mutex_read f" "\<not> inside (r_at r')"
    using assms gridfile_frame [of E f s]
    by (auto simp: reader_step_def load_step_def LoadLength bind_run comp_simps getter_def split: prod.splits outcome.splits sum.splits)
  with that(1) LoadLength show thesis by simp
qed (use assms that in \<open>auto simp: reader_step_def load_step_def next_piece_def bind_run comp_simps assert_that_def Let_def
    split: prod.splits outcome.splits if_splits option.splits\<close>)

lemma reader_step_throw:
  assumes "reader_step E r (f, s) = (Throw e, f', s')"
  shows "mutex_read f' = mutex_read f"
proof (cases "r_at r")
  case (Fetch n k m)
  then show ?thesis using assms gridfile_frame [of E f s]
    by (auto simp: reader_step_def load_step_def bind_run comp_simps split: prod.splits outcome.splits)
next
  case LoadChunk
  then show ?thesis using assms gridfile_frame [of E f s]
    by (auto simp: reader_step_def load_step_def bind_run comp_simps getter_def split: prod.splits outcome.splits sum.splits)
next
  case LoadLength
  then show ?thesis using assms gridfile_frame [of E f s]
    by (auto simp: reader_step_def load_step_def bind_run comp_simps getter_def split: prod.splits outcome.splits sum.splits)
qed (use assms in \<open>auto simp: reader_step_def load_step_def next_piece_def bind_run comp_simps assert_that_def Let_def
    split: prod.splits outcome.splits if_splits option.splits\<close>)

lemma exclusive_update:
  assumes "exclusive (rs, f, s)" "i < length rs"
    and "(inside (r_at r') = inside (r_at (rs ! i)) \<and> mutex_read f' = mutex_read f) \<or>
      (\<not> mutex_read f \<and> inside (r_at r') \<and> mutex_read f') \<or>
      (inside (r_at (rs ! i)) \<and> \<not> inside (r_at r') \<and> \<not> mutex_read f')"
  shows "exclusive (rs[i := r'], f', s')"
  using assms by (auto simp: exclusive_def nth_list_update)

lemma exclusive_turn:
  assumes ex: "exclusive S" and run: "reader_turn E i S = (Ret (), S')"
  shows "exclusive S'"
proof -
  obtain rs f s where S: "S = (rs, f, s)" by (cases S) auto
  show ?thesis
  proof (cases "i < length rs")
    case False
    with run ex show ?thesis by (simp add: S reader_turn_def)
  next
    case i: True
    note upd = exclusive_update [OF ex [unfolded S] i]
    obtain r f' s' where st: "reader_step E (rs ! i) (f, s) = (r, f', s')"
      by (cases "reader_step E (rs ! i) (f, s)") auto
    show ?thesis
    proof (cases r)
      case (Ret r')
      then have S': "S' = (rs[i := r'], f', s')" using run i st by (simp add: S reader_turn_def)
      show ?thesis unfolding S'
        by (rule upd, rule reader_step_mutex [OF st [unfolded Ret]]) simp_all
    next
      case (Throw e)
      then have S': "S' = (rs[i := (rs ! i)\<lparr>r_at := Failed e\<rparr>], unlock_for (r_at (rs ! i)) f', s')"
        using run i st by (simp add: S reader_turn_def)
      show ?thesis unfolding S'
        by (rule upd) (use Throw st in \<open>simp add: unlock_for_def reader_step_throw\<close>)
    qed (use run i st in \<open>simp_all add: S reader_turn_def\<close>)
  qed
qed

lemma exclusive_run: "exclusive S \<Longrightarrow> run_readers E is S = (Ret (), S') \<Longrightarrow> exclusive S'"
proof (induction "is" arbitrary: S)
  case Nil
  then show ?case by (simp add: comp_simps)
next
  case (Cons i "is")
  from Cons.prems(2) obtain S1 where "reader_turn E i S = (Ret (), S1)" "run_readers E is S1 = (Ret (), S')"
    by (auto dest!: bind_result)
  with Cons show ?case using exclusive_turn by blast
qed

section \<open>A thread alone\<close>

text \<open>
  The steps are those of \<open>File::read\<close>: when a single thread runs, what it does to the object and
  the process, and what it reads, is what \<open>file_read\<close> does, whatever the environment.
\<close>

definition alone :: "reader \<Rightarrow> 'y file_obj_scheme \<times> ('w, 'x) process_scheme \<Rightarrow> ('y, 'w, 'x) readers" where
  "alone r fs = ([r], fs)"

definition leads_to :: "'w env \<Rightarrow> ('y, 'w, 'x) readers \<Rightarrow> ('y, 'w, 'x) readers \<Rightarrow> bool" where
  "leads_to E S S' \<longleftrightarrow> (\<exists>n. run_readers E (replicate n 0) S = (Ret (), S'))"

lemma leads_to_refl: "leads_to E S S"
  unfolding leads_to_def by (rule exI [of _ 0]) (simp add: comp_simps)

lemma leads_to_trans: "leads_to E S S' \<Longrightarrow> leads_to E S' S'' \<Longrightarrow> leads_to E S S''"
  unfolding leads_to_def
proof (elim exE)
  fix n k assume "run_readers E (replicate n 0) S = (Ret (), S')" "run_readers E (replicate k 0) S' = (Ret (), S'')"
  then have "run_readers E (replicate (n + k) 0) S = (Ret (), S'')"
    by (simp add: replicate_add run_readers_append bind_run)
  then show "\<exists>n. run_readers E (replicate n 0) S = (Ret (), S'')" by blast
qed

lemma leads_to_step:
  assumes "reader_step E r (f, s) = (Ret r', f', s')"
  shows "leads_to E (alone r (f, s)) (alone r' (f', s'))"
  unfolding leads_to_def
  by (rule exI [of _ 1]) (simp add: assms alone_def reader_turn_def bind_run comp_simps)

lemma leads_to_throw:
  assumes "reader_step E r (f, s) = (Throw e, f', s')"
  shows "leads_to E (alone r (f, s)) (alone (r\<lparr>r_at := Failed e\<rparr>) (unlock_for (r_at r) f', s'))"
  unfolding leads_to_def
  by (rule exI [of _ 1]) (simp add: assms alone_def reader_turn_def bind_run comp_simps)

abbreviation copy_out :: "int \<Rightarrow> int \<Rightarrow> ('y, 'w, 'x, int \<times> bytes) file_comp" where
  "copy_out k m \<equiv> bind this_get (\<lambda>f. case theCachedChunk f of
     None \<Rightarrow> fault BadPointer
   | Some bs \<Rightarrow> if 0 \<le> m \<and> m + k \<le> int (length bs) then ret (k, take (nat k) (drop (nat m) bs))
       else fault OutOfBounds)"

abbreviation unlocked :: "'y file_obj_scheme \<times> ('w, 'x) process_scheme \<Rightarrow>
    'y file_obj_scheme \<times> ('w, 'x) process_scheme" where
  "unlocked \<equiv> \<lambda>(f, s). (f\<lparr>mutex_read := False\<rparr>, s)"

fun lone_result :: "'w env \<Rightarrow> ('y, 'w, 'x) readers \<Rightarrow> reader \<Rightarrow>
    (int \<times> bytes) outcome \<times> 'y file_obj_scheme \<times> ('w, 'x) process_scheme \<Rightarrow> bool" where
  "lone_result E S r (Ret (k, bs), f', s') = leads_to E S (alone (r\<lparr>r_read := c_size_t (r_read r + k),
     r_data := r_data r @ bs, r_at := Turn\<rparr>) (f', s'))"
| "lone_result E S r (Throw e, f', s') = leads_to E S (alone (r\<lparr>r_at := Failed e\<rparr>) (f', s'))"
| "lone_result E S r _ = True"

lemma lone_result_trans: "leads_to E S S' \<Longrightarrow> lone_result E S' r x \<Longrightarrow> lone_result E S r x"
  by (cases "(E, S', r, x)" rule: lone_result.cases) (auto intro: leads_to_trans)

lemma lone_copy:
  "lone_result E (alone (r\<lparr>r_at := Copy n k m\<rparr>) (f, s)) r (with_dtor (copy_out k m) unlocked (f, s))"
proof (cases "\<exists>bs. theCachedChunk f = Some bs \<and> 0 \<le> m \<and> m + k \<le> int (length bs)")
  case True
  then obtain bs where bs: "theCachedChunk f = Some bs" "0 \<le> m" "m + k \<le> int (length bs)" by blast
  let ?bs = "take (nat k) (drop (nat m) bs)"
  have "leads_to E (alone (r\<lparr>r_at := Copy n k m\<rparr>) (f, s)) (alone (r\<lparr>r_at := Leave k ?bs\<rparr>) (f, s))"
    by (rule leads_to_step) (use bs in \<open>simp add: reader_step_def load_step_def bind_run comp_simps\<close>)
  moreover have "leads_to E (alone (r\<lparr>r_at := Leave k ?bs\<rparr>) (f, s)) (alone (r\<lparr>r_read := c_size_t (r_read r + k),
      r_data := r_data r @ ?bs, r_at := Turn\<rparr>) (f\<lparr>mutex_read := False\<rparr>, s))"
    by (rule leads_to_step) (use bs in \<open>simp add: reader_step_def load_step_def bind_run comp_simps\<close>)
  moreover have "with_dtor (copy_out k m) unlocked (f, s) = (Ret (k, ?bs), (f\<lparr>mutex_read := False\<rparr>, s))"
    using bs by (simp add: with_dtor_def bind_run comp_simps)
  ultimately show ?thesis by (auto intro: leads_to_trans)
next
  case False
  then show ?thesis by (auto simp: with_dtor_def bind_run comp_simps split: option.split)
qed

text \<open>The private \<open>read\<close>, from the lock to the release.\<close>

lemma assert_run:
  "assert_that nd (bind this_get (\<lambda>f. ret (P f))) (f, s) =
   (if nd \<or> P f then (Ret (), f, s) else (Fault AssertFailed, f, s))"
  by (simp add: assert_that_def bind_run comp_simps)

lemma lone_fetch:
  assumes n: "n \<noteq> theCachedChunkN f" and mu: "mutex_read f"
  shows "lone_result E (alone (r\<lparr>r_at := Fetch n k m\<rparr>) (f, s)) r
    (with_dtor (bind (fetch_chunk E n) (\<lambda>_. copy_out k m)) unlocked (f, s))"
proof -
  let ?r = "r\<lparr>r_at := Fetch n k m\<rparr>"
  let ?load = "bind (gridfile E) (\<lambda>g. outside (call (get_chunk E g n)))"
  have fetch: "fetch_chunk E n (f, s) = bind ?load (\<lambda>bs.
      bind (this_set (\<lambda>f. f\<lparr>theCachedChunk := Some bs\<rparr>)) (\<lambda>_. this_set (\<lambda>f. f\<lparr>theCachedChunkN := n\<rparr>))) (f, s)"
    using n by (simp add: fetch_chunk_def bind_run comp_simps bind_assoc)
  have step: "reader_step E ?r (f, s) = bind ?load (\<lambda>bs.
      bind (this_set (\<lambda>f. f\<lparr>theCachedChunk := Some bs\<rparr>)) (\<lambda>_. ret (r\<lparr>r_at := Stamp n k m\<rparr>))) (f, s)"
    by (simp add: reader_step_def load_step_def bind_assoc)
  obtain x g t where load: "?load (f, s) = (x, g, t)" by (cases "?load (f, s)") auto
  show ?thesis
  proof (cases x)
    case (Ret bs)
    note loaded = bind_Ret [where m = ?load, OF load [unfolded Ret]]
    let ?g = "g\<lparr>theCachedChunk := Some bs\<rparr>" and ?rs = "r\<lparr>r_at := Stamp n k m\<rparr>"
    have "leads_to E (alone ?r (f, s)) (alone ?rs (?g, t))"
      by (rule leads_to_step, unfold step loaded) (simp add: bind_run comp_simps)
    moreover have "leads_to E (alone ?rs (?g, t)) (alone (r\<lparr>r_at := Copy n k m\<rparr>) (?g\<lparr>theCachedChunkN := n\<rparr>, t))"
      by (rule leads_to_step) (simp add: reader_step_def load_step_def bind_run comp_simps)
    ultimately have copy: "leads_to E (alone ?r (f, s))
        (alone (r\<lparr>r_at := Copy n k m\<rparr>) (?g\<lparr>theCachedChunkN := n\<rparr>, t))"
      by (rule leads_to_trans)
    have "fetch_chunk E n (f, s) = (Ret (), (?g\<lparr>theCachedChunkN := n\<rparr>, t))"
      unfolding fetch loaded by (simp add: bind_run comp_simps)
    then have eq: "with_dtor (bind (fetch_chunk E n) (\<lambda>_. copy_out k m)) unlocked (f, s) =
        with_dtor (copy_out k m) unlocked (?g\<lparr>theCachedChunkN := n\<rparr>, t)"
      unfolding with_dtor_def by (simp only: bind_Ret)
    show ?thesis unfolding eq by (rule lone_result_trans [OF copy lone_copy])
  next
    case (Throw e)
    have "reader_step E ?r (f, s) = (Throw e, g, t)" by (simp only: step bind_Throw [where m = ?load, OF load [unfolded Throw]])
    then have "leads_to E (alone ?r (f, s)) (alone (?r\<lparr>r_at := Failed e\<rparr>) (unlock_for (r_at ?r) g, t))"
      by (rule leads_to_throw)
    moreover have "with_dtor (bind (fetch_chunk E n) (\<lambda>_. copy_out k m)) unlocked (f, s) =
        (Throw e, g\<lparr>mutex_read := False\<rparr>, t)"
      by (simp add: with_dtor_def bind_run [of "fetch_chunk E n"] fetch
          bind_Throw [where m = ?load, OF load [unfolded Throw]])
    ultimately show ?thesis by (simp add: unlock_for_def)
  qed (simp_all add: with_dtor_def bind_run [of "fetch_chunk E n"] fetch bind_run [of ?load] load)
qed

lemma lone_chunk:
  assumes r: "r_at r = Acquire n k m" and mu: "\<not> mutex_read f"
  shows "lone_result E (alone r (f, s)) r (file_read_chunk E n k m (f, s))"
proof -
  let ?f = "f\<lparr>mutex_read := True\<rparr>" and ?r = "r\<lparr>r_at := Compare n k m\<rparr>"
  let ?P = "ndebug E \<or> theChunkSize f \<noteq> 0 \<and> c_size_t (m + k) \<le> theChunkSize f \<and> c_size_t (m + k) \<le> theFileLength f"
  have 1: "leads_to E (alone r (f, s)) (alone ?r (?f, s))"
    by (rule leads_to_step) (use r mu in \<open>simp add: reader_step_def load_step_def bind_run comp_simps\<close>)
  show ?thesis
  proof (cases ?P)
    case False
    then have "fst (file_read_chunk E n k m (f, s)) = Fault AssertFailed"
      using mu by (auto simp: file_read_chunk_def with_lock_def bind_run comp_simps with_dtor_def assert_run)
    then show ?thesis by (cases "file_read_chunk E n k m (f, s)") auto
  next
    case P: True
    have eq: "file_read_chunk E n k m (f, s) =
        with_dtor (bind (fetch_chunk E n) (\<lambda>_. copy_out k m)) unlocked (?f, s)"
      using P mu by (auto simp: file_read_chunk_def with_lock_def bind_run comp_simps with_dtor_def assert_run
          split: prod.split outcome.split)
    let ?r2 = "if n \<noteq> theCachedChunkN f then r\<lparr>r_at := Fetch n k m\<rparr> else r\<lparr>r_at := Copy n k m\<rparr>"
    have "leads_to E (alone ?r (?f, s)) (alone ?r2 (?f, s))"
      by (rule leads_to_step) (use P in \<open>auto simp: reader_step_def load_step_def bind_run comp_simps assert_run\<close>)
    with 1 have 2: "leads_to E (alone r (f, s)) (alone ?r2 (?f, s))" by (rule leads_to_trans)
    show ?thesis
    proof (cases "n = theCachedChunkN f")
      case True
      then have "file_read_chunk E n k m (f, s) = with_dtor (copy_out k m) unlocked (?f, s)"
        unfolding eq by (simp add: fetch_chunk_def bind_run comp_simps with_dtor_def)
      then show ?thesis using 2 True lone_copy [where E = E and r = r and n = n and k = k and m = m and f = ?f and s = s] by (simp add: lone_result_trans)
    next
      case False
      then show ?thesis using 2 lone_fetch [where E = E and r = r and n = n and k = k and m = m and f = ?f and s = s] by (simp add: eq lone_result_trans)
    qed
  qed
qed

text \<open>The whole loop, and the public \<open>read\<close> when the sizes are known.\<close>

lemma file_read_chunk_frame:
  assumes "file_read_chunk E n k m (f, s) = (Ret x, f', s')"
  shows "theChunkSize f' = theChunkSize f" "theFileLength f' = theFileLength f" "\<not> mutex_read f'"
proof -
  have "theChunkSize f' = theChunkSize f \<and> theFileLength f' = theFileLength f \<and> \<not> mutex_read f'"
  proof -
    obtain g t y where "fetch_chunk E n (f\<lparr>mutex_read := True\<rparr>, s) = (Ret y, g, t)"
      "f' = g\<lparr>mutex_read := False\<rparr>"
      using assms by (auto simp: file_read_chunk_def with_lock_def with_dtor_def assert_run bind_run comp_simps
          split: if_splits prod.splits outcome.splits option.splits)
    moreover have "theChunkSize g = theChunkSize f \<and> theFileLength g = theFileLength f"
      using calculation(1) gridfile_frame [of E "f\<lparr>mutex_read := True\<rparr>" s]
      by (auto simp: fetch_chunk_def bind_run comp_simps split: if_splits prod.splits outcome.splits)
    ultimately show ?thesis by simp
  qed
  then show "theChunkSize f' = theChunkSize f" "theFileLength f' = theFileLength f" "\<not> mutex_read f'" by simp_all
qed

fun read_result :: "'w env \<Rightarrow> ('y, 'w, 'x) readers \<Rightarrow> reader \<Rightarrow>
    (int \<times> bytes) outcome \<times> 'y file_obj_scheme \<times> ('w, 'x) process_scheme \<Rightarrow> bool" where
  "read_result E S r (Ret (k, bs), fs') \<longleftrightarrow>
     leads_to E S (alone (r\<lparr>r_read := k, r_data := bs, r_at := Finished\<rparr>) fs')"
| "read_result E S r (Throw e, fs') \<longleftrightarrow> (\<exists>r'. leads_to E S (alone r' fs') \<and> r_at r' = Failed e)"
| "read_result E S r _ = True"

lemma read_result_trans: "leads_to E S S' \<Longrightarrow> read_result E S' r x \<Longrightarrow> read_result E S r x"
  by (cases "(E, S', r, x)" rule: read_result.cases) (auto intro: leads_to_trans)

lemma read_result_request:
  "r_size r' = r_size r \<Longrightarrow> r_offset r' = r_offset r \<Longrightarrow> read_result E S r' x \<Longrightarrow> read_result E S r x"
  by (cases "(E, S, r, x)" rule: read_result.cases; cases r; cases r') simp_all

lemma next_piece_state: "next_piece f sz off r s = (x, s') \<Longrightarrow> s' = s"
  by (auto simp: next_piece_def bind_run comp_simps Let_def split: prod.splits outcome.splits)

lemma lone_loop:
  assumes "r_at r = Turn" "\<not> mutex_read f"
  shows "read_result E (alone r (f, s)) r
    (read_loop E fuel (r_size r) (r_offset r) (r_read r) (r_data r) (f, s))"
  using assms
proof (induction fuel arbitrary: r f s)
  case 0
  then show ?case by (simp add: comp_simps)
next
  case (Suc fuel)
  note at = Suc.prems(1) and mu = Suc.prems(2)
  show ?case
  proof (cases "r_read r \<noteq> r_size r \<and> c_size_t (r_offset r + r_read r) < theFileLength f")
    case False
    have "leads_to E (alone r (f, s)) (alone (r\<lparr>r_at := Finished\<rparr>) (f, s))"
      by (rule leads_to_step) (use at False in \<open>auto simp: reader_step_def load_step_def bind_run comp_simps\<close>)
    with False show ?thesis unfolding read_loop_turn by (auto simp: bind_run comp_simps)
  next
    case True
    let ?piece = "next_piece f (r_size r) (r_offset r) (r_read r)"
    let ?rest = "\<lambda>(n, k, m). bind (file_read_chunk E n k m) (\<lambda>(k', bs).
        read_loop E fuel (r_size r) (r_offset r) (c_size_t (r_read r + k')) (r_data r @ bs))"
    have loop: "read_loop E (Suc fuel) (r_size r) (r_offset r) (r_read r) (r_data r) (f, s) = bind ?piece ?rest (f, s)"
      unfolding read_loop_turn using True by (simp add: bind_run [of this_get] this_run)
    have step: "reader_step E r (f, s) = bind ?piece (\<lambda>(n, k, m). ret (r\<lparr>r_at := Acquire n k m\<rparr>)) (f, s)"
      using True at by (simp add: reader_step_def load_step_def bind_run [of this_get] this_run)
    obtain x where x: "?piece (f, s) = (x, f, s)" using next_piece_state by (metis surj_pair)
    show ?thesis
    proof (cases x)
      case (Ret nkm)
      obtain n k m where nkm: "nkm = (n, k, m)" by (cases nkm) auto
      note p = x [unfolded Ret nkm]
      let ?a = "r\<lparr>r_at := Acquire n k m\<rparr>"
      have 1: "leads_to E (alone r (f, s)) (alone ?a (f, s))"
        by (rule leads_to_step) (simp add: step bind_Ret [where m = ?piece, OF p] comp_simps)
      have chunk: "lone_result E (alone ?a (f, s)) ?a (file_read_chunk E n k m (f, s))"
        by (rule lone_chunk) (use mu in simp_all)
      have loop': "read_loop E (Suc fuel) (r_size r) (r_offset r) (r_read r) (r_data r) (f, s) =
          bind (file_read_chunk E n k m) (\<lambda>(k', bs).
            read_loop E fuel (r_size r) (r_offset r) (c_size_t (r_read r + k')) (r_data r @ bs)) (f, s)"
        unfolding loop by (simp add: bind_Ret [where m = ?piece, OF p])
      obtain y f1 s1 where y: "file_read_chunk E n k m (f, s) = (y, f1, s1)"
        by (cases "file_read_chunk E n k m (f, s)") auto
      show ?thesis
      proof (cases y)
        case (Ret kbs)
        obtain k' bs where kbs: "kbs = (k', bs)" by (cases kbs)
        note q = y [unfolded Ret kbs]
        let ?b = "?a\<lparr>r_read := c_size_t (r_read r + k'), r_data := r_data r @ bs, r_at := Turn\<rparr>"
        have 2: "leads_to E (alone ?a (f, s)) (alone ?b (f1, s1))" using chunk by (simp add: q)
        have "read_result E (alone ?b (f1, s1)) ?b (read_loop E fuel (r_size ?b) (r_offset ?b) (r_read ?b)
            (r_data ?b) (f1, s1))"
          by (rule Suc.IH) (use file_read_chunk_frame(3) [OF q] in simp_all)
        then have "read_result E (alone ?b (f1, s1)) ?b (read_loop E fuel (r_size r) (r_offset r)
            (c_size_t (r_read r + k')) (r_data r @ bs) (f1, s1))" by simp
        then have "read_result E (alone ?b (f1, s1)) r (read_loop E fuel (r_size r) (r_offset r)
            (c_size_t (r_read r + k')) (r_data r @ bs) (f1, s1))"
          by (rule read_result_request [rotated 2]) simp_all
        then show ?thesis
          using leads_to_trans [OF 1 2] loop' by (simp add: bind_Ret [where m = "file_read_chunk E n k m", OF q]
            read_result_trans)
      next
        case (Throw e)
        then have "leads_to E (alone ?a (f, s)) (alone (?a\<lparr>r_at := Failed e\<rparr>) (f1, s1))"
          using chunk by (simp add: y)
        from leads_to_trans [OF 1 this] show ?thesis
          by (auto simp: loop' bind_Throw [where m = "file_read_chunk E n k m", OF y [unfolded Throw]]
              intro: exI [of _ "?a\<lparr>r_at := Failed e\<rparr>"] simp del: read_loop.simps)
      qed (simp_all add: loop' bind_run [of "file_read_chunk E n k m"] y del: read_loop.simps)
    next
      case (Throw e)
      have "reader_step E r (f, s) = (Throw e, f, s)"
        by (simp only: step bind_Throw [where m = ?piece, OF x [unfolded Throw]])
      then have "leads_to E (alone r (f, s)) (alone (r\<lparr>r_at := Failed e\<rparr>) (unlock_for (r_at r) f, s))"
        by (rule leads_to_throw)
      then show ?thesis using at
        by (auto simp: loop bind_Throw [where m = ?piece, OF x [unfolded Throw]] unlock_for_def
            simp del: read_loop.simps)
    qed (simp_all add: loop bind_run [of ?piece] x del: read_loop.simps)
  qed
qed

text \<open>The two sizes: one thread loads them as \<open>file_read\<close> does.\<close>

fun load_result :: "'w env \<Rightarrow> ('y, 'w, 'x) readers \<Rightarrow> reader \<Rightarrow> bool \<Rightarrow>
    unit outcome \<times> 'y file_obj_scheme \<times> ('w, 'x) process_scheme \<Rightarrow> bool" where
  "load_result E S r b (Ret _, f, s) \<longleftrightarrow> leads_to E S (alone r (f, s)) \<and> mutex_read f = b"
| "load_result E S r b (Throw e, fs) \<longleftrightarrow> (\<exists>r'. leads_to E S (alone r' fs) \<and> r_at r' = Failed e)"
| "load_result E S r b _ = True"

lemma lone_load:
  fixes f :: "'y file_obj_scheme" and s :: "('w, 'x) process_scheme"
    and put :: "int \<Rightarrow> 'y file_obj_scheme \<Rightarrow> 'y file_obj_scheme"
  assumes "\<not> inside p" and test: "reader_step E r (f, s) = (Ret (r\<lparr>r_at := p\<rparr>), f, s)"
    and load: "reader_step E (r\<lparr>r_at := p\<rparr>) (f, s) =
      bind (gridfile E) (\<lambda>g. bind (getter (get g)) (\<lambda>n. ret (r\<lparr>r_at := q n\<rparr>))) (f, s)"
    and store: "\<And>n f (s :: ('w, 'x) process_scheme). reader_step E (r\<lparr>r_at := q n\<rparr>) (f, s) = (Ret r', put n f, s)"
    and mu: "\<And>n f. mutex_read (put n f) = mutex_read f"
  shows "load_result E (alone r (f, s)) r' (mutex_read f)
    (bind (gridfile E) (\<lambda>g. bind (getter (get g)) (\<lambda>n. this_set (put n))) (f, s))"
proof -
  let ?r = "r\<lparr>r_at := p\<rparr>"
  have 1: "leads_to E (alone r (f, s)) (alone ?r (f, s))" by (rule leads_to_step [OF test])
  have fail: "leads_to E (alone ?r (f, s)) (alone (?r\<lparr>r_at := Failed e\<rparr>) (h, t))"
    if "reader_step E ?r (f, s) = (Throw e, h, t)" for e h t
    using leads_to_throw [OF that] assms(1) by (simp add: unlock_for_def)
  obtain x h t where g: "gridfile E (f, s) = (x, h, t)" by (cases "gridfile E (f, s)") auto
  have h: "mutex_read h = mutex_read f" using gridfile_frame [OF g] by auto
  show ?thesis
  proof (cases x)
    case (Ret v)
    show ?thesis
    proof (cases "get v")
      case (Inl e)
      then have "reader_step E ?r (f, s) = (Throw e, h, t)"
        using g Ret by (simp add: load bind_run [of "gridfile E"] getter_simps comp_simps)
      from leads_to_trans [OF 1 fail [OF this]] show ?thesis
        using Inl g Ret by (auto simp: bind_run [of "gridfile E"] getter_simps comp_simps)
    next
      case (Inr n)
      then have "leads_to E (alone ?r (f, s)) (alone (r\<lparr>r_at := q n\<rparr>) (h, t))"
        using g Ret by (intro leads_to_step) (simp add: load bind_run [of "gridfile E"] getter_simps comp_simps)
      moreover have "leads_to E (alone (r\<lparr>r_at := q n\<rparr>) (h, t)) (alone r' (put n h, t))"
        by (rule leads_to_step [OF store])
      ultimately have "leads_to E (alone r (f, s)) (alone r' (put n h, t))"
        using 1 leads_to_trans by blast
      then show ?thesis
        using Inr g Ret h mu by (simp add: bind_run [of "gridfile E"] getter_simps comp_simps)
    qed
  next
    case (Throw e)
    then have "reader_step E ?r (f, s) = (Throw e, h, t)" using g by (simp add: load bind_run [of "gridfile E"])
    from leads_to_trans [OF 1 fail [OF this]] show ?thesis
      using Throw g by (auto simp: bind_run [of "gridfile E"])
  qed (use g in \<open>simp_all add: bind_run [of "gridfile E"]\<close>)
qed

lemma lone_chunk_size:
  assumes "r_at r = Begin"
  shows "load_result E (alone r (f, s)) (r\<lparr>r_at := TestLength\<rparr>) (mutex_read f) (fetch_chunk_size E (f, s))"
proof (cases "theChunkSize f = 0")
  case False
  then show ?thesis using assms
    by (auto simp: fetch_chunk_size_def bind_run comp_simps reader_step_def load_step_def intro!: leads_to_step)
next
  case True
  then have "fetch_chunk_size E (f, s) = bind (gridfile E) (\<lambda>g. bind (getter (gf_chunk_size g)) (\<lambda>n.
      this_set (\<lambda>f. f\<lparr>theChunkSize := c_uint n\<rparr>))) (f, s)"
    by (simp add: fetch_chunk_size_def bind_run [of this_get] this_run)
  also have "load_result E (alone r (f, s)) (r\<lparr>r_at := TestLength\<rparr>) (mutex_read f) \<dots>"
    by (rule lone_load [where p = LoadChunk and q = SetChunk])
      (use assms True in \<open>simp_all add: reader_step_def load_step_def bind_run [of this_get] bind_run [of "this_set _"] this_run ret_def\<close>)
  finally show ?thesis .
qed

lemma lone_length:
  assumes "r_at r = TestLength"
  shows "load_result E (alone r (f, s)) (r\<lparr>r_at := Enter\<rparr>) (mutex_read f) (fetch_length E (f, s))"
proof (cases "theFileLength f = 0")
  case False
  then show ?thesis using assms
    by (auto simp: fetch_length_def bind_run comp_simps reader_step_def load_step_def intro!: leads_to_step)
next
  case True
  then have "fetch_length E (f, s) = bind (gridfile E) (\<lambda>g. bind (getter (gf_content_length g)) (\<lambda>n.
      this_set (\<lambda>f. f\<lparr>theFileLength := c_size_t n\<rparr>))) (f, s)"
    by (simp add: fetch_length_def bind_run [of this_get] this_run)
  also have "load_result E (alone r (f, s)) (r\<lparr>r_at := Enter\<rparr>) (mutex_read f) \<dots>"
    by (rule lone_load [where p = LoadLength and q = SetLength])
      (use assms True in \<open>simp_all add: reader_step_def load_step_def bind_run [of this_get] bind_run [of "this_set _"] this_run ret_def\<close>)
  finally show ?thesis .
qed

lemma lone_enter:
  fixes E :: "'w env" and sz off :: int
  defines "r \<equiv> (new_reader (sz, off))\<lparr>r_at := Enter\<rparr>"
  assumes "\<not> mutex_read f"
  shows "read_result E (alone r (f, s)) r ((if theFileLength f < c_size_t off then ret (0, [])
      else read_loop E (Suc (nat sz)) sz off 0 []) (f, s))"
proof (cases "theFileLength f < c_size_t off")
  case True
  have "leads_to E (alone r (f, s)) (alone (r\<lparr>r_at := Finished\<rparr>) (f, s))"
    by (rule leads_to_step) (use True in \<open>simp add: reader_step_def load_step_def r_def new_reader_def bind_run comp_simps\<close>)
  with True show ?thesis by (simp add: comp_simps new_reader_def r_def)
next
  case False
  have 1: "leads_to E (alone r (f, s)) (alone (r\<lparr>r_at := Turn\<rparr>) (f, s))"
    by (rule leads_to_step) (use False in \<open>simp add: reader_step_def load_step_def r_def new_reader_def bind_run comp_simps\<close>)
  have "read_result E (alone (r\<lparr>r_at := Turn\<rparr>) (f, s)) r (read_loop E (Suc (nat sz)) sz off 0 [] (f, s))"
    using lone_loop [of "r\<lparr>r_at := Turn\<rparr>" f E s "Suc (nat sz)"] assms(2)
    by (intro read_result_request [of "r\<lparr>r_at := Turn\<rparr>" r])
      (simp_all add: new_reader_def r_def del: read_loop.simps)
  from read_result_trans [OF 1 this] False show ?thesis by simp
qed

lemma load_result_bind:
  assumes "load_result E S r' b (m fs)"
    and "\<And>f s. mutex_read f = b \<Longrightarrow> read_result E (alone r' (f, s)) r (k () (f, s))"
  shows "read_result E S r (bind m k fs)"
proof -
  obtain x f s where x: "m fs = (x, f, s)" by (cases "m fs") auto
  show ?thesis
  proof (cases x)
    case (Ret u)
    with assms(1) x have l: "leads_to E S (alone r' (f, s))" "mutex_read f = b" by simp_all
    from read_result_trans [OF l(1) assms(2) [OF l(2)]] show ?thesis using x Ret by (simp add: bind_run [of m])
  qed (use assms(1) x in \<open>simp_all add: bind_run [of m]\<close>)
qed

lemma lone_read:
  assumes "\<not> mutex_read f"
  shows "read_result E (alone (new_reader (sz, off)) (f, s)) (new_reader (sz, off)) (file_read E sz off (f, s))"
  unfolding file_read_def
proof (rule load_result_bind, rule lone_chunk_size, goal_cases)
  case 1
  show ?case by (simp add: new_reader_def)
next
  case (2 f1 s1)
  show ?case
  proof (rule load_result_bind, rule lone_length, goal_cases)
    case 1
    show ?case by simp
  next
    case (2 f2 s2)
    let ?r = "(new_reader (sz, off))\<lparr>r_at := Enter\<rparr>"
    have "read_result E (alone ?r (f2, s2)) (new_reader (sz, off)) ((if theFileLength f2 < c_size_t off then ret (0, [])
        else read_loop E (Suc (nat sz)) sz off 0 []) (f2, s2))"
      using lone_enter [of f2 E sz off s2] assms 2 \<open>mutex_read f1 = mutex_read f\<close>
      by (intro read_result_request [of ?r "new_reader (sz, off)"]) (simp_all add: new_reader_def del: read_loop.simps)
    then show ?case by (simp add: bind_run [of this_get] this_run del: read_loop.simps)
  qed
qed

end
