(* ===== verification/Shared_Correct.thy ===== *)
theory Shared_Correct
  imports Shared_Reads
begin

text \<open>
  Threads that read through one handle, under the laws of the database: whatever the schedule,
  none fails, each gets the bytes of the document, and a fair schedule ends them all.
\<close>

section \<open>The invariant\<close>

text \<open>The piece of a chunk that the thread is about to copy.\<close>

definition piece_ok :: "doc \<Rightarrow> reader \<Rightarrow> int \<Rightarrow> int \<Rightarrow> int \<Rightarrow> bool" where
  "piece_ok d r n k m \<longleftrightarrow> n = (r_offset r + r_read r) div d_chunk d \<and>
     m = (r_offset r + r_read r) mod d_chunk d \<and> 0 < k \<and> r_read r + k \<le> r_size r \<and>
     r_offset r + r_read r + k \<le> d_length d \<and> m + k \<le> d_chunk d"

text \<open>The result of a whole read.\<close>

definition slice_of :: "doc \<Rightarrow> reader \<Rightarrow> bytes" where
  "slice_of d r = take (nat (r_size r)) (drop (nat (r_offset r)) (doc_content d))"

lemma slice_of_at [simp]: "slice_of d (r\<lparr>r_at := p\<rparr>) = slice_of d r"
  by (simp add: slice_of_def)

fun position_ok :: "doc \<Rightarrow> 'y file_obj_scheme \<Rightarrow> reader \<Rightarrow> position \<Rightarrow> bool" where
  "position_ok d f r Begin \<longleftrightarrow> r_read r = 0"
| "position_ok d f r LoadChunk \<longleftrightarrow> r_read r = 0"
| "position_ok d f r (SetChunk n) \<longleftrightarrow> r_read r = 0"
| "position_ok d f r TestLength \<longleftrightarrow> r_read r = 0"
| "position_ok d f r LoadLength \<longleftrightarrow> r_read r = 0"
| "position_ok d f r (SetLength n) \<longleftrightarrow> r_read r = 0"
| "position_ok d f r Enter \<longleftrightarrow> r_read r = 0"
| "position_ok d f r Turn \<longleftrightarrow> True"
| "position_ok d f r (Acquire n k m) \<longleftrightarrow> piece_ok d r n k m"
| "position_ok d f r (Compare n k m) \<longleftrightarrow> piece_ok d r n k m"
| "position_ok d f r (Fetch n k m) \<longleftrightarrow> piece_ok d r n k m"
| "position_ok d f r (Stamp n k m) \<longleftrightarrow> piece_ok d r n k m \<and> theCachedChunk f = Some (chunk_of d n)"
| "position_ok d f r (Copy n k m) \<longleftrightarrow> piece_ok d r n k m \<and> theCachedChunk f = Some (chunk_of d n) \<and>
     theCachedChunkN f = n"
| "position_ok d f r (Leave k bs) \<longleftrightarrow> 0 < k \<and> r_read r + k \<le> r_size r \<and>
     r_offset r + r_read r + k \<le> d_length d \<and>
     bs = take (nat k) (drop (nat (r_offset r + r_read r)) (d_data d))"
| "position_ok d f r Finished \<longleftrightarrow> r_data r = slice_of d r \<and> r_read r = int (length (slice_of d r))"
| "position_ok d f r (Failed e) \<longleftrightarrow> False"

text \<open>What a thread knows of the sizes: where it goes to load one the \<open>GridFile\<close> is there.\<close>

fun sizes_ok :: "doc \<Rightarrow> 'y file_obj_scheme \<Rightarrow> position \<Rightarrow> bool" where
  "sizes_ok d f Begin \<longleftrightarrow> True"
| "sizes_ok d f LoadChunk \<longleftrightarrow> theGridFile f \<noteq> None"
| "sizes_ok d f (SetChunk n) \<longleftrightarrow> n = d_chunk d"
| "sizes_ok d f TestLength \<longleftrightarrow> theChunkSize f = d_chunk d"
| "sizes_ok d f LoadLength \<longleftrightarrow> theChunkSize f = d_chunk d \<and> theGridFile f \<noteq> None"
| "sizes_ok d f (SetLength n) \<longleftrightarrow> theChunkSize f = d_chunk d \<and> n = d_length d"
| "sizes_ok d f p \<longleftrightarrow> sized d f"

fun starting :: "position \<Rightarrow> bool" where
  "starting Begin = True"
| "starting LoadChunk = True"
| "starting (SetChunk n) = True"
| "starting TestLength = True"
| "starting LoadLength = True"
| "starting (SetLength n) = True"
| "starting Enter = True"
| "starting _ = False"

definition thread_ok :: "doc \<Rightarrow> 'y file_obj_scheme \<Rightarrow> reader \<Rightarrow> bool" where
  "thread_ok d f r \<longleftrightarrow> 0 \<le> r_offset r \<and> 0 \<le> r_size r \<and> r_offset r + r_size r < 2 ^ 63 \<and>
     0 \<le> r_read r \<and> r_read r \<le> r_size r \<and>
     r_data r = take (nat (r_read r)) (drop (nat (r_offset r)) (d_data d)) \<and>
     (\<not> starting (r_at r) \<and> r_at r \<noteq> Finished \<longrightarrow> r_offset r + r_read r \<le> d_length d) \<and>
     sizes_ok d f (r_at r) \<and> position_ok d f r (r_at r)"

fun at_stamp :: "position \<Rightarrow> bool" where
  "at_stamp (Stamp n k m) = True"
| "at_stamp _ = False"

definition cache_right :: "doc \<Rightarrow> 'y file_obj_scheme \<Rightarrow> bool" where
  "cache_right d f \<longleftrightarrow> theCachedChunkN f = - 1 \<or>
     0 \<le> theCachedChunkN f \<and> theCachedChunk f = Some (chunk_of d (theCachedChunkN f))"

definition shared_file :: "doc list \<Rightarrow> doc \<Rightarrow> 'y file_obj_scheme \<Rightarrow> bool" where
  "shared_file ds d f \<longleftrightarrow> current ds f \<and> newest (thePath f) ds = Some d \<and>
     theChunkSize f \<in> {0, d_chunk d} \<and> theFileLength f \<in> {0, d_length d} \<and>
     (theGridFile f \<noteq> None \<or> theChunkSize f \<noteq> 0 \<and> theFileLength f \<noteq> 0)"

lemma shared_file_update [simp]:
  "shared_file ds d (f\<lparr>mutex_read := b\<rparr>) = shared_file ds d f"
  "shared_file ds d (f\<lparr>theCachedChunkN := n\<rparr>) = shared_file ds d f"
  "shared_file ds d (f\<lparr>theCachedChunk := c\<rparr>) = shared_file ds d f"
  by (simp_all add: shared_file_def current_def sized_def)

definition readable_doc :: "doc \<Rightarrow> bool" where
  "readable_doc d \<longleftrightarrow> sound_length d \<and> d_length d \<le> 2 ^ 31 \<and> 0 < d_chunk d \<and> d_chunk d < 2 ^ 31"

text \<open>The mutex guards the cached chunk: a thread outside does not look at it.\<close>

lemma position_ok_outside:
  "\<not> inside p \<Longrightarrow> position_ok d f r p = position_ok d f' r p"
  by (cases p) simp_all

lemma position_ok_same:
  "theCachedChunk f' = theCachedChunk f \<Longrightarrow> theCachedChunkN f' = theCachedChunkN f \<Longrightarrow>
   position_ok d f r p = position_ok d f' r p"
  by (cases p) simp_all

text \<open>Sizes that are known stay known, and so does the \<open>GridFile\<close>.\<close>

definition grows :: "doc \<Rightarrow> 'y file_obj_scheme \<Rightarrow> 'y file_obj_scheme \<Rightarrow> bool" where
  "grows d f f' \<longleftrightarrow> (theChunkSize f = d_chunk d \<longrightarrow> theChunkSize f' = d_chunk d) \<and>
     (theFileLength f = d_length d \<longrightarrow> theFileLength f' = d_length d) \<and>
     (theGridFile f \<noteq> None \<longrightarrow> theGridFile f' \<noteq> None)"

lemma grows_refl [simp]: "grows d f f"
  by (simp add: grows_def)

lemma grows_update [simp]:
  "grows d f (f\<lparr>mutex_read := b\<rparr>)" "grows d f (f\<lparr>theCachedChunkN := n\<rparr>)" "grows d f (f\<lparr>theCachedChunk := c\<rparr>)"
  by (simp_all add: grows_def)

lemma sized_update [simp]:
  "sized d (f\<lparr>mutex_read := b\<rparr>) = sized d f" "sized d (f\<lparr>theCachedChunkN := n\<rparr>) = sized d f"
  "sized d (f\<lparr>theCachedChunk := c\<rparr>) = sized d f"
  by (simp_all add: sized_def)

lemma sizes_ok_grows: "sizes_ok d f p \<Longrightarrow> grows d f f' \<Longrightarrow> sizes_ok d f' p"
  by (cases p) (simp_all add: grows_def sized_def)

section \<open>Steps and what is left to do\<close>

fun rank :: "position \<Rightarrow> nat" where
  "rank Begin = 14"
| "rank LoadChunk = 13"
| "rank (SetChunk n) = 12"
| "rank TestLength = 11"
| "rank LoadLength = 10"
| "rank (SetLength n) = 9"
| "rank Enter = 8"
| "rank Turn = 7"
| "rank (Acquire n k m) = 6"
| "rank (Compare n k m) = 5"
| "rank (Fetch n k m) = 4"
| "rank (Stamp n k m) = 3"
| "rank (Copy n k m) = 2"
| "rank (Leave k bs) = 1"
| "rank Finished = 0"
| "rank (Failed e) = 0"

definition left :: "reader \<Rightarrow> nat" where
  "left r = (if r_at r = Finished then 0 else 8 * nat (r_size r - r_read r) + rank (r_at r))"

text \<open>What one step gives: never an error, and a turn further, except at a lock that is taken.\<close>

definition good_step ::
  "doc list \<Rightarrow> doc \<Rightarrow> 'y file_obj_scheme \<Rightarrow> reader \<Rightarrow> 'y file_obj_scheme \<Rightarrow> reader \<Rightarrow> bool" where
  "good_step ds d f r f' r' \<longleftrightarrow> shared_file ds d f' \<and> thread_ok d f' r' \<and>
     r_size r' = r_size r \<and> r_offset r' = r_offset r \<and> grows d f f' \<and>
     (inside (r_at r) \<longrightarrow> cache_right d f' \<or> at_stamp (r_at r')) \<and>
     (\<not> inside (r_at r) \<longrightarrow> theCachedChunk f' = theCachedChunk f \<and> theCachedChunkN f' = theCachedChunkN f)"

lemma sound_content: "sound_length d \<Longrightarrow> int (length (doc_content d)) = d_length d"
  by (auto simp: sound_length_def doc_content_def)

lemma finished_data:
  assumes d: "sound_length d" and r: "0 \<le> r_offset r" "0 \<le> r_read r" "r_read r \<le> r_size r"
    and data: "r_data r = take (nat (r_read r)) (drop (nat (r_offset r)) (d_data d))"
    and le: "r_offset r + r_read r \<le> d_length d"
    and stop: "r_read r = r_size r \<or> d_length d \<le> r_offset r + r_read r"
  shows "r_data r = slice_of d r" "r_read r = int (length (slice_of d r))"
proof -
  have sl: "slice_of d r = take (nat (r_size r)) (drop (nat (r_offset r)) (take (nat (d_length d)) (d_data d)))"
    by (simp add: slice_of_def doc_content_def)
  have "nat (r_read r) = min (nat (r_size r)) (nat (d_length d) - nat (r_offset r))"
    using r le stop by linarith
  then show 1: "r_data r = slice_of d r" unfolding sl data by (simp add: drop_take min.commute)
  have "d_length d \<le> int (length (d_data d))" using d by (simp add: sound_length_def)
  then have "int (length (r_data r)) = r_read r"
    using r(1,2) le unfolding data length_take length_drop by linarith
  then show "r_read r = int (length (slice_of d r))" by (simp add: 1)
qed

fun blocked :: "'y file_obj_scheme \<Rightarrow> position \<Rightarrow> bool" where
  "blocked f (Acquire n k m) = mutex_read f"
| "blocked f Finished = True"
| "blocked f _ = False"

lemma piece_facts:
  assumes "readable_doc d" "thread_ok d f r" "piece_ok d r n k m"
  shows "0 \<le> n" "0 \<le> m" "0 < k" "m + k \<le> d_chunk d" "n * d_chunk d + m = r_offset r + r_read r"
    "n * d_chunk d + m + k \<le> int (length (d_data d))" "n * d_chunk d < int (length (d_data d))"
    "c_size_t (m + k) = m + k" "m + k \<le> d_length d"
proof -
  have c: "0 < d_chunk d" "d_length d \<le> int (length (d_data d))" "d_chunk d < 2 ^ 31"
    using assms(1) by (simp_all add: readable_doc_def sound_length_def)
  have p: "0 \<le> r_offset r + r_read r" using assms(2) by (simp add: thread_ok_def)
  have n: "n = (r_offset r + r_read r) div d_chunk d" and m: "m = (r_offset r + r_read r) mod d_chunk d"
    and k: "0 < k" "m + k \<le> d_chunk d" "r_offset r + r_read r + k \<le> d_length d"
    using assms(3) by (simp_all add: piece_ok_def)
  show "0 \<le> n" "0 \<le> m" using p c unfolding n m by (simp_all add: pos_imp_zdiv_nonneg_iff)
  show split: "n * d_chunk d + m = r_offset r + r_read r" unfolding n m by simp
  show "0 < k" "m + k \<le> d_chunk d" using k by simp_all
  show "n * d_chunk d + m + k \<le> int (length (d_data d))" using split k(3) c(2) by linarith
  then show "n * d_chunk d < int (length (d_data d))" using \<open>0 \<le> m\<close> k(1) by linarith
  have "(2::int) ^ 31 < 2 ^ 64" by simp
  then show "c_size_t (m + k) = m + k" using \<open>0 \<le> m\<close> k c(3) by (intro c_size_t_id) linarith+
  have "0 \<le> n * d_chunk d" using \<open>0 \<le> n\<close> c(1) by simp
  then show "m + k \<le> d_length d" using split k(3) by linarith
qed

context backend
begin

lemma step_test:
  assumes f: "shared_file ds d f" and r: "thread_ok d f r" "r_at r = Begin \<or> r_at r = TestLength"
  shows "\<exists>r'. reader_step E r (f, s) = (Ret r', f, s) \<and> good_step ds d f r f r' \<and> left r' < left r"
proof (cases "r_at r = Begin")
  case True
  let ?r = "r\<lparr>r_at := if theChunkSize f = 0 then LoadChunk else TestLength\<rparr>"
  have "reader_step E r (f, s) = (Ret ?r, f, s)" using True by (simp add: reader_step_def load_step_def bind_run comp_simps)
  moreover have "good_step ds d f r f ?r" "left ?r < left r"
    using r(1) f True by (auto simp: good_step_def thread_ok_def left_def shared_file_def)
  ultimately show ?thesis by blast
next
  case False
  let ?r = "r\<lparr>r_at := if theFileLength f = 0 then LoadLength else Enter\<rparr>"
  have "reader_step E r (f, s) = (Ret ?r, f, s)" using False r(2) by (simp add: reader_step_def load_step_def bind_run comp_simps)
  moreover have "good_step ds d f r f ?r" "left ?r < left r"
    using r f False by (auto simp: good_step_def thread_ok_def left_def shared_file_def sized_def)
  ultimately show ?thesis by blast
qed

lemma step_load:
  assumes f: "shared_file ds d f" and r: "thread_ok d f r" "r_at r = LoadChunk \<or> r_at r = LoadLength"
  shows "\<exists>r'. reader_step E r (f, s) = (Ret r', f, s) \<and> good_step ds d f r f r' \<and> left r' < left r"
proof -
  have "theGridFile f \<noteq> None" using r by (auto simp: thread_ok_def)
  then obtain g where g: "theGridFile f = Some g" by blast
  then have s: "shows_doc g (Some d)" using f by (auto simp: shared_file_def current_def)
  have run: "gridfile E (f, s) = (Ret g, f, s)" using g by (simp add: gridfile_def bind_run comp_simps)
  let ?r = "if r_at r = LoadChunk then r\<lparr>r_at := SetChunk (d_chunk d)\<rparr> else r\<lparr>r_at := SetLength (d_length d)\<rparr>"
  have "reader_step E r (f, s) = (Ret ?r, f, s)"
    using r(2) run s by (auto simp: reader_step_def load_step_def bind_run comp_simps shows_doc_def)
  moreover have "good_step ds d f r f ?r" "left ?r < left r"
    using r f by (auto simp: good_step_def thread_ok_def left_def)
  ultimately show ?thesis by blast
qed

lemma step_set_chunk:
  assumes d: "readable_doc d" and f: "shared_file ds d f" and r: "thread_ok d f r" "r_at r = SetChunk n"
  shows "\<exists>r' f'. reader_step E r (f, s) = (Ret r', f', s) \<and> good_step ds d f r f' r' \<and> left r' < left r"
proof -
  have n: "n = d_chunk d" using r by (simp add: thread_ok_def)
  have c: "0 < d_chunk d" "d_chunk d < 2 ^ 31" using d by (simp_all add: readable_doc_def)
  have "(2::int) ^ 31 < 2 ^ 32" by simp
  then have "c_uint n = d_chunk d" unfolding n using c by (intro c_uint_id) linarith+
  then have "reader_step E r (f, s) = (Ret (r\<lparr>r_at := TestLength\<rparr>), f\<lparr>theChunkSize := d_chunk d\<rparr>, s)"
    using r(2) by (simp add: reader_step_def load_step_def bind_run comp_simps)
  moreover have "good_step ds d f r (f\<lparr>theChunkSize := d_chunk d\<rparr>) (r\<lparr>r_at := TestLength\<rparr>)"
    using r f c by (auto simp: good_step_def thread_ok_def shared_file_def current_def grows_def)
  moreover have "left (r\<lparr>r_at := TestLength\<rparr>) < left r" using r(2) by (simp add: left_def)
  ultimately show ?thesis by blast
qed

lemma step_set_length:
  assumes d: "readable_doc d" and f: "shared_file ds d f" and r: "thread_ok d f r" "r_at r = SetLength n"
  shows "\<exists>r' f'. reader_step E r (f, s) = (Ret r', f', s) \<and> good_step ds d f r f' r' \<and> left r' < left r"
proof -
  have n: "n = d_length d" "theChunkSize f = d_chunk d" using r by (simp_all add: thread_ok_def)
  have c: "0 \<le> d_length d" "d_length d \<le> 2 ^ 31" using d by (simp_all add: readable_doc_def sound_length_def)
  have "(2::int) ^ 31 < 2 ^ 64" by simp
  then have "c_size_t n = d_length d" unfolding n(1) using c by (intro c_size_t_id) linarith+
  then have "reader_step E r (f, s) = (Ret (r\<lparr>r_at := Enter\<rparr>), f\<lparr>theFileLength := d_length d\<rparr>, s)"
    using r(2) by (simp add: reader_step_def load_step_def bind_run comp_simps)
  moreover have "shared_file ds d (f\<lparr>theFileLength := d_length d\<rparr>)"
    using f by (auto simp: shared_file_def current_def)
  then have "good_step ds d f r (f\<lparr>theFileLength := d_length d\<rparr>) (r\<lparr>r_at := Enter\<rparr>)"
    using r n by (auto simp: good_step_def thread_ok_def grows_def sized_def)
  moreover have "left (r\<lparr>r_at := Enter\<rparr>) < left r" using r(2) by (simp add: left_def)
  ultimately show ?thesis by blast
qed

lemma step_enter:
  assumes d: "readable_doc d" and f: "shared_file ds d f" and r: "thread_ok d f r" "r_at r = Enter"
  shows "\<exists>r'. reader_step E r (f, s) = (Ret r', f, s) \<and> good_step ds d f r f r' \<and> left r' < left r"
proof -
  have off: "0 \<le> r_offset r" "r_offset r < 2 ^ 63" "r_read r = 0" "r_data r = []"
    "sound_length d" using r d by (auto simp: thread_ok_def readable_doc_def)
  have "(2::int) ^ 63 < 2 ^ 64" by simp
  then have cast: "c_size_t (r_offset r) = r_offset r" using off by (intro c_size_t_id) linarith+
  have f': "theFileLength f = d_length d" using r by (simp add: thread_ok_def sized_def)
  show ?thesis
  proof (cases "d_length d < r_offset r")
    case True
    have "slice_of d r = []" using sound_content [OF off(5)] True off(1) by (simp add: slice_of_def)
    with True r f off show ?thesis
      by (auto simp: reader_step_def load_step_def bind_run comp_simps cast f' good_step_def thread_ok_def left_def)
  next
    case False
    with r f off show ?thesis
      by (auto simp: reader_step_def load_step_def bind_run comp_simps cast f' good_step_def thread_ok_def left_def)
  qed
qed

lemma step_turn:
  assumes d: "readable_doc d" and f: "shared_file ds d f" and r: "thread_ok d f r" "r_at r = Turn"
  shows "\<exists>r'. reader_step E r (f, s) = (Ret r', f, s) \<and> good_step ds d f r f r' \<and> left r' < left r"
proof -
  let ?p = "r_offset r + r_read r"
  have b: "0 \<le> r_offset r" "0 \<le> r_read r" "r_read r \<le> r_size r" "?p \<le> d_length d"
    "r_offset r + r_size r < 2 ^ 63"
    "r_data r = take (nat (r_read r)) (drop (nat (r_offset r)) (d_data d))"
    using r by (simp_all add: thread_ok_def)
  have "(2::int) ^ 63 < 2 ^ 64" by simp
  then have cast: "c_size_t ?p = ?p" using b by (intro c_size_t_id) linarith+
  have f': "theChunkSize f = d_chunk d" "theFileLength f = d_length d"
    using r by (simp_all add: thread_ok_def sized_def)
  have d': "sound_length d" "d_length d \<le> 2 ^ 31" "0 < d_chunk d" "d_chunk d < 2 ^ 31"
    using d by (simp_all add: readable_doc_def)
  show ?thesis
  proof (cases "r_read r = r_size r \<or> d_length d \<le> ?p")
    case True
    note fin = finished_data [OF d'(1) b(1,2,3,6,4) True]
    let ?r = "r\<lparr>r_at := Finished\<rparr>"
    have "reader_step E r (f, s) = (Ret ?r, f, s)"
      using True r(2) by (auto simp: reader_step_def load_step_def bind_run comp_simps cast f')
    moreover have "good_step ds d f r f ?r" "left ?r < left r"
      using r f fin b by (simp_all add: good_step_def thread_ok_def left_def)
    ultimately show ?thesis by blast
  next
    case False
    then have t: "r_read r < r_size r" "?p < d_length d" using b by simp_all
    obtain k where k: "next_piece f (r_size r) (r_offset r) (r_read r) (f, s) =
        (Ret (?p div d_chunk d, k, ?p mod d_chunk d), (f, s))"
      "0 < k" "r_read r + k \<le> r_size r" "?p + k \<le> d_length d" "?p mod d_chunk d + k \<le> d_chunk d"
      by (rule next_piece_run [OF f' d'(2-4) b(1,2) t(1) b(5) t(2), of "(f, s)"])
    let ?r = "r\<lparr>r_at := Acquire (?p div d_chunk d) k (?p mod d_chunk d)\<rparr>"
    have "reader_step E r (f, s) = (Ret ?r, f, s)"
      using k(1) t r(2) by (simp add: reader_step_def load_step_def bind_run comp_simps cast f')
    moreover have "good_step ds d f r f ?r" "left ?r < left r"
      using r f b k by (auto simp: good_step_def thread_ok_def left_def piece_ok_def)
    ultimately show ?thesis by blast
  qed
qed

lemma step_compare:
  assumes d: "readable_doc d" and f: "shared_file ds d f" and r: "thread_ok d f r" "r_at r = Compare n k m"
    and c: "cache_right d f"
  shows "\<exists>r'. reader_step E r (f, s) = (Ret r', f, s) \<and> good_step ds d f r f r' \<and> left r' < left r"
proof -
  have p: "piece_ok d r n k m" using r by (simp add: thread_ok_def)
  note pf = piece_facts [OF d r(1) p]
  have f': "theChunkSize f = d_chunk d" "theFileLength f = d_length d"
    using r by (simp_all add: thread_ok_def sized_def)
  have a: "theChunkSize f \<noteq> 0" "c_size_t (m + k) \<le> theChunkSize f" "c_size_t (m + k) \<le> theFileLength f"
    using pf(4,8,9) d by (auto simp: f' readable_doc_def)
  let ?r = "if n \<noteq> theCachedChunkN f then r\<lparr>r_at := Fetch n k m\<rparr> else r\<lparr>r_at := Copy n k m\<rparr>"
  have "reader_step E r (f, s) = (Ret ?r, f, s)"
    using r(2) a by (simp add: reader_step_def load_step_def bind_run comp_simps assert_this)
  moreover have "good_step ds d f r f ?r" "left ?r < left r"
    using r f c p pf(1) by (auto simp: good_step_def thread_ok_def left_def cache_right_def piece_ok_def)
  ultimately show ?thesis by blast
qed

lemma step_fetch:
  assumes d: "readable_doc d" and f: "shared_file (docs (world s)) d f"
    and r: "thread_ok d f r" "r_at r = Fetch n k m"
  shows "\<exists>r' f' s'. reader_step E r (f, s) = (Ret r', f', s') \<and>
    good_step (docs (world s)) d f r f' r' \<and> left r' < left r \<and> evolves docs cached s (docs (world s)) s'"
proof -
  have p: "piece_ok d r n k m" using r by (simp add: thread_ok_def)
  note pf = piece_facts [OF d r(1) p]
  have cur: "current (docs (world s)) f" and new: "newest (thePath f) (docs (world s)) = Some d"
    using f by (simp_all add: shared_file_def)
  obtain g f1 s1 where 1: "gridfile E (f, s) = (Ret g, (f1, s1))" "shows_doc g (Some d)"
    "fetched (docs (world s)) f f1" "evolves docs cached s (docs (world s)) s1"
    using gridfile_run [OF cur] new by auto
  have d1: "docs (world s1) = docs (world s)" using evolves_docs [OF 1(4)] .
  have g1: "theGridFile f1 \<noteq> None" using gridfile_sets [OF 1(1)] by simp
  have "d \<in> set (docs (world s1))" using newest_in [OF new] by (simp add: d1)
  then obtain s2 where 2: "call (get_chunk E g n) s1 = (Ret (chunk_of d n), s2)"
    "evolves docs cached s1 (docs (world s1)) s2"
    using get_chunk_evolves [OF 1(2) _ pf(1,7)] by blast
  let ?f = "f1\<lparr>theCachedChunk := Some (chunk_of d n)\<rparr>" and ?r = "r\<lparr>r_at := Stamp n k m\<rparr>"
  have "reader_step E r (f, s) = (Ret ?r, ?f, s2)"
    using r(2) 1(1) 2(1) by (simp add: reader_step_def load_step_def bind_run comp_simps)
  moreover have "good_step (docs (world s)) d f r ?f ?r" "left ?r < left r"
    using r f p fetched_file [OF 1(3)] g1
    by (auto simp: good_step_def thread_ok_def left_def shared_file_def current_def sized_def piece_ok_def grows_def)
  moreover have "evolves docs cached s (docs (world s)) s2"
    using evolves_trans [OF 1(4) 2(2)] by (simp add: d1)
  ultimately show ?thesis by blast
qed

lemma step_stamp:
  assumes d: "readable_doc d" and f: "shared_file ds d f" and r: "thread_ok d f r" "r_at r = Stamp n k m"
  shows "\<exists>r' f'. reader_step E r (f, s) = (Ret r', f', s) \<and> good_step ds d f r f' r' \<and> left r' < left r"
proof -
  have p: "piece_ok d r n k m" "theCachedChunk f = Some (chunk_of d n)" using r by (simp_all add: thread_ok_def)
  let ?f = "f\<lparr>theCachedChunkN := n\<rparr>" and ?r = "r\<lparr>r_at := Copy n k m\<rparr>"
  have "reader_step E r (f, s) = (Ret ?r, ?f, s)"
    using r(2) by (simp add: reader_step_def load_step_def bind_run comp_simps)
  moreover have "good_step ds d f r ?f ?r" "left ?r < left r"
    using r f p piece_facts(1) [OF d r(1) p(1)]
    by (auto simp: good_step_def thread_ok_def left_def piece_ok_def cache_right_def)
  ultimately show ?thesis by blast
qed

lemma step_copy:
  assumes d: "readable_doc d" and f: "shared_file ds d f" and r: "thread_ok d f r" "r_at r = Copy n k m"
    and c: "cache_right d f"
  shows "\<exists>r'. reader_step E r (f, s) = (Ret r', f, s) \<and> good_step ds d f r f r' \<and> left r' < left r"
proof -
  have p: "piece_ok d r n k m" "theCachedChunk f = Some (chunk_of d n)" using r by (simp_all add: thread_ok_def)
  note pf = piece_facts [OF d r(1) p(1)]
  have "0 \<le> k" using pf(3) by simp
  note piece = doc_piece [OF pf(1,2) this pf(4,6)]
  let ?r = "r\<lparr>r_at := Leave k (take (nat k) (drop (nat m) (chunk_of d n)))\<rparr>"
  have "reader_step E r (f, s) = (Ret ?r, f, s)"
    using r(2) p(2) pf(2) piece(2) by (simp add: reader_step_def load_step_def bind_run comp_simps)
  moreover have "good_step ds d f r f ?r" "left ?r < left r"
    using r f p(1) c piece(1) pf(5) by (auto simp: good_step_def thread_ok_def left_def piece_ok_def)
  ultimately show ?thesis by blast
qed

lemma step_leave:
  assumes f: "shared_file ds d f" and r: "thread_ok d f r" "r_at r = Leave k bs" and c: "cache_right d f"
  shows "\<exists>r' f'. reader_step E r (f, s) = (Ret r', f', s) \<and> good_step ds d f r f' r' \<and> left r' < left r"
proof -
  have b: "0 \<le> r_offset r" "0 \<le> r_read r" "0 < k" "r_read r + k \<le> r_size r" "r_offset r + r_size r < 2 ^ 63"
    "r_offset r + r_read r + k \<le> d_length d"
    "r_data r = take (nat (r_read r)) (drop (nat (r_offset r)) (d_data d))"
    "bs = take (nat k) (drop (nat (r_offset r + r_read r)) (d_data d))"
    using r by (simp_all add: thread_ok_def)
  have "(2::int) ^ 63 < 2 ^ 64" by simp
  then have cast: "c_size_t (r_read r + k) = r_read r + k" using b by (intro c_size_t_id) linarith+
  let ?f = "f\<lparr>mutex_read := False\<rparr>"
    and ?r = "r\<lparr>r_read := r_read r + k, r_data := r_data r @ bs, r_at := Turn\<rparr>"
  have "reader_step E r (f, s) = (Ret ?r, ?f, s)"
    using r(2) cast by (simp add: reader_step_def load_step_def bind_run comp_simps)
  moreover have "r_data r @ bs = take (nat (r_read r + k)) (drop (nat (r_offset r)) (d_data d))"
    using take_drop_pieces [of "r_read r" "r_offset r" "r_read r + k" "d_data d"] b by (simp add: add.commute)
  then have "good_step ds d f r ?f ?r"
    using r f b c by (simp add: good_step_def thread_ok_def cache_right_def)
  moreover have "left ?r < left r" using b r(2) by (simp add: left_def)
  ultimately show ?thesis by blast
qed

lemma step_acquire:
  assumes f: "shared_file ds d f" and r: "thread_ok d f r" "r_at r = Acquire n k m" and m: "\<not> mutex_read f"
  shows "\<exists>r' f'. reader_step E r (f, s) = (Ret r', f', s) \<and> good_step ds d f r f' r' \<and> left r' < left r"
proof -
  let ?f = "f\<lparr>mutex_read := True\<rparr>" and ?r = "r\<lparr>r_at := Compare n k m\<rparr>"
  have "reader_step E r (f, s) = (Ret ?r, ?f, s)" using r(2) m by (simp add: reader_step_def load_step_def bind_run comp_simps)
  moreover have "good_step ds d f r ?f ?r" "left ?r < left r"
    using r f by (simp_all add: good_step_def thread_ok_def left_def piece_ok_def)
  ultimately show ?thesis by blast
qed

text \<open>A step of any thread that is not blocked.\<close>

lemma reader_step_ok:
  assumes d: "readable_doc d" and f: "shared_file (docs (world s)) d f" and r: "thread_ok d f r"
    and b: "\<not> blocked f (r_at r)"
    and c: "inside (r_at r) \<Longrightarrow> cache_right d f \<or> at_stamp (r_at r)"
  shows "\<exists>r' f' s'. reader_step E r (f, s) = (Ret r', f', s') \<and>
    good_step (docs (world s)) d f r f' r' \<and> left r' < left r \<and> evolves docs cached s (docs (world s)) s'"
proof (cases "r_at r")
  case Begin
  then show ?thesis using step_test [OF f r, of s] by (meson evolves_refl)
next
  case LoadChunk
  then show ?thesis using step_load [OF f r, of s] by (meson evolves_refl)
next
  case (SetChunk n)
  then show ?thesis using step_set_chunk [OF d f r SetChunk, of s] by (meson evolves_refl)
next
  case TestLength
  then show ?thesis using step_test [OF f r, of s] by (meson evolves_refl)
next
  case LoadLength
  then show ?thesis using step_load [OF f r, of s] by (meson evolves_refl)
next
  case (SetLength n)
  then show ?thesis using step_set_length [OF d f r SetLength, of s] by (meson evolves_refl)
next
  case Enter
  then show ?thesis using step_enter [OF d f r, of s] by (meson evolves_refl)
next
  case Turn
  then show ?thesis using step_turn [OF d f r, of s] by (meson evolves_refl)
next
  case (Acquire n k m)
  with b have "\<not> mutex_read f" by simp
  then show ?thesis using step_acquire [OF f r Acquire, of s] by (meson evolves_refl)
next
  case (Compare n k m)
  with c have "cache_right d f" by simp
  then show ?thesis using step_compare [OF d f r Compare, of s] by (meson evolves_refl)
next
  case (Fetch n k m)
  then show ?thesis by (rule step_fetch [OF d f r])
next
  case (Stamp n k m)
  then show ?thesis using step_stamp [OF d f r Stamp, of s] by (meson evolves_refl)
next
  case (Copy n k m)
  with c have "cache_right d f" by simp
  then show ?thesis using step_copy [OF d f r Copy, of s] by (meson evolves_refl)
next
  case (Leave k bs)
  with c have "cache_right d f" by simp
  then show ?thesis using step_leave [OF f r Leave, of s] by (meson evolves_refl)
qed (use b r in \<open>simp_all add: thread_ok_def\<close>)

lemma blocked_step:
  assumes "thread_ok d f r" "blocked f (r_at r)"
  shows "reader_step E r (f, s) = (Ret r, f, s)"
  using assms by (cases "r_at r") (simp_all add: reader_step_def load_step_def bind_run comp_simps)

end

section \<open>All threads\<close>

definition readers_ok :: "doc list \<Rightarrow> doc \<Rightarrow> ('y, 'w, 'x) readers \<Rightarrow> bool" where
  "readers_ok ds d S \<longleftrightarrow> exclusive S \<and> (case S of (rs, f, s) \<Rightarrow>
     shared_file ds d f \<and> (\<forall>r \<in> set rs. thread_ok d f r) \<and>
     (cache_right d f \<or> (\<exists>r \<in> set rs. at_stamp (r_at r))))"

definition total_left :: "('y, 'w, 'x) readers \<Rightarrow> nat" where
  "total_left S = sum_list (map left (fst S))"

lemma at_stamp_inside: "at_stamp p \<Longrightarrow> inside p"
  by (cases p) simp_all

text \<open>The cached chunk is right for the thread inside, and when no thread is inside.\<close>

lemma readers_cache:
  assumes ok: "readers_ok ds d (rs, f, s)" and i: "i < length rs"
    and free: "\<not> inside (r_at (rs ! i)) \<Longrightarrow> \<not> mutex_read f"
  shows "cache_right d f \<or> at_stamp (r_at (rs ! i))"
proof (cases "cache_right d f")
  case False
  then obtain j where j: "j < length rs" "at_stamp (r_at (rs ! j))"
    using ok by (auto simp: readers_ok_def in_set_conv_nth)
  then have "inside (r_at (rs ! j))" by (simp add: at_stamp_inside)
  with ok j(1) have "mutex_read f" by (auto simp: readers_ok_def exclusive_def)
  with free have "inside (r_at (rs ! i))" by blast
  with ok i j \<open>inside (r_at (rs ! j))\<close> have "i = j" by (auto simp: readers_ok_def exclusive_def)
  with j show ?thesis by simp
qed simp

lemma thread_ok_other:
  assumes "thread_ok d f r" "grows d f f'"
    and "\<not> inside (r_at r) \<or> theCachedChunk f' = theCachedChunk f \<and> theCachedChunkN f' = theCachedChunkN f"
  shows "thread_ok d f' r"
  using assms position_ok_outside [of "r_at r" d f r f'] position_ok_same [of f' f d r "r_at r"]
  by (auto simp: thread_ok_def intro: sizes_ok_grows)

lemma sum_list_update_less:
  "i < length xs \<Longrightarrow> y < (xs ! i :: nat) \<Longrightarrow> sum_list (xs[i := y]) < sum_list xs"
  using elem_le_sum_list [of i xs] by (simp add: sum_list_update)

text \<open>A good step of one thread keeps what all of them need.\<close>

lemma readers_ok_update:
  assumes ok: "readers_ok ds d (rs, f, s)" and i: "i < length rs"
    and g: "good_step ds d f (rs ! i) f' r'" and ex': "exclusive (rs[i := r'], f', s')"
  shows "readers_ok ds d (rs[i := r'], f', s')"
proof -
  have others: "thread_ok d f' (rs[i := r'] ! j)" if j: "j < length rs" for j
  proof (cases "j = i")
    case True
    with i g show ?thesis by (simp add: good_step_def)
  next
    case other: False
    then have "thread_ok d f (rs ! j)" using ok j by (simp add: readers_ok_def)
    moreover have "\<not> inside (r_at (rs ! j)) \<or> \<not> inside (r_at (rs ! i))"
      using ok i j other by (auto simp: readers_ok_def exclusive_def)
    then have "\<not> inside (r_at (rs ! j)) \<or>
        theCachedChunk f' = theCachedChunk f \<and> theCachedChunkN f' = theCachedChunkN f"
      using g by (auto simp: good_step_def)
    moreover have "grows d f f'" using g by (simp add: good_step_def)
    ultimately show ?thesis using other thread_ok_other by simp
  qed
  have cache: "cache_right d f' \<or> (\<exists>q \<in> set (rs[i := r']). at_stamp (r_at q))"
  proof (cases "inside (r_at (rs ! i))")
    case True
    with g i show ?thesis by (auto simp: good_step_def intro: set_update_memI)
  next
    case False
    then have same: "cache_right d f' = cache_right d f" using g by (auto simp: good_step_def cache_right_def)
    show ?thesis
    proof (cases "cache_right d f")
      case wrong: False
      then obtain j where j: "j < length rs" "at_stamp (r_at (rs ! j))"
        using ok by (auto simp: readers_ok_def in_set_conv_nth)
      then have "j \<noteq> i" using False at_stamp_inside by blast
      then have "rs ! j \<in> set (rs[i := r'])" using j(1) by (metis length_list_update nth_list_update_neq nth_mem)
      with j(2) show ?thesis by blast
    qed (simp add: same)
  qed
  show ?thesis using ex' others cache g by (simp add: readers_ok_def good_step_def all_set_conv_all_nth)
qed

context backend
begin

text \<open>A thread of the system moves, or waits and leaves everything as it is.\<close>

lemma reader_turn_ok:
  assumes d: "readable_doc d" and ok: "readers_ok (docs (world s)) d (rs, f, s)"
  shows "\<exists>rs' f' s'. reader_turn E i (rs, f, s) = (Ret (), rs', f', s') \<and>
    readers_ok (docs (world s)) d (rs', f', s') \<and> evolves docs cached s (docs (world s)) s' \<and>
    map r_size rs' = map r_size rs \<and> map r_offset rs' = map r_offset rs \<and>
    (total_left (rs', f', s') < total_left (rs, f, s) \<or>
     (rs', f', s') = (rs, f, s) \<and> (i < length rs \<longrightarrow> blocked f (r_at (rs ! i))))"
proof (cases "i < length rs")
  case False
  then show ?thesis using ok by (auto simp: reader_turn_def intro: evolves_refl)
next
  case i: True
  let ?r = "rs ! i" and ?ds = "docs (world s)"
  have ri: "?r \<in> set rs" using i by simp
  have f: "shared_file ?ds d f" and r: "thread_ok d f ?r" and ex: "exclusive (rs, f, s)"
    using ok ri by (auto simp: readers_ok_def)
  show ?thesis
  proof (cases "blocked f (r_at ?r)")
    case True
    then have "reader_turn E i (rs, f, s) = (Ret (), rs, f, s)"
      using i blocked_step [OF r True, of s] by (simp add: reader_turn_def)
    with ok True show ?thesis by (auto intro: evolves_refl)
  next
    case False
    have c: "inside (r_at ?r) \<Longrightarrow> cache_right d f \<or> at_stamp (r_at ?r)"
      using readers_cache [OF ok i] by blast
    obtain r' f' s' where st: "reader_step E ?r (f, s) = (Ret r', f', s')"
      "good_step ?ds d f ?r f' r'" "left r' < left ?r" "evolves docs cached s ?ds s'"
      using reader_step_ok [OF d f r False c] by blast
    have turn: "reader_turn E i (rs, f, s) = (Ret (), rs[i := r'], f', s')"
      using i st(1) by (simp add: reader_turn_def)
    have ex': "exclusive (rs[i := r'], f', s')" by (rule exclusive_turn [OF ex turn])
    have "readers_ok ?ds d (rs[i := r'], f', s')" by (rule readers_ok_update [OF ok i st(2) ex'])
    moreover have "map r_size (rs[i := r']) = map r_size rs" "map r_offset (rs[i := r']) = map r_offset rs"
      using st(2) i by (simp_all add: good_step_def map_update list_update_same_conv)
    moreover have "total_left (rs[i := r'], f', s') < total_left (rs, f, s)"
      using sum_list_update_less [of i "map left rs" "left r'"] i st(3) by (simp add: total_left_def map_update)
    ultimately show ?thesis using turn st(4) by blast
  qed
qed

text \<open>A schedule: without an error, and without progress only if every thread in it is blocked.\<close>

lemma run_readers_ok:
  assumes d: "readable_doc d" and ok: "readers_ok (docs (world s)) d (rs, f, s)"
  shows "\<exists>rs' f' s'. run_readers E is (rs, f, s) = (Ret (), rs', f', s') \<and>
    readers_ok (docs (world s)) d (rs', f', s') \<and> evolves docs cached s (docs (world s)) s' \<and>
    map r_size rs' = map r_size rs \<and> map r_offset rs' = map r_offset rs \<and>
    (total_left (rs', f', s') < total_left (rs, f, s) \<or>
     (rs', f', s') = (rs, f, s) \<and> (\<forall>i \<in> set is. i < length rs \<longrightarrow> blocked f (r_at (rs ! i))))"
  using ok
proof (induction "is" arbitrary: rs f s)
  case Nil
  then show ?case by (auto simp: comp_simps)
next
  case (Cons i "is")
  obtain rs1 f1 s1 where 1: "reader_turn E i (rs, f, s) = (Ret (), rs1, f1, s1)"
    "readers_ok (docs (world s)) d (rs1, f1, s1)" "evolves docs cached s (docs (world s)) s1"
    "map r_size rs1 = map r_size rs" "map r_offset rs1 = map r_offset rs"
    "total_left (rs1, f1, s1) < total_left (rs, f, s) \<or>
     (rs1, f1, s1) = (rs, f, s) \<and> (i < length rs \<longrightarrow> blocked f (r_at (rs ! i)))"
    using reader_turn_ok [OF d Cons.prems] by blast
  have d1: "docs (world s1) = docs (world s)" using evolves_docs [OF 1(3)] .
  obtain rs2 f2 s2 where 2: "run_readers E is (rs1, f1, s1) = (Ret (), rs2, f2, s2)"
    "readers_ok (docs (world s)) d (rs2, f2, s2)" "evolves docs cached s1 (docs (world s)) s2"
    "map r_size rs2 = map r_size rs1" "map r_offset rs2 = map r_offset rs1"
    "total_left (rs2, f2, s2) < total_left (rs1, f1, s1) \<or>
     (rs2, f2, s2) = (rs1, f1, s1) \<and> (\<forall>i \<in> set is. i < length rs1 \<longrightarrow> blocked f1 (r_at (rs1 ! i)))"
    using Cons.IH [of s1 rs1 f1] 1(2) unfolding d1 by blast
  have "run_readers E (i # is) (rs, f, s) = (Ret (), rs2, f2, s2)"
    using 1(1) 2(1) by (simp add: bind_run)
  moreover have "total_left (rs2, f2, s2) < total_left (rs, f, s) \<or>
     (rs2, f2, s2) = (rs, f, s) \<and> (\<forall>i \<in> set (i # is). i < length rs \<longrightarrow> blocked f (r_at (rs ! i)))"
    using 1(6) 2(6) by auto
  moreover have "evolves docs cached s (docs (world s)) s2" by (rule evolves_trans [OF 1(3) 2(3)])
  ultimately show ?case using 1(4,5) 2(2,4,5) by auto
qed

end

section \<open>The end\<close>

text \<open>Not all threads that are left can wait for the lock: the one inside can go on.\<close>

lemma all_blocked_finished:
  assumes ok: "readers_ok ds d (rs, f, s)" and b: "\<forall>i < length rs. blocked f (r_at (rs ! i))"
  shows "\<forall>r \<in> set rs. r_at r = Finished"
proof (rule ccontr)
  assume "\<not> ?thesis"
  then obtain i where i: "i < length rs" "r_at (rs ! i) \<noteq> Finished" by (auto simp: in_set_conv_nth)
  with b have "mutex_read f" by (cases "r_at (rs ! i)") auto
  then obtain j where j: "j < length rs" "inside (r_at (rs ! j))" using ok by (auto simp: readers_ok_def exclusive_def)
  with b show False by (cases "r_at (rs ! j)") auto
qed

lemma left_0: "thread_ok d f r \<Longrightarrow> left r = 0 \<longleftrightarrow> r_at r = Finished"
  by (cases "r_at r") (simp_all add: left_def thread_ok_def)

lemma total_left_0:
  assumes "readers_ok ds d (rs, f, s)"
  shows "total_left (rs, f, s) = 0 \<longleftrightarrow> (\<forall>r \<in> set rs. r_at r = Finished)"
proof -
  have "\<forall>r \<in> set rs. thread_ok d f r" using assms by (simp add: readers_ok_def)
  then show ?thesis using left_0 [of d f] by (auto simp: total_left_def)
qed

context backend
begin

text \<open>In a fair schedule, in whose rounds each thread has a turn, all end.\<close>

lemma fair_rounds_end:
  assumes d: "readable_doc d" and ok: "readers_ok (docs (world s)) d (rs, f, s)"
    and fair: "\<forall>round \<in> set rounds. {..<length rs} \<subseteq> set round"
  shows "\<exists>rs' f' s'. run_readers E (concat rounds) (rs, f, s) = (Ret (), rs', f', s') \<and>
    readers_ok (docs (world s)) d (rs', f', s') \<and> evolves docs cached s (docs (world s)) s' \<and>
    map r_size rs' = map r_size rs \<and> map r_offset rs' = map r_offset rs \<and>
    total_left (rs', f', s') \<le> total_left (rs, f, s) - length rounds"
  using ok fair
proof (induction rounds arbitrary: rs f s)
  case Nil
  then show ?case by (auto simp: comp_simps)
next
  case (Cons round rounds)
  obtain rs1 f1 s1 where 1: "run_readers E round (rs, f, s) = (Ret (), rs1, f1, s1)"
    "readers_ok (docs (world s)) d (rs1, f1, s1)" "evolves docs cached s (docs (world s)) s1"
    "map r_size rs1 = map r_size rs" "map r_offset rs1 = map r_offset rs"
    "total_left (rs1, f1, s1) < total_left (rs, f, s) \<or>
     (rs1, f1, s1) = (rs, f, s) \<and> (\<forall>i \<in> set round. i < length rs \<longrightarrow> blocked f (r_at (rs ! i)))"
    using run_readers_ok [OF d Cons.prems(1)] by blast
  have d1: "docs (world s1) = docs (world s)" using evolves_docs [OF 1(3)] .
  have len: "length rs1 = length rs" using 1(4) by (metis length_map)
  obtain rs2 f2 s2 where 2: "run_readers E (concat rounds) (rs1, f1, s1) = (Ret (), rs2, f2, s2)"
    "readers_ok (docs (world s)) d (rs2, f2, s2)" "evolves docs cached s1 (docs (world s)) s2"
    "map r_size rs2 = map r_size rs1" "map r_offset rs2 = map r_offset rs1"
    "total_left (rs2, f2, s2) \<le> total_left (rs1, f1, s1) - length rounds"
    using Cons.IH [of s1 rs1 f1] 1(2) Cons.prems(2) unfolding d1 len by auto
  have "total_left (rs1, f1, s1) < total_left (rs, f, s) \<or> total_left (rs1, f1, s1) = 0"
  proof (cases "total_left (rs1, f1, s1) < total_left (rs, f, s)")
    case False
    then have "(rs1, f1, s1) = (rs, f, s)" "\<forall>i < length rs. blocked f (r_at (rs ! i))"
      using 1(6) Cons.prems(2) by auto
    then show ?thesis using all_blocked_finished [OF Cons.prems(1)] total_left_0 [OF Cons.prems(1)] by simp
  qed simp
  then have "total_left (rs2, f2, s2) \<le> total_left (rs, f, s) - length (round # rounds)" using 2(6) by auto
  moreover have "run_readers E (concat (round # rounds)) (rs, f, s) = (Ret (), rs2, f2, s2)"
    using 1(1) 2(1) by (simp add: run_readers_append bind_run)
  moreover have "evolves docs cached s (docs (world s)) s2" by (rule evolves_trans [OF 1(3) 2(3)])
  ultimately show ?case using 1(4,5) 2(2,4,5) by auto
qed

end

section \<open>The start\<close>

lemma readers_start:
  assumes "reader_ok ds d f" "theGridFile f \<noteq> None \<or> theChunkSize f \<noteq> 0 \<and> theFileLength f \<noteq> 0"
    and "\<forall>(sz, off) \<in> set reqs. 0 \<le> off \<and> 0 \<le> sz \<and> off + sz < 2 ^ 63"
  shows "readers_ok ds d (map new_reader reqs, f, s)"
  using assms
  by (auto simp: readers_ok_def exclusive_def reader_ok_def shared_file_def thread_ok_def new_reader_def
      cache_right_def)

lemma readers_never_fail:
  assumes "readers_ok ds d (rs, f, s)" "i < length rs"
  shows "r_at (rs ! i) \<noteq> Failed e"
proof -
  have "thread_ok d f (rs ! i)" using assms by (simp add: readers_ok_def)
  then have "position_ok d f (rs ! i) (r_at (rs ! i))" by (simp only: thread_ok_def)
  then show ?thesis by (cases "r_at (rs ! i)") simp_all
qed

text \<open>What a thread was asked for, from the sizes and offsets that do not change.\<close>

lemma readers_done:
  assumes "readers_ok ds d (rs, f, s)" "map r_size rs = map fst reqs" "map r_offset rs = map snd reqs"
    and "i < length reqs" "r_at (rs ! i) = Finished"
  shows "r_data (rs ! i) = take (nat (fst (reqs ! i))) (drop (nat (snd (reqs ! i))) (doc_content d))"
    "r_read (rs ! i) = int (length (r_data (rs ! i)))"
proof -
  have len: "length rs = length reqs" using assms(2) by (metis length_map)
  then have "thread_ok d f (rs ! i)" using assms(1,4) by (simp add: readers_ok_def)
  moreover have "r_size (rs ! i) = fst (reqs ! i)" "r_offset (rs ! i) = snd (reqs ! i)"
    using assms(2-4) len by (metis nth_map)+
  moreover have "position_ok d f (rs ! i) Finished"
    using calculation(1) assms(5) by (simp only: thread_ok_def)
  then have "r_data (rs ! i) = slice_of d (rs ! i)" "r_read (rs ! i) = int (length (slice_of d (rs ! i)))"
    by (simp_all only: position_ok.simps)
  ultimately show "r_data (rs ! i) = take (nat (fst (reqs ! i))) (drop (nat (snd (reqs ! i))) (doc_content d))"
    "r_read (rs ! i) = int (length (r_data (rs ! i)))"
    by (simp_all only: slice_of_def)
qed

end
