(* ===== verification/Lazy_Load.thy ===== *)
theory Lazy_Load
  imports Ref_World
begin

text \<open>
  \<open>FilesystemEntry::gridfile\<close> fetches the \<open>GridFile\<close> of an object at its first use and keeps it
  behind an \<open>auto_ptr\<close>, with no lock. Here its expression \<open>gridfile().getChunkSize()\<close>, the first
  one of a read, is cut into the steps between which another thread can run: the test of the pointer,
  the search in the database, the \<open>reset\<close> of the pointer, which deletes what it held before, the
  reference that is returned, and its use. Threads that share an object whose file was fetched
  before are safe; two threads that meet before are not.
\<close>

section \<open>Threads\<close>

text \<open>The heap holds the \<open>GridFile\<close> objects; an address is never used again.\<close>

record lazy =
  l_ptr :: "nat option"
  l_heap :: "nat \<rightharpoonup> gridfile"
  l_next :: nat

datatype loader =
    Test | Find | Reset gridfile | Take | Use nat | Got "exn + int" | Raised exn

definition reset_ptr :: "gridfile \<Rightarrow> lazy \<Rightarrow> lazy" where
  "reset_ptr g l = \<lparr>l_ptr = Some (l_next l),
     l_heap = (case l_ptr l of None \<Rightarrow> l_heap l | Some a \<Rightarrow> (l_heap l)(a := None))(l_next l \<mapsto> g),
     l_next = Suc (l_next l)\<rparr>"

definition loader_step ::
  "'w env \<Rightarrow> string \<Rightarrow> loader \<Rightarrow> (lazy \<times> ('w, 'x) process_scheme, loader) comp" where
  "loader_step E path p = (case p of
     Test \<Rightarrow> bind this_get (\<lambda>l. ret (if l_ptr l = None then Find else Take))
   | Find \<Rightarrow> bind (outside (call (find_file E path))) (\<lambda>g. ret (Reset g))
   | Reset g \<Rightarrow> bind (this_set (reset_ptr g)) (\<lambda>_. ret Take)
   | Take \<Rightarrow> bind this_get (\<lambda>l. case l_ptr l of None \<Rightarrow> fault NullDeref | Some a \<Rightarrow> ret (Use a))
   | Use a \<Rightarrow> bind this_get (\<lambda>l. case l_heap l a of
       None \<Rightarrow> fault UseAfterFree | Some g \<Rightarrow> ret (Got (gf_chunk_size g)))
   | Got v \<Rightarrow> ret p
   | Raised e \<Rightarrow> ret p)"

type_synonym ('w, 'x) loaders = "loader list \<times> (lazy \<times> ('w, 'x) process_scheme)"

definition loader_turn :: "'w env \<Rightarrow> string \<Rightarrow> nat \<Rightarrow> (('w, 'x) loaders, unit) comp" where
  "loader_turn E path i = (\<lambda>(ps, l, s).
     if i < length ps then
       (case loader_step E path (ps ! i) (l, s) of
          (Ret p, l', s') \<Rightarrow> (Ret (), ps[i := p], l', s')
        | (Throw e, l', s') \<Rightarrow> (Ret (), ps[i := Raised e], l', s')
        | (Fault x, l', s') \<Rightarrow> (Fault x, ps, l', s')
        | (Exit n, l', s') \<Rightarrow> (Exit n, ps, l', s'))
     else (Ret (), ps, l, s))"

abbreviation run_loaders :: "'w env \<Rightarrow> string \<Rightarrow> nat list \<Rightarrow> (('w, 'x) loaders, unit list) comp" where
  "run_loaders E path \<equiv> perform_all (loader_turn E path)"

section \<open>One thread alone\<close>

text \<open>The steps are those of \<open>gridfile\<close>: the object of the entry is the one behind the pointer.\<close>

definition held :: "lazy \<Rightarrow> gridfile option" where
  "held l = Option.bind (l_ptr l) (l_heap l)"

definition sound :: "lazy \<Rightarrow> bool" where
  "sound l \<longleftrightarrow> (\<forall>a. l_ptr l = Some a \<longrightarrow> l_heap l a \<noteq> None)"

lemma lone_loader:
  assumes "sound l" "theGridFile e = held l" "thePath e = path"
  shows "case bind (gridfile E) (\<lambda>g. ret (gf_chunk_size g)) (e, s) of
      (Ret v, e', s') \<Rightarrow> \<exists>n us l'. run_loaders E path (replicate n 0) ([Test], l, s) = (Ret us, [Got v], l', s') \<and>
        theGridFile e' = held l' \<and> sound l'
    | (Throw x, e', s') \<Rightarrow> \<exists>n us l'. run_loaders E path (replicate n 0) ([Test], l, s) = (Ret us, [Raised x], l', s') \<and>
        theGridFile e' = held l' \<and> sound l'
    | _ \<Rightarrow> False"
proof (cases "l_ptr l")
  case (Some a)
  then obtain g where g: "l_heap l a = Some g" using assms(1) by (auto simp: sound_def)
  have "run_loaders E path (replicate 3 0) ([Test], l, s) = (Ret [(), (), ()], [Got (gf_chunk_size g)], l, s)"
    using Some g by (simp add: loader_turn_def loader_step_def bind_run comp_simps numeral_3_eq_3)
  then have "\<exists>n us l'. run_loaders E path (replicate n 0) ([Test], l, s) = (Ret us, [Got (gf_chunk_size g)], l', s) \<and>
      held l = held l' \<and> sound l'"
    using assms(1) by blast
  then show ?thesis
    using assms(2,3) Some g by (simp add: gridfile_def bind_run comp_simps held_def)
next
  case None
  obtain r w where f: "find_file E path (world s) = (r, w)" by (cases "find_file E path (world s)")
  show ?thesis
  proof (cases r)
    case (Inl x)
    have "run_loaders E path (replicate 2 0) ([Test], l, s) = (Ret [(), ()], [Raised x], l, s\<lparr>world := w\<rparr>)"
      using None f Inl by (simp add: loader_turn_def loader_step_def bind_run comp_simps call_def numeral_2_eq_2)
    then have "\<exists>n us l'. run_loaders E path (replicate n 0) ([Test], l, s) = (Ret us, [Raised x], l', s\<lparr>world := w\<rparr>) \<and>
        held l = held l' \<and> sound l'"
      using assms(1) by blast
    then show ?thesis
      using assms(2,3) None f Inl by (simp add: gridfile_def bind_run comp_simps call_def held_def)
  next
    case (Inr g)
    have "run_loaders E path (replicate 5 0) ([Test], l, s) =
        (Ret [(), (), (), (), ()], [Got (gf_chunk_size g)], reset_ptr g l, s\<lparr>world := w\<rparr>)"
      using None f Inr
      by (simp add: loader_turn_def loader_step_def bind_run comp_simps call_def eval_nat_numeral reset_ptr_def)
    moreover have "Some g = held (reset_ptr g l)" "sound (reset_ptr g l)"
      by (simp_all add: held_def sound_def reset_ptr_def)
    ultimately have "\<exists>n us l'. run_loaders E path (replicate n 0) ([Test], l, s) =
        (Ret us, [Got (gf_chunk_size g)], l', s\<lparr>world := w\<rparr>) \<and> Some g = held l' \<and> sound l'"
      by blast
    then show ?thesis
      using assms(2,3) None f Inr by (simp add: gridfile_def bind_run comp_simps call_def held_def)
  qed
qed

section \<open>Threads after the first use\<close>

text \<open>Once the pointer is set no thread changes it, and each gets the chunk size of the object behind it.\<close>

definition at_ease :: "nat \<Rightarrow> gridfile \<Rightarrow> loader \<Rightarrow> bool" where
  "at_ease a g p \<longleftrightarrow> p \<in> {Test, Take, Use a, Got (gf_chunk_size g)}"

lemma eased_turn:
  assumes "l_ptr l = Some a" "l_heap l a = Some g" "\<forall>p \<in> set ps. at_ease a g p"
  obtains ps' where "loader_turn E path i (ps, l, s) = (Ret (), ps', l, s)" "\<forall>p \<in> set ps'. at_ease a g p"
    "length ps' = length ps"
proof (cases "i < length ps")
  case False
  with assms(3) that show thesis by (simp add: loader_turn_def)
next
  case True
  then have "at_ease a g (ps ! i)" using assms(3) by simp
  then obtain p where p: "loader_step E path (ps ! i) (l, s) = (Ret p, l, s)" "at_ease a g p"
    using assms(1,2) by (auto simp: at_ease_def loader_step_def bind_run comp_simps)
  have "\<forall>q \<in> set (ps[i := p]). at_ease a g q"
    using assms(3) p(2) set_update_subset_insert [of ps i p] by auto
  with True p that [of "ps[i := p]"] show thesis by (simp add: loader_turn_def)
qed

lemma eased_run:
  assumes "l_ptr l = Some a" "l_heap l a = Some g"
  shows "\<forall>p \<in> set ps. at_ease a g p \<Longrightarrow>
    \<exists>us ps'. run_loaders E path sched (ps, l, s) = (Ret us, ps', l, s) \<and> (\<forall>p \<in> set ps'. at_ease a g p)"
proof (induction sched arbitrary: ps)
  case Nil
  then show ?case by (simp add: comp_simps)
next
  case (Cons i sched)
  obtain ps1 where 1: "loader_turn E path i (ps, l, s) = (Ret (), ps1, l, s)" "\<forall>p \<in> set ps1. at_ease a g p"
    by (rule eased_turn [OF assms Cons.prems])
  from Cons.IH [OF 1(2)] 1(1) show ?case by (fastforce simp: bind_run comp_simps)
qed

section \<open>Two first uses\<close>

text \<open>
  Both threads find the pointer null and both search. The first resets the pointer and takes the
  reference; the second resets it again, which deletes the object; the first follows its reference.
\<close>

definition meeting :: "nat list" where
  "meeting = [0, 1, 0, 1, 0, 0, 1, 0]"

lemma meeting_faults:
  assumes "l_ptr l = None" "find_file E path (world s) = (Inr g, w)" "find_file E path w = (Inr h, v)"
  shows "fst (run_loaders E path meeting (Test # Test # ps, l, s)) = Fault UseAfterFree"
  using assms
  by (simp add: meeting_def loader_turn_def loader_step_def bind_run comp_simps call_def reset_ptr_def)

end
