(* ===== verification/Concurrency_Theorems.thy ===== *)
theory Concurrency_Theorems
  imports File_Theorems Shared_Correct Lazy_Load
begin

text \<open>
  What holds when threads of FUSE read through one handle at the same time, under every schedule.
\<close>

section \<open>The lock\<close>

text \<open>C18: Whatever the servers answer and however the threads are scheduled, at most one of the
  threads that read through a handle is inside the lock, and the mutex is taken exactly while one is.\<close>

theorem one_reader_inside:
  assumes "\<not> mutex_read f"
    and "run_readers E sched (map new_reader reqs, f, s) = (Ret (), rs, f', s')"
  shows "(mutex_read f' \<longleftrightarrow> (\<exists>i < length rs. inside (r_at (rs ! i)))) \<and>
    (\<forall>i < length rs. \<forall>j < length rs. inside (r_at (rs ! i)) \<and> inside (r_at (rs ! j)) \<longrightarrow> i = j)"
proof -
  have "exclusive (map new_reader reqs, f, s)"
    using assms(1) by (simp add: exclusive_def new_reader_def)
  from exclusive_run [OF this assms(2)] show ?thesis by (simp add: exclusive_def)
qed

text \<open>The file of the demonstration as \<open>open\<close> leaves it: its \<open>GridFile\<close> is there, its sizes are not.\<close>

definition first_read_file :: file_obj where
  "first_read_file = (fresh_file ''/a'')\<lparr>theGridFile :=
     Some (show_doc (Some (plain_doc 1 ''/a'' (S_IFREG OR 0x1A4) ''hello'')))\<rparr>"

lemma first_read_file_ok:
  "reader_ok (ref_docs (world demo)) (plain_doc 1 ''/a'' (S_IFREG OR 0x1A4) ''hello'') first_read_file"
  "theGridFile first_read_file \<noteq> None \<or> theChunkSize first_read_file \<noteq> 0 \<and> theFileLength first_read_file \<noteq> 0"
  by (simp_all add: reader_ok_def first_read_file_def current_def file_of_entry_def shows_doc_show_doc)

theorem one_reader_inside_witness:
  "\<exists>rs f s. run_readers (ref_env []) [0, 1, 0, 1, 0, 0, 0, 1, 1, 1, 0, 1, 0, 1, 0, 1, 0, 1]
       (map new_reader [(5, 0), (3, 1)], first_read_file, demo) = (Ret (), rs, f, s) \<and> inside (r_at (rs ! 0)) \<and> mutex_read f \<and> \<not> inside (r_at (rs ! 1))"
proof -
  have casts: "c_size_t n = n" "c_int n = n" "c_off_t n = n" "c_uint n = n" if "n \<in> {0, 1, 3, 4, 5, 262144}" for n
    using that by (auto intro!: c_size_t_id c_int_id c_off_t_id c_uint_id)
  have dm: "c_div 0 262144 = Ret 0" "c_div 1 262144 = Ret 0" "c_mod 0 262144 = Ret 0" "c_mod 1 262144 = Ret 1"
    by (simp_all add: c_div_nonneg c_mod_nonneg)
  have nd: "ndebug (ref_env []) = True" by (simp add: ref_env_def)
  let ?rs = "[(new_reader (5, 0))\<lparr>r_at := Compare 0 5 0\<rparr>, (new_reader (3, 1))\<lparr>r_at := Acquire 0 3 1\<rparr>]"
  have run: "run_readers (ref_env []) [0, 1, 0, 1, 0, 0, 0, 1, 1, 1, 0, 1, 0, 1, 0, 1, 0, 1]
      (map new_reader [(5, 0), (3, 1)], first_read_file, demo) =
      (Ret (), ?rs, first_read_file\<lparr>theChunkSize := 262144, theFileLength := 5, mutex_read := True\<rparr>, demo)"
    by (simp add: reader_turn_def reader_step_def load_step_def new_reader_def next_piece_def bind_run comp_simps
        getter_simps gridfile_def show_doc_def MONGO_DEFAULT_CHUNK_SIZE_def first_read_file_def file_of_entry_def casts dm)
  have "\<not> mutex_read first_read_file" by (simp add: first_read_file_def file_of_entry_def)
  from one_reader_inside [OF this run] run show ?thesis by auto
qed

section \<open>What the threads read\<close>

text \<open>C6: Threads that read through one handle whose object has its \<open>GridFile\<close>, or already both sizes: under
  every schedule no thread fails, and each that has finished has read the bytes of the document that its
  request names; the documents stay as they are. The threads may be the first to need the sizes, which
  they then load without a lock. The condition is a real one: \<open>open\<close> fetches the \<open>GridFile\<close> only in a build
  with assertions; in a release build the first read through the handle does, and when two threads read
  first at the same time C19 gives a schedule that follows a deleted \<open>GridFile\<close>. The property is about the
  reads after that first one.\<close>

theorem parallel_reads_correct:
  assumes "backend E docs cached" "reader_ok (docs (world s)) d f"
    and "theGridFile f \<noteq> None \<or> theChunkSize f \<noteq> 0 \<and> theFileLength f \<noteq> 0"
    and "sound_length d" "d_length d \<le> 2 ^ 31" "0 < d_chunk d" "d_chunk d < 2 ^ 31"
    and "\<forall>(sz, off) \<in> set reqs. 0 \<le> off \<and> 0 \<le> sz \<and> off + sz < 2 ^ 63"
  shows "\<exists>rs f' s'. run_readers E sched (map new_reader reqs, f, s) = (Ret (), rs, f', s') \<and>
    docs (world s') = docs (world s) \<and>
    (\<forall>i < length reqs. (\<forall>e. r_at (rs ! i) \<noteq> Failed e) \<and>
      (r_at (rs ! i) = Finished \<longrightarrow> r_data (rs ! i) =
        take (nat (fst (reqs ! i))) (drop (nat (snd (reqs ! i))) (doc_content d))))"
proof -
  have d: "readable_doc d" using assms(4-7) by (simp add: readable_doc_def)
  obtain rs f' s' where 1: "run_readers E sched (map new_reader reqs, f, s) = (Ret (), rs, f', s')"
    "readers_ok (docs (world s)) d (rs, f', s')" "evolves docs cached s (docs (world s)) s'"
    "map r_size rs = map r_size (map new_reader reqs)" "map r_offset rs = map r_offset (map new_reader reqs)"
    using backend.run_readers_ok [OF assms(1) d readers_start [OF assms(2,3,8)]] by blast
  have m: "map r_size rs = map fst reqs" "map r_offset rs = map snd reqs"
    using 1(4,5) by (simp_all add: new_reader_def comp_def)
  have "length rs = length reqs" using m(1) by (metis length_map)
  then have "r_at (rs ! i) \<noteq> Failed e" if "i < length reqs" for i e
    using readers_never_fail [OF 1(2)] that by simp
  with 1(1) readers_done(1) [OF 1(2) m] evolves_docs [OF 1(3)] show ?thesis by blast
qed

theorem parallel_reads_correct_witness:
  "\<exists>rs f s. run_readers (ref_env []) [0, 1, 0, 1, 0, 1, 0, 0, 1, 1] (map new_reader [(5, 0), (3, 1)], first_read_file, demo) =
     (Ret (), rs, f, s) \<and> (r_at (rs ! 1) = Finished \<longrightarrow> r_data (rs ! 1) = ''ell'')"
proof -
  have "\<forall>(sz, off) \<in> set [(5, 0), (3, 1)]. 0 \<le> off \<and> 0 \<le> sz \<and> off + sz < (2 ^ 63 :: int)" by simp
  from parallel_reads_correct [OF ref_backend [where pre = "[]"] first_read_file_ok _ _ _ _ this, where sched = "[0, 1, 0, 1, 0, 1, 0, 0, 1, 1]"]
  show ?thesis by (fastforce simp: sound_length_def doc_content_def MONGO_DEFAULT_CHUNK_SIZE_def)
qed

text \<open>C17: No schedule can starve the threads for ever as long as it is fair: after as many rounds, in
  each of which every thread has a turn, as there are steps to take, all have finished, each with the
  bytes of its request. As in C6 the object has its \<open>GridFile\<close>, or already both sizes, when the threads
  start: in a release build that is so after a first read through the handle; C19 is about the other case.\<close>

theorem fair_schedules_end:
  assumes "backend E docs cached" "reader_ok (docs (world s)) d f"
    and "theGridFile f \<noteq> None \<or> theChunkSize f \<noteq> 0 \<and> theFileLength f \<noteq> 0"
    and "sound_length d" "d_length d \<le> 2 ^ 31" "0 < d_chunk d" "d_chunk d < 2 ^ 31"
    and "\<forall>(sz, off) \<in> set reqs. 0 \<le> off \<and> 0 \<le> sz \<and> off + sz < 2 ^ 63"
    and "\<forall>round \<in> set rounds. {..<length reqs} \<subseteq> set round"
    and "sum_list (map (\<lambda>(sz, off). 8 * nat sz + 14) reqs) \<le> length rounds"
  shows "\<exists>rs f' s'. run_readers E (concat rounds) (map new_reader reqs, f, s) = (Ret (), rs, f', s') \<and>
    (\<forall>i < length reqs. r_at (rs ! i) = Finished \<and> r_data (rs ! i) =
        take (nat (fst (reqs ! i))) (drop (nat (snd (reqs ! i))) (doc_content d)))"
proof -
  have d: "readable_doc d" using assms(4-7) by (simp add: readable_doc_def)
  have fair: "\<forall>round \<in> set rounds. {..<length (map new_reader reqs)} \<subseteq> set round" using assms(9) by simp
  obtain rs f' s' where 1: "run_readers E (concat rounds) (map new_reader reqs, f, s) = (Ret (), rs, f', s')"
    "readers_ok (docs (world s)) d (rs, f', s')"
    "map r_size rs = map r_size (map new_reader reqs)" "map r_offset rs = map r_offset (map new_reader reqs)"
    "total_left (rs, f', s') \<le> total_left (map new_reader reqs, f, s) - length rounds"
    using backend.fair_rounds_end [OF assms(1) d readers_start [OF assms(2,3,8)] fair] by blast
  have "total_left (map new_reader reqs, f, s) = sum_list (map (\<lambda>(sz, off). 8 * nat sz + 14) reqs)"
    by (simp add: total_left_def left_def new_reader_def comp_def split_def)
  then have "total_left (rs, f', s') = 0" using 1(5) assms(10) by simp
  then have fin: "\<forall>r \<in> set rs. r_at r = Finished" by (simp add: total_left_0 [OF 1(2)])
  have m: "map r_size rs = map fst reqs" "map r_offset rs = map snd reqs"
    using 1(3,4) by (simp_all add: new_reader_def comp_def)
  have "length rs = length reqs" using m(1) by (metis length_map)
  with fin 1(1) readers_done(1) [OF 1(2) m] show ?thesis by (metis nth_mem)
qed

theorem fair_schedules_end_witness:
  "\<exists>rs f s. run_readers (ref_env []) (concat (replicate 92 [1, 0])) (map new_reader [(5, 0), (3, 1)], first_read_file, demo) =
     (Ret (), rs, f, s) \<and> r_data (rs ! 0) = ''hello'' \<and> r_data (rs ! 1) = ''ell''"
proof -
  have r: "\<forall>(sz, off) \<in> set [(5, 0), (3, 1)]. 0 \<le> off \<and> 0 \<le> sz \<and> off + sz < (2 ^ 63 :: int)" by simp
  have fair: "\<forall>round \<in> set (replicate 92 [1, 0]). {..<length [(5, 0), (3, 1 :: int)]} \<subseteq> set round"
    by auto
  have len: "sum_list (map (\<lambda>(sz, off). 8 * nat sz + 14) [(5, 0), (3, 1 :: int)]) \<le> length (replicate 92 [1 :: nat, 0])"
    by simp
  from fair_schedules_end [OF ref_backend [where pre = "[]"] first_read_file_ok _ _ _ _ r, where rounds = "replicate 92 [1, 0]"] fair len
  show ?thesis by (fastforce simp: sound_length_def doc_content_def MONGO_DEFAULT_CHUNK_SIZE_def)
qed

text \<open>C16: The steps of a thread are those of \<open>File::read\<close>: when one thread runs alone, in any
  environment, and whether or not the sizes are known, it ends as \<open>file_read\<close> does, with the same bytes or the same
  exception, the same object and the same process.\<close>

theorem lone_reader_is_read:
  assumes "\<not> mutex_read f"
  shows "case file_read E sz off (f, s) of
      (Ret (n, bs), fs') \<Rightarrow> \<exists>k r. run_readers E (replicate k 0) ([new_reader (sz, off)], f, s) = (Ret (), [r], fs') \<and>
        r_at r = Finished \<and> r_read r = n \<and> r_data r = bs
    | (Throw e, fs') \<Rightarrow> \<exists>k r. run_readers E (replicate k 0) ([new_reader (sz, off)], f, s) = (Ret (), [r], fs') \<and>
        r_at r = Failed e
    | _ \<Rightarrow> True"
proof -
  have "read_result E ([new_reader (sz, off)], f, s) (new_reader (sz, off)) (file_read E sz off (f, s))"
    using lone_read [OF assms] by (simp add: alone_def)
  moreover obtain x fs where x: "file_read E sz off (f, s) = (x, fs)" by (cases "file_read E sz off (f, s)")
  ultimately have x: "file_read E sz off (f, s) = (x, fs)"
    and r: "read_result E ([new_reader (sz, off)], f, s) (new_reader (sz, off)) (x, fs)" by simp_all
  show ?thesis
  proof (cases x)
    case (Ret y)
    obtain n bs where y: "y = (n, bs)" by (cases y)
    let ?r = "(new_reader (sz, off))\<lparr>r_read := n, r_data := bs, r_at := Finished\<rparr>"
    obtain k where "run_readers E (replicate k 0) ([new_reader (sz, off)], f, s) = (Ret (), [?r], fs)"
      using r by (auto simp: Ret y leads_to_def alone_def)
    then have "\<exists>k r. run_readers E (replicate k 0) ([new_reader (sz, off)], f, s) = (Ret (), [r], fs) \<and>
        r_at r = Finished \<and> r_read r = n \<and> r_data r = bs"
      by (intro exI [of _ k] exI [of _ ?r]) simp
    then show ?thesis by (simp add: x Ret y)
  next
    case (Throw e)
    then show ?thesis using r by (auto simp: x leads_to_def alone_def)
  qed (simp_all add: x)
qed

theorem lone_reader_is_read_witness:
  "case file_read (ref_env []) 3 1 (first_read_file, demo) of
      (Ret (n, bs), fs') \<Rightarrow> \<exists>k r. run_readers (ref_env []) (replicate k 0) ([new_reader (3, 1)], first_read_file, demo) =
        (Ret (), [r], fs') \<and> r_at r = Finished \<and> r_read r = n \<and> r_data r = bs
    | (Throw e, fs') \<Rightarrow> \<exists>k r. run_readers (ref_env []) (replicate k 0) ([new_reader (3, 1)], first_read_file, demo) =
        (Ret (), [r], fs') \<and> r_at r = Failed e
    | _ \<Rightarrow> True"
  by (rule lone_reader_is_read) (simp_all add: first_read_file_def file_of_entry_def)

section \<open>The first use of a handle\<close>

text \<open>C19: Two or more threads that ask a shared object for its \<open>GridFile\<close> are safe under every schedule
  exactly when it was fetched before: else some schedule makes one thread follow a reference to the
  object that another one deleted.\<close>

theorem sharing_needs_a_loaded_file:
  assumes "\<And>w. \<exists>g w'. find_file E path w = (Inr g, w')" "sound l" "2 \<le> n"
  shows "(\<forall>sched. fst (run_loaders E path sched (replicate n Test, l, s)) \<noteq> Fault UseAfterFree) \<longleftrightarrow> l_ptr l \<noteq> None"
proof
  assume safe: "\<forall>sched. fst (run_loaders E path sched (replicate n Test, l, s)) \<noteq> Fault UseAfterFree"
  obtain k where n: "n = Suc (Suc k)" using assms(3) by (metis Suc_le_D numeral_2_eq_2 Suc_le_mono)
  show "l_ptr l \<noteq> None"
  proof
    assume "l_ptr l = None"
    moreover obtain g w where "find_file E path (world s) = (Inr g, w)" using assms(1) by blast
    moreover obtain h v where "find_file E path w = (Inr h, v)" using assms(1) by blast
    ultimately show False using meeting_faults [of l E path s g w h v "replicate k Test"] safe by (simp add: n)
  qed
next
  assume "l_ptr l \<noteq> None"
  then obtain a g where a: "l_ptr l = Some a" "l_heap l a = Some g" using assms(2) by (auto simp: sound_def)
  have "\<forall>p \<in> set (replicate n Test). at_ease a g p" by (simp add: at_ease_def)
  from eased_run [OF a this] show "\<forall>sched. fst (run_loaders E path sched (replicate n Test, l, s)) \<noteq> Fault UseAfterFree"
    by (metis fst_conv outcome.distinct(3))
qed

theorem sharing_needs_a_loaded_file_witness:
  "\<exists>sched. fst (run_loaders (ref_env []) ''/a'' sched
     (replicate 2 Test, \<lparr>l_ptr = None, l_heap = Map.empty, l_next = 1\<rparr>, demo)) = Fault UseAfterFree"
proof -
  have "\<exists>g w'. find_file (ref_env []) ''/a'' w = (Inr g, w')" for w by (simp add: ref_env_def)
  from sharing_needs_a_loaded_file [OF this, of "\<lparr>l_ptr = None, l_heap = Map.empty, l_next = 1\<rparr>" 2 demo]
  show ?thesis by (simp add: sound_def)
qed

end
