(* ===== verification/Cache_Race.thy ===== *)
theory Cache_Race
  imports Attribute_Theorems
begin

text \<open>
  Requests that run at the same time, in two threads or on two mounts with one memcached:
  \<open>getattr\<close> looks the entry up and stores its attributes in the cache later, and another callback
  may run between the two.
\<close>

section \<open>A request between the lookup and the store\<close>

text \<open>
  The environment of a callback in whose run another request \<open>other\<close> is served completely, just
  before the callback stores in the cache. The other request is served by another mount, of which
  \<open>serving w\<close> is the state.
\<close>

definition serving :: "'w \<Rightarrow> 'w fuse_state" where
  "serving w = \<lparr>world = w, conns = 0, caches = 0, objects = (\<lambda>_. None), next_addr = 1\<rparr>"

lemma serving_simps [simp]: "world (serving w) = w"
  by (simp add: serving_def)

definition interrupted :: "('w fuse_state, int) comp \<Rightarrow> 'w env \<Rightarrow> 'w env" where
  "interrupted other E = E\<lparr>mc_store := (\<lambda>k st w. mc_store E k st (world (snd (other (serving w)))))\<rparr>"

text \<open>A cache that loses nothing: a lookup keeps all entries, a store keeps what is stored.\<close>

definition remembers :: "'w env \<Rightarrow> ('w \<Rightarrow> string \<rightharpoonup> cached_value) \<Rightarrow> bool" where
  "remembers E cached \<longleftrightarrow> (\<forall>k w. cached (snd (mc_lookup E k w)) = cached w) \<and>
     (\<forall>k st w. cached (mc_store E k st w) k = Some (StatBytes st))"

text \<open>Only \<open>memcache_set\<close> calls \<open>mc_store\<close>.\<close>

lemma same_but_store [simp]:
  "memcache_get (E\<lparr>mc_store := store\<rparr>) p = memcache_get E p"
  "new_entry (E\<lparr>mc_store := store\<rparr>) p = new_entry E p"
  "proc_stat (E\<lparr>mc_store := store\<rparr>) = proc_stat E"
  by (simp_all add: memcache_get_def new_entry_def connection_string_def proc_stat_def [abs_def] cong: option.case_cong)

lemma same_gridfile [simp]: "gridfile (E\<lparr>mc_store := store\<rparr>) = gridfile E"
  by (simp add: gridfile_def cong: option.case_cong)

lemma same_stat [simp]:
  "entry_exists (E\<lparr>mc_store := store\<rparr>) = entry_exists E"
  "entry_stat (E\<lparr>mc_store := store\<rparr>) = entry_stat E"
  by (simp_all add: entry_exists_def entry_stat_def stat_gridfile_def [abs_def] stat_attrs_def [abs_def])

context backend
begin

text \<open>On a miss \<open>getattr\<close> reads the attributes first, and the store is the last thing it does.\<close>

lemma getattr_then_store:
  fixes s :: "('w, 'x) fuse_state_scheme"
  assumes co: "coherent E docs cached s" and p: "p = configure_path (config E) q"
    and np: "\<not> is_proc (config E) p" and d: "newest p (docs (world s)) = Some d"
    and st: "stat_of_doc (config E) d = Ret st" and miss: "cached (world s) (memcache_key p) = None"
  shows "\<exists>w. calm docs cached (world s) w \<and> (\<forall>store.
    gridfs_getattr (E\<lparr>mc_store := store\<rparr>) q buf s = (Ret (0, Some st), s\<lparr>world := store (memcache_key p) st w\<rparr>))"
proof -
  let ?t = "memcache_acquire s" and ?e = "\<lparr>thePath = p, theGridFile = None\<rparr>"
  have ws: "world ?t = world s" by (simp add: memcache_acquire_def)
  have "only_stats cached ?t" using co by (simp add: coherent_def memcache_acquire_def only_stats_def)
  then obtain s1 where 1: "memcache_get E p ?t = (Ret (entries_of cached ?t p), s1)"
    "evolves docs cached ?t (docs (world ?t)) s1"
    using memcache_get_run by blast
  have hit: "entries_of cached ?t p = None" using miss ws by (simp add: entries_of_def)
  have "evolves docs cached (?t\<lparr>world := world s\<rparr>) (docs (world s)) s1"
    using 1(2) by (simp add: memcache_acquire_def)
  then obtain v where v: "s1 = ?t\<lparr>world := v\<rparr>" "docs v = docs (world s)" "cached v \<subseteq>\<^sub>m cached (world s)"
    by (rule evolves_world)
  let ?u = "take_connection s1"
  obtain w where w: "new_entry E p s1 = (Ret ?e, ?u\<lparr>world := w\<rparr>)" "calm docs cached v w"
    using new_entry_builds [of p] v(1) unfolding builds_def by (metis process.select_convs(1) process.surjective process.update_convs(1))
  have "current (docs w) ?e" by (simp add: current_def)
  then obtain e1 w1 where 2: "entry_exists E (?e, ?u\<lparr>world := w\<rparr>) = (Ret True, (e1, ?u\<lparr>world := w1\<rparr>))"
    "current (docs w1) e1" "thePath e1 = p" "calm docs cached w w1"
    by (rule entry_exists_world [where t = ?u]) (use d w(2) v(2) in \<open>simp add: calm_def\<close>)
  have d1: "newest p (docs w1) = Some d" using d v(2) w(2) 2(4) by (simp add: calm_def)
  obtain e2 s2 where 3: "entry_stat E (e1, ?u\<lparr>world := w1\<rparr>) = (Ret st, (e2, s2))"
    "evolves docs cached (?u\<lparr>world := w1\<rparr>) (docs w1) s2"
    using entry_stat_run [of "?u\<lparr>world := w1\<rparr>" e1 d] 2(2,3) d1 st by auto
  from 3(2) obtain w2 where w2: "s2 = ?u\<lparr>world := w2\<rparr>" "docs w2 = docs w1" "cached w2 \<subseteq>\<^sub>m cached w1"
    by (rule evolves_world)
  have "calm docs cached (world s) w2"
    using calm_trans [OF calm_trans [OF w(2) 2(4)], of w2] v(2,3) w2(2,3)
    by (auto simp: calm_def intro: map_le_trans)
  moreover have "gridfs_getattr (E\<lparr>mc_store := store\<rparr>) q buf s =
      (Ret (0, Some st), s\<lparr>world := store (memcache_key p) st w2\<rparr>)" for store
  proof -
    let ?E = "E\<lparr>mc_store := store\<rparr>"
    let ?look = "local_object (new_entry E p) drop_connection (bind (entry_exists E) (\<lambda>ex.
        if \<not> ex then ret (- ENOENT, None)
        else bind (entry_stat ?E) (\<lambda>st. bind (outside (memcache_set ?E p st)) (\<lambda>_. ret (0, Some st)))))"
    let ?m = "bind (memcache_get E p) (\<lambda>hit. case hit of
      Some st \<Rightarrow> ret (0, Some st) | None \<Rightarrow> catch_with ?look (- EIO, None))"
    have "?look s1 = (Ret (0, Some st), ?t\<lparr>world := store (memcache_key p) st w2\<rparr>)"
      using w(1) 2(1) 3(1) w2(1) v(1)
      by (simp add: local_object_def lifetime_def bind_run comp_simps memcache_set_def c_call_def outside_def)
    then have "?m ?t = (Ret (0, Some st), ?t\<lparr>world := store (memcache_key p) st w2\<rparr>)"
      using 1(1) hit by (simp add: bind_run catch_with_def)
    then have run: "with_memcache ?m s = (Ret (0, Some st), s\<lparr>world := store (memcache_key p) st w2\<rparr>)"
      by (rule with_memcache_world)
    have "gridfs_getattr ?E q buf = with_memcache ?m"
      using np by (simp add: gridfs_getattr_def p [symmetric] Let_def)
    then show ?thesis unfolding run [symmetric] by (rule fun_cong)
  qed
  ultimately show ?thesis by blast
qed

text \<open>On a hit \<open>getattr\<close> asks the cache only.\<close>

lemma getattr_from_cache:
  fixes s :: "('w, 'x) fuse_state_scheme"
  assumes "cached (world s) (memcache_key (configure_path (config E) q)) = Some (StatBytes st)"
  shows "gridfs_getattr E q buf s = (Ret (0, Some st), s\<lparr>world :=
    snd (mc_lookup E (memcache_key (configure_path (config E) q)) (world s))\<rparr>)"
proof -
  obtain w where "mc_lookup E (memcache_key (configure_path (config E) q)) (world s) = (Some (StatBytes st), w)"
    using mc_lookup_ok assms by metis
  then show ?thesis
    by (simp add: gridfs_getattr_def Let_def with_memcache_def with_dtor_def memcache_get_def c_call_def
        bind_run comp_simps memcache_acquire_def memcache_release_def)
qed

lemma getattrs_from_cache:
  fixes s :: "('w, 'x) fuse_state_scheme"
  assumes "remembers E cached"
    and "cached (world s) (memcache_key (configure_path (config E) q)) = Some (StatBytes st)"
  shows "\<exists>w. perform_all (gridfs_getattr E q) bufs s = (Ret (map (\<lambda>_. (0, Some st)) bufs), s\<lparr>world := w\<rparr>) \<and>
    docs w = docs (world s)"
  using assms(2)
proof (induction bufs arbitrary: s)
  case Nil
  show ?case by (intro exI [of _ "world s"]) (simp add: comp_simps)
next
  case (Cons buf bufs)
  let ?k = "memcache_key (configure_path (config E) q)"
  let ?s = "s\<lparr>world := snd (mc_lookup E ?k (world s))\<rparr>"
  have "docs (world ?s) = docs (world s)" using mc_lookup_ok [of ?k "world s"] by auto
  moreover have "cached (world ?s) ?k = Some (StatBytes st)" using assms(1) Cons.prems by (simp add: remembers_def)
  ultimately show ?case
    using Cons.IH [of ?s] getattr_from_cache [OF Cons.prems] by (auto simp: bind_run comp_simps)
qed

end

text \<open>C40: A race that leaves the cache wrong: \<open>getattr\<close> of a path misses the cache, and a \<open>chmod\<close> of the path is
  served between its lookup of the document and its store in the cache. The \<open>chmod\<close> answers 0 and the
  document has the new mode, but the cache has the old attributes: with a cache that loses no entry, all
  \<open>getattr\<close> requests of the path that follow, however many, answer the old mode, and none puts that
  right. (Entries have no expiry; only a later change of the path by this program removes it.)\<close>

theorem getattr_races_chmod:
  fixes s :: "('w, 'x) fuse_state_scheme"
  assumes b: "backend E docs cached" and keeps: "remembers E cached"
    and co: "coherent E docs cached s" and wf: "wf_docs (docs (world s))"
    and p: "p = configure_path (config E) q" and np: "\<not> is_proc (config E) p"
    and d: "newest p (docs (world s)) = Some d"
    and a: "parse_content_type (config E) (d_type d) = Ret a" "at_time a = Some t" "time_fits t"
    and miss: "cached (world s) (memcache_key p) = None"
  shows "\<exists>st w s'. gridfs_getattr (interrupted (gridfs_chmod E q mode) E) q buf s = (Ret (0, Some st), s') \<and>
    st_mode st = at_mode a \<and> calm docs cached (world s) w \<and> fst (gridfs_chmod E q mode (serving w)) = Ret 0 \<and>
    (\<exists>ct. newest p (docs (world s')) = Some (d\<lparr>d_type := ct\<rparr>) \<and>
      parse_content_type (config E) ct = Ret (a\<lparr>at_mode := mode\<rparr>)) \<and>
    (\<forall>bufs. \<exists>s''. perform_all (gridfs_getattr E q) bufs s' = (Ret (map (\<lambda>_. (0, Some st)) bufs), s'') \<and>
      docs (world s'') = docs (world s'))"
proof -
  let ?chmod = "gridfs_chmod E q mode"
  from a(1) obtain st where st: "stat_of_doc (config E) d = Ret st" "st_mode st = at_mode a"
    by (simp add: stat_of_doc_def)
  obtain w where w: "calm docs cached (world s) w"
    "gridfs_getattr (interrupted ?chmod E) q buf s =
      (Ret (0, Some st), s\<lparr>world := mc_store E (memcache_key p) st (world (snd (?chmod (serving w))))\<rparr>)"
    using backend.getattr_then_store [OF b co p np d st(1) miss, of buf] unfolding interrupted_def by blast
  let ?s = "s\<lparr>world := mc_store E (memcache_key p) st (world (snd (?chmod (serving w))))\<rparr>"
  have co_w: "coherent E docs cached (serving w)"
    using co w(1) by (fastforce simp: coherent_def only_stats_def entries_of_def calm_def map_le_def dom_def
        split: option.splits cached_value.splits)
  have dw: "docs (world (serving w)) = docs (world s)" using w(1) by (simp add: calm_def)
  have at: "at_time (a\<lparr>at_mode := mode\<rparr>) = Some t" using a(2) by simp
  obtain v ct where v: "?chmod (serving w) = (Ret 0, (serving w)\<lparr>world := v\<rparr>)"
    "newest p (docs v) = Some (d\<lparr>d_type := ct\<rparr>)" "parse_content_type (config E) ct = Ret (a\<lparr>at_mode := mode\<rparr>)"
    using backend.attrs_callback_docs [OF b backend.entry_chmod_changes [OF b, of mode] backend.new_entry_builds [OF b, of p]
        _ _ co_w wf [folded dw] d [folded dw] a(1) at a(3)]
    unfolding backend.change_callbacks(1) [OF b] p [symmetric] by auto
  have d': "docs (world ?s) = docs v" using v(1) backend.mc_store_ok(1) [OF b] by simp
  have hit: "cached (world ?s) (memcache_key (configure_path (config E) q)) = Some (StatBytes st)"
    using keeps p by (simp add: remembers_def)
  have "\<exists>s''. perform_all (gridfs_getattr E q) bufs ?s = (Ret (map (\<lambda>_. (0, Some st)) bufs), s'') \<and>
      docs (world s'') = docs (world ?s)" for bufs
    using backend.getattrs_from_cache [OF b keeps hit, of bufs] by auto
  then show ?thesis using w st(2) v d' by (intro exI [of _ st] exI [of _ w] exI [of _ ?s]) auto
qed

theorem getattr_races_chmod_witness:
  "\<exists>st s'. gridfs_getattr (interrupted (gridfs_chmod (ref_env []) ''/a'' 0) (ref_env [])) ''/a'' zero_stat demo =
      (Ret (0, Some st), s') \<and> st_mode st = S_IFREG OR 0x1A4 \<and>
    (\<exists>s''. perform_all (gridfs_getattr (ref_env []) ''/a'') [zero_stat, zero_stat] s' =
      (Ret [(0, Some st), (0, Some st)], s''))"
proof -
  have keeps: "remembers (ref_env []) w_cache" by (simp add: remembers_def ref_env_def)
  have miss: "w_cache (world demo) (memcache_key ''/a'') = None" by (simp add: demo_def world_of_def)
  have "parse_content_type (config (ref_env [])) (d_type (plain_doc 1 ''/a'' (S_IFREG OR 0x1A4) ''hello'')) =
      Ret \<lparr>at_mode = S_IFREG OR 0x1A4, at_uid = 1000, at_gid = 1000, at_time = Some 0\<rparr>" by simp
  from getattr_races_chmod [OF ref_backend keeps demo_coherent demo_wf _ _ demo_newest(1) this _ _ miss,
      where q = "''/a''" and t = 0 and mode = 0 and buf = zero_stat]
  obtain st s' where 1: "gridfs_getattr (interrupted (gridfs_chmod (ref_env []) ''/a'' 0) (ref_env [])) ''/a'' zero_stat demo =
      (Ret (0, Some st), s')" "st_mode st = S_IFREG OR 0x1A4"
    "\<forall>bufs. \<exists>s''. perform_all (gridfs_getattr (ref_env []) ''/a'') bufs s' = (Ret (map (\<lambda>_. (0, Some st)) bufs), s'') \<and>
      ref_docs (world s'') = ref_docs (world s')"
    by (auto simp: plain_path time_fits_def)
  from spec [OF 1(3), of "[zero_stat, zero_stat]"] 1(1,2) show ?thesis
    by (intro exI [of _ st] exI [of _ s']) (auto simp del: perform_all.simps)
qed

end
