(* ===== verification/File_Memory.thy ===== *)
theory File_Memory
  imports File_Entry "HOL-Library.AList"
begin

text \<open>
  The memory of src/file.cpp at the level of the kernel: \<open>theData\<close> is an address, all files share
  one address space, and \<open>mmap\<close>, \<open>mremap\<close> and \<open>munmap\<close> add, move and remove regions in it. In theory
  File_Entry \<open>theData\<close> is the content of the region instead; here the functions that touch the memory
  are translated again, and it is shown that they behave as those of File_Entry do, that no file
  reaches the memory of another one, and which regions stay when all files are destroyed.
\<close>

section \<open>The address space\<close>

text \<open>
  Regions by their first address. The kernel chooses the address of a region with \<open>pick\<close>, which
  sees the regions in use; an address that was released may come back.
\<close>

type_synonym space = "(nat \<times> bytes) list"

datatype address = Null | MAP_FAILED | At nat

text \<open>A file without the contents of its memory: the field \<open>theData\<close> of \<open>the_file\<close> stays empty.\<close>

record placed =
  the_file :: file_obj
  the_pointer :: address
  the_space :: space

type_synonym ('w, 'x, 'a) placed_comp = "(placed \<times> ('w, 'x) process_scheme, 'a) comp"

definition region_at :: "address \<Rightarrow> space \<Rightarrow> bytes option" where
  "region_at p k = (case p of At a \<Rightarrow> map_of k a | _ \<Rightarrow> None)"

definition kernel_map :: "(space \<Rightarrow> nat) \<Rightarrow> int \<Rightarrow> placed \<Rightarrow> placed" where
  "kernel_map pick n x = (let a = pick (the_space x)
     in x\<lparr>the_pointer := At a, the_space := (a, zeros n) # the_space x\<rparr>)"

definition kernel_remap :: "(space \<Rightarrow> nat) \<Rightarrow> bytes \<Rightarrow> int \<Rightarrow> placed \<Rightarrow> placed" where
  "kernel_remap pick bs n x = (case the_pointer x of
     At a \<Rightarrow> (let k = AList.delete a (the_space x); b = pick k
       in x\<lparr>the_pointer := At b, the_space := (b, resize bs n) # k\<rparr>)
   | _ \<Rightarrow> x)"

definition kernel_unmap :: "placed \<Rightarrow> placed" where
  "kernel_unmap x = (case the_pointer x of
     At a \<Rightarrow> x\<lparr>the_space := AList.delete a (the_space x)\<rparr> | _ \<Rightarrow> x)"

definition kernel_store :: "bytes \<Rightarrow> placed \<Rightarrow> placed" where
  "kernel_store bs x = (case the_pointer x of
     At a \<Rightarrow> x\<lparr>the_space := AList.update a bs (the_space x)\<rparr> | _ \<Rightarrow> x)"

section \<open>The functions of \<open>File\<close>\<close>

definition file_set :: "(file_obj \<Rightarrow> file_obj) \<Rightarrow> ('w, 'x, unit) placed_comp" where
  "file_set g = this_set (\<lambda>x. x\<lparr>the_file := g (the_file x)\<rparr>)"

definition file_get :: "('w, 'x, file_obj) placed_comp" where
  "file_get = bind this_get (\<lambda>x. ret (the_file x))"

text \<open>A member function that does not look at the memory.\<close>

definition on_file ::
  "(file_obj \<times> ('w, 'x) process_scheme, 'a) comp \<Rightarrow> ('w, 'x, 'a) placed_comp" where
  "on_file m = (\<lambda>(x, s). case m (the_file x, s) of (r, f, s') \<Rightarrow> (r, x\<lparr>the_file := f\<rparr>, s'))"

definition placed_init :: "'w env \<Rightarrow> (space \<Rightarrow> nat) \<Rightarrow> ('w, 'x, unit) placed_comp" where
  "placed_init E pick =
     bind file_get (\<lambda>f.
     bind (outside (c_call (map_memory E (theChunkSize f)))) (\<lambda>ok.
       if ok then
         bind (this_set (kernel_map pick (theChunkSize f))) (\<lambda>_.
         file_set (\<lambda>f. f\<lparr>theCurrentDataSize := theChunkSize f\<rparr>))
       else
         bind (this_set (\<lambda>x. x\<lparr>the_pointer := MAP_FAILED\<rparr>)) (\<lambda>_.
         throw (StdException ''Allocating virtual memory by the kernel failed.''))))"

text \<open>
  The kernel takes the old length as it is given. A length that is not the one of the region would
  move or release a part of it, or more: here it is a fault, and below it is shown never to occur.
  An address that is no region makes \<open>mremap\<close> and \<open>munmap\<close> fail.
\<close>

definition placed_extend :: "'w env \<Rightarrow> (space \<Rightarrow> nat) \<Rightarrow> ('w, 'x, unit) placed_comp" where
  "placed_extend E pick =
     bind this_get (\<lambda>x.
     let f = the_file x; new_size = c_size_t (theCurrentDataSize f + theChunkSize f);
         failure = bind (this_set (\<lambda>x. x\<lparr>the_pointer := MAP_FAILED\<rparr>)) (\<lambda>_.
           throw (StdException ''Extending virtual memory by the kernel failed.''))
     in
     bind (outside (c_call (remap_memory E (theCurrentDataSize f) new_size))) (\<lambda>ok.
       case region_at (the_pointer x) (the_space x) of
         None \<Rightarrow> failure
       | Some bs \<Rightarrow>
           if int (length bs) \<noteq> theCurrentDataSize f then fault OutOfBounds
           else if ok then
             bind (this_set (kernel_remap pick bs new_size)) (\<lambda>_.
             file_set (\<lambda>f. f\<lparr>theCurrentDataSize := new_size\<rparr>))
           else failure))"

definition placed_free :: "('w, 'x, unit) placed_comp" where
  "placed_free =
     bind this_get (\<lambda>x.
       if theCurrentDataSize (the_file x) \<noteq> 0 then
         bind (case region_at (the_pointer x) (the_space x) of
             None \<Rightarrow> ret ()
           | Some bs \<Rightarrow>
               if int (length bs) \<noteq> theCurrentDataSize (the_file x) then fault OutOfBounds
               else this_set kernel_unmap) (\<lambda>_.
         file_set (\<lambda>f. f\<lparr>theWritten := 0, theHasChanges := False, theCurrentDataSize := 0\<rparr>))
       else ret ())"

fun placed_extend_loop :: "'w env \<Rightarrow> (space \<Rightarrow> nat) \<Rightarrow> nat \<Rightarrow> int \<Rightarrow> ('w, 'x, unit) placed_comp" where
  "placed_extend_loop E pick 0 target = fault NoFuel"
| "placed_extend_loop E pick (Suc fuel) target =
     bind file_get (\<lambda>f.
       if theCurrentDataSize f < target
       then bind (placed_extend E pick) (\<lambda>_. placed_extend_loop E pick fuel target)
       else ret ())"

definition placed_copy :: "bytes \<Rightarrow> int \<Rightarrow> ('w, 'x, unit) placed_comp" where
  "placed_copy data offset =
     bind this_get (\<lambda>x.
       case region_at (the_pointer x) (the_space x) of
         None \<Rightarrow> fault BadPointer
       | Some bs \<Rightarrow>
           (if 0 \<le> offset \<and> nat offset + length data \<le> length bs
            then this_set (kernel_store (take (nat offset) bs @ data @ drop (nat offset + length data) bs))
            else fault OutOfBounds))"

definition placed_write ::
  "'w env \<Rightarrow> (space \<Rightarrow> nat) \<Rightarrow> bytes \<Rightarrow> int \<Rightarrow> ('w, 'x, int) placed_comp" where
  "placed_write E pick data offset =
     (let sz = int (length data) in
     bind (file_set (\<lambda>f. if theChunkSize f = 0
       then f\<lparr>theChunkSize := mongo_chunk_size (config E)\<rparr> else f)) (\<lambda>_.
     bind file_get (\<lambda>f.
       if theWritten f \<noteq> c_size_t offset then
         throw (StdException ''Appending to a file other than to the beginning of it is not allowed. '')
       else
         bind (if theCurrentDataSize f = 0 then placed_init E pick else ret ()) (\<lambda>_.
         bind (placed_extend_loop E pick (Suc (nat (offset + sz))) (c_size_t (offset + sz))) (\<lambda>_.
         bind (placed_copy data offset) (\<lambda>_.
         bind (file_set (\<lambda>f. f\<lparr>theHasChanges := True\<rparr>)) (\<lambda>_.
         bind (file_set (\<lambda>f. f\<lparr>theWritten := c_size_t (theWritten f + sz)\<rparr>)) (\<lambda>_.
         ret sz))))))))"

text \<open>The bytes that \<open>storeFile\<close> reads through the pointer.\<close>

definition placed_bytes :: "address \<Rightarrow> space \<Rightarrow> int \<Rightarrow> bytes outcome" where
  "placed_bytes p k n =
     (if n = 0 then Ret []
      else case region_at p k of
        None \<Rightarrow> Fault BadPointer
      | Some bs \<Rightarrow> if nat n \<le> length bs then Ret (take (nat n) bs) else Fault OutOfBounds)"

definition placed_store :: "'w env \<Rightarrow> ('w, 'x, unit) placed_comp" where
  "placed_store E =
     bind (on_file (gridfile E)) (\<lambda>g.
     bind (getter (gf_content_type g)) (\<lambda>ct.
     bind this_get (\<lambda>x.
     bind (of_outcome (placed_bytes (the_pointer x) (the_space x) (theWritten (the_file x)))) (\<lambda>data.
     bind (outside (call (store_file E data (thePath (the_file x)) ct))) (\<lambda>_.
     bind placed_free (\<lambda>_.
     bind (file_set (\<lambda>f. f\<lparr>theFileLength := theWritten f\<rparr>)) (\<lambda>_.
     outside (synchonizeUpdate E))))))))"

text \<open>
  \<open>File::~File\<close>: the memory is released; the destructor of the base class then gives the
  connection back. The mutex goes with the object.
\<close>

definition placed_destroy :: "('w, 'x, unit) placed_comp" where
  "placed_destroy = bind placed_free (\<lambda>_. outside (modify drop_connection))"

section \<open>The same behaviour\<close>

text \<open>
  The object of File_Entry that a placed file stands for. A file that has memory holds a region of
  the size that it knows, or lost it in a failed extension; one that has none has written nothing,
  and its address is never followed.
\<close>

definition stands_for :: "placed \<Rightarrow> file_obj \<Rightarrow> bool" where
  "stands_for x f \<longleftrightarrow> the_file x = f\<lparr>theData := NoMapping\<rparr> \<and>
     (if theCurrentDataSize f = 0 then theWritten f = 0
      else case the_pointer x of
        Null \<Rightarrow> False
      | MAP_FAILED \<Rightarrow> theData f = MapFailed
      | At a \<Rightarrow> \<exists>bs. map_of (the_space x) a = Some bs \<and> int (length bs) = theCurrentDataSize f \<and>
          theData f = Mapped bs)"

definition owned :: "placed \<Rightarrow> nat set" where
  "owned x = (case the_pointer x of
     At a \<Rightarrow> if theCurrentDataSize (the_file x) \<noteq> 0 then {a} else {} | _ \<Rightarrow> {})"

definition others :: "placed \<Rightarrow> nat set" where
  "others x = dom (map_of (the_space x)) - owned x"

definition lost_memory :: "placed \<Rightarrow> bool" where
  "lost_memory x \<longleftrightarrow> theCurrentDataSize (the_file x) \<noteq> 0 \<and> the_pointer x = MAP_FAILED"

text \<open>
  What an operation does to the rest of the address space: nothing, unless it ends with one of the
  exceptions \<open>X\<close>; then the file has lost its memory, and if it had not before, its region is left over.
\<close>

definition spares :: "exn set \<Rightarrow> placed \<Rightarrow> 'a outcome \<Rightarrow> placed \<Rightarrow> bool" where
  "spares X x r x' \<longleftrightarrow> (\<forall>a \<in> others x. map_of (the_space x') a = map_of (the_space x) a) \<and>
     others x \<subseteq> others x' \<and>
     (if \<exists>e \<in> X. r = Throw e then lost_memory x' \<and> (lost_memory x \<or> others x' \<noteq> others x)
      else others x' = others x \<and> (lost_memory x' \<longrightarrow> lost_memory x))"

definition like ::
  "exn set \<Rightarrow> (file_obj \<Rightarrow> bool) \<Rightarrow> ('w, 'x, 'a) placed_comp \<Rightarrow>
   (file_obj \<times> ('w, 'x) process_scheme, 'a) comp \<Rightarrow> (file_obj \<Rightarrow> bool) \<Rightarrow> bool" where
  "like X P m m' Q \<longleftrightarrow> (\<forall>x f s. stands_for x f \<longrightarrow> P f \<longrightarrow>
     (\<exists>r x' f' s'. m (x, s) = (r, x', s') \<and> m' (f, s) = (r, f', s') \<and>
        (goes_on r \<longrightarrow> stands_for x' f' \<and> spares X x r x') \<and> (\<forall>a. r = Ret a \<longrightarrow> Q f')))"

lemma likeI:
  assumes "\<And>x f s. stands_for x f \<Longrightarrow> P f \<Longrightarrow>
     \<exists>r x' f' s'. m (x, s) = (r, x', s') \<and> m' (f, s) = (r, f', s') \<and>
        (goes_on r \<longrightarrow> stands_for x' f' \<and> spares X x r x') \<and> (\<forall>a. r = Ret a \<longrightarrow> Q f')"
  shows "like X P m m' Q"
  using assms by (simp add: like_def)

lemma likeD:
  assumes "like X P m m' Q" "stands_for x f" "P f"
  obtains r x' f' s' where "m (x, s) = (r, x', s')" "m' (f, s) = (r, f', s')"
    "goes_on r \<Longrightarrow> stands_for x' f'" "goes_on r \<Longrightarrow> spares X x r x'" "\<And>a. r = Ret a \<Longrightarrow> Q f'"
  using assms unfolding like_def by blast

lemma spares_refl: "\<nexists>e. e \<in> X \<and> r = Throw e \<Longrightarrow> spares X x r x"
  by (auto simp: spares_def)

lemma spares_trans: "spares X x (Ret a) x1 \<Longrightarrow> spares X x1 r x2 \<Longrightarrow> spares X x r x2"
  unfolding spares_def by (cases "\<exists>e \<in> X. r = Throw e") (auto simp: subset_iff)

lemma like_bind:
  fixes k :: "'a \<Rightarrow> ('w, 'x, 'b) placed_comp"
  assumes m: "like X P m m' Q" and k: "\<And>a. like X Q (k a) (k' a) R"
  shows "like X P (bind m k) (bind m' k') R"
proof (rule likeI, goal_cases)
  case (1 x f s)
  obtain r x1 f1 s1 where 1: "m (x, s) = (r, x1, s1)" "m' (f, s) = (r, f1, s1)"
    "goes_on r \<Longrightarrow> stands_for x1 f1" "goes_on r \<Longrightarrow> spares X x r x1" "\<And>a. r = Ret a \<Longrightarrow> Q f1"
    using likeD [OF m 1, of s] by metis
  show ?case
  proof (cases r)
    case (Ret a)
    then have "stands_for x1 f1" "Q f1" "spares X x (Ret a) x1" using 1(3-5) by simp_all
    obtain r2 x2 f2 s2 where 2: "k a (x1, s1) = (r2, x2, s2)" "k' a (f1, s1) = (r2, f2, s2)"
      "goes_on r2 \<Longrightarrow> stands_for x2 f2" "goes_on r2 \<Longrightarrow> spares X x1 r2 x2" "\<And>a. r2 = Ret a \<Longrightarrow> R f2"
      using likeD [OF k \<open>stands_for x1 f1\<close> \<open>Q f1\<close>, of a s1] by metis
    have "bind m k (x, s) = (r2, x2, s2)" "bind m' k' (f, s) = (r2, f2, s2)"
      using 1(1,2) 2(1,2) by (simp_all add: Ret bind_Ret)
    then show ?thesis
      using 2(3-5) spares_trans [OF \<open>spares X x (Ret a) x1\<close>] by blast
  next
    case (Throw e)
    then have "spares X x r x1" using 1(4) by simp
    with Throw have "spares X x (Throw e :: 'b outcome) x1" by (simp add: spares_def)
    with 1(1-3) Throw show ?thesis by (simp add: bind_run)
  qed (use 1(1,2) in \<open>simp_all add: bind_run\<close>)
qed

lemma like_get:
  assumes "\<And>f. like X (\<lambda>f'. f' = f \<and> P f) (k (f\<lparr>theData := NoMapping\<rparr>)) (k' f) R"
  shows "like X P (bind file_get k) (bind this_get k') R"
proof (rule likeI, goal_cases)
  case (1 x f s)
  then have "the_file x = f\<lparr>theData := NoMapping\<rparr>" by (simp add: stands_for_def)
  then have "bind file_get k (x, s) = k (f\<lparr>theData := NoMapping\<rparr>) (x, s)" "bind this_get k' (f, s) = k' f (f, s)"
    by (simp_all add: file_get_def bind_run comp_simps)
  moreover have "f = f \<and> P f" using 1 by simp
  ultimately show ?case using assms [of f] 1(1) unfolding like_def by metis
qed

lemma like_weaken: "like X P m m' Q \<Longrightarrow> (\<And>f. P' f \<Longrightarrow> P f) \<Longrightarrow> (\<And>f. Q f \<Longrightarrow> Q' f) \<Longrightarrow> like X P' m m' Q'"
  unfolding like_def by meson

lemma like_ret: "like X P (ret a) (ret a) P"
  by (rule likeI) (auto simp: comp_simps spares_refl)

lemma like_throw: "e \<notin> X \<Longrightarrow> like X P (throw e) (throw e) Q"
  by (rule likeI) (auto simp: comp_simps spares_refl)

lemma like_fault: "like X P (fault x) (fault x) Q"
  by (rule likeI) (auto simp: comp_simps)

lemma like_if: "(b \<Longrightarrow> like X P m m' Q) \<Longrightarrow> (\<not> b \<Longrightarrow> like X P n n' Q) \<Longrightarrow> like X P (if b then m else n) (if b then m' else n') Q"
  by simp

lemma like_outside: "(\<And>s e t. m s = (Throw e, t) \<Longrightarrow> e \<notin> X) \<Longrightarrow> like X P (outside m) (outside m) P"
proof (rule likeI, goal_cases)
  case (1 x f s)
  obtain r t where "m s = (r, t)" by (cases "m s")
  then show ?case using 1 by (auto simp: comp_simps intro!: spares_refl)
qed

text \<open>An assignment to a field other than the three that describe the memory.\<close>

lemma like_set:
  assumes "\<And>f. g (f\<lparr>theData := NoMapping\<rparr>) = (g f)\<lparr>theData := NoMapping\<rparr>" "\<And>f. P f \<Longrightarrow> Q (g f)"
    and "\<And>f. theData (g f) = theData f" "\<And>f. theCurrentDataSize (g f) = theCurrentDataSize f"
    and "\<And>f. P f \<Longrightarrow> theWritten f = 0 \<Longrightarrow> theCurrentDataSize f = 0 \<Longrightarrow> theWritten (g f) = 0"
  shows "like X P (file_set g) (this_set g) Q"
proof (rule likeI, goal_cases)
  case (1 x f s)
  let ?x = "x\<lparr>the_file := g (the_file x)\<rparr>"
  have size: "theCurrentDataSize (the_file ?x) = theCurrentDataSize (the_file x)" by (simp add: assms(4))
  have "stands_for ?x (g f)" using 1 assms(1,3-5) by (simp add: stands_for_def split: address.splits if_splits)
  moreover have "owned ?x = owned x" "lost_memory ?x = lost_memory x" 
    using size by (simp_all add: owned_def lost_memory_def split: address.split)
  then have "spares X x (Ret () :: unit outcome) ?x" by (simp add: spares_def others_def)
  ultimately show ?case using 1(2) assms(2) by (simp add: file_set_def comp_simps)
qed

section \<open>The functions that touch the memory\<close>

locale address_space =
  fixes E :: "'w env" and pick :: "space \<Rightarrow> nat"
  assumes pick_fresh: "pick k \<notin> dom (map_of k)"
    and map_positive: "map_memory E n w = (True, w') \<Longrightarrow> 0 < n"
    and remap_positive: "remap_memory E n n' w = (True, w') \<Longrightarrow> 0 < n'"
begin

lemma length_zeros: "0 < n \<Longrightarrow> int (length (zeros n)) = n"
  by (simp add: zeros_def)

lemma length_resize: "0 < n \<Longrightarrow> int (length (resize bs n)) = n"
  by (simp add: resize_def zeros_def)

abbreviation extension_failed :: exn where
  "extension_failed \<equiv> StdException ''Extending virtual memory by the kernel failed.''"

lemma map_step:
  assumes x: "stands_for x f" "theCurrentDataSize f = 0" and n: "0 < n"
  shows "stands_for ((kernel_map pick n x)\<lparr>the_file := (the_file x)\<lparr>theCurrentDataSize := n\<rparr>\<rparr>)
      (f\<lparr>theData := Mapped (zeros n), theCurrentDataSize := n\<rparr>)"
    and "spares X x (Ret a) ((kernel_map pick n x)\<lparr>the_file := (the_file x)\<lparr>theCurrentDataSize := n\<rparr>\<rparr>)"
proof -
  let ?k = "the_space x"
  let ?x = "(kernel_map pick n x)\<lparr>the_file := (the_file x)\<lparr>theCurrentDataSize := n\<rparr>\<rparr>"
  have f: "theCurrentDataSize (the_file x) = 0" using x by (simp add: stands_for_def)
  have o: "others x = dom (map_of ?k)" using f by (simp add: others_def owned_def split: address.split)
  have "others ?x = dom (map_of ?k)"
    using n pick_fresh [of ?k] by (auto simp: others_def owned_def kernel_map_def Let_def)
  then show "spares X x (Ret a) ?x"
    using o pick_fresh [of ?k] by (auto simp: spares_def lost_memory_def kernel_map_def Let_def)
  show "stands_for ?x (f\<lparr>theData := Mapped (zeros n), theCurrentDataSize := n\<rparr>)"
    using x n by (simp add: stands_for_def kernel_map_def Let_def length_zeros)
qed

lemma init_like:
  "like {extension_failed} (\<lambda>f. theCurrentDataSize f = 0) (placed_init E pick) (init_memory E)
     (\<lambda>f. theCurrentDataSize f \<noteq> 0)"
proof (rule likeI, goal_cases)
  case (1 x f s)
  then have fx: "the_file x = f\<lparr>theData := NoMapping\<rparr>" by (simp add: stands_for_def)
  obtain b w where c: "map_memory E (theChunkSize f) (world s) = (b, w)"
    by (cases "map_memory E (theChunkSize f) (world s)")
  show ?case
  proof (cases b)
    case True
    then have n: "0 < theChunkSize f" using map_positive c by simp
    show ?thesis
      using map_step(1) [OF 1 n] map_step(2) [OF 1 n, where X = "{extension_failed}" and a = "()"] c True n fx
      by (simp add: placed_init_def init_memory_def file_get_def file_set_def bind_run comp_simps c_call_def)
        (simp add: kernel_map_def Let_def)
  next
    case False
    then show ?thesis using c fx 1
      by (auto simp: placed_init_def init_memory_def file_get_def bind_run comp_simps c_call_def
          stands_for_def spares_def others_def owned_def lost_memory_def split: address.splits)
  qed
qed

text \<open>A file with memory: where it is.\<close>

lemma has_region:
  assumes "stands_for x f" "theCurrentDataSize f \<noteq> 0" "the_pointer x = At a"
  obtains bs where "map_of (the_space x) a = Some bs" "int (length bs) = theCurrentDataSize f" "theData f = Mapped bs"
    "owned x = {a}" "others x = dom (map_of (the_space x)) - {a}"
  using assms by (auto simp: stands_for_def owned_def others_def)

lemma remap_step:
  assumes x: "stands_for x f" "theCurrentDataSize f \<noteq> 0" "the_pointer x = At a" and n: "0 < n"
  shows "stands_for ((kernel_remap pick bs n x)\<lparr>the_file := (the_file x)\<lparr>theCurrentDataSize := n\<rparr>\<rparr>)
      (f\<lparr>theData := Mapped (resize bs n), theCurrentDataSize := n\<rparr>)"
    and "spares X x (Ret u) ((kernel_remap pick bs n x)\<lparr>the_file := (the_file x)\<lparr>theCurrentDataSize := n\<rparr>\<rparr>)"
proof -
  let ?k = "AList.delete a (the_space x)"
  let ?x = "(kernel_remap pick bs n x)\<lparr>the_file := (the_file x)\<lparr>theCurrentDataSize := n\<rparr>\<rparr>"
  have o: "others x = dom (map_of ?k)" by (rule has_region [OF x]) (auto simp: delete_conv')
  have agree: "map_of ?k c = map_of (the_space x) c" if "c \<in> others x" for c
    using that x(2,3) by (rule_tac has_region [OF x]) (auto simp: delete_conv')
  have "others ?x = dom (map_of ?k)"
    using n x(3) pick_fresh [of ?k] by (auto simp: others_def owned_def kernel_remap_def Let_def)
  then show "spares X x (Ret u) ?x"
    using o x(3) agree pick_fresh [of ?k] by (auto simp: spares_def lost_memory_def kernel_remap_def Let_def)
  show "stands_for ?x (f\<lparr>theData := Mapped (resize bs n), theCurrentDataSize := n\<rparr>)"
    using x n by (simp add: stands_for_def kernel_remap_def Let_def length_resize)
qed

text \<open>The pointer is overwritten: the region, if there was one, now belongs to nobody.\<close>

lemma lose_step:
  assumes x: "stands_for x f" "theCurrentDataSize f \<noteq> 0"
  shows "stands_for (x\<lparr>the_pointer := MAP_FAILED\<rparr>) (f\<lparr>theData := MapFailed\<rparr>)"
    and "spares {e} x (Throw e) (x\<lparr>the_pointer := MAP_FAILED\<rparr>)"
proof -
  show "stands_for (x\<lparr>the_pointer := MAP_FAILED\<rparr>) (f\<lparr>theData := MapFailed\<rparr>)"
    using x by (simp add: stands_for_def)
  have size: "theCurrentDataSize (the_file x) \<noteq> 0" using x by (simp add: stands_for_def)
  have "lost_memory x \<or> dom (map_of (the_space x)) \<noteq> others x"
  proof (cases "the_pointer x")
    case Null
    with x show ?thesis by (simp add: stands_for_def)
  next
    case MAP_FAILED
    with size show ?thesis by (simp add: lost_memory_def)
  next
    case (At a)
    then show ?thesis by (rule has_region [OF x]) auto
  qed
  moreover have "others (x\<lparr>the_pointer := MAP_FAILED\<rparr>) = dom (map_of (the_space x))"
    by (simp add: others_def owned_def)
  ultimately show "spares {e} x (Throw e) (x\<lparr>the_pointer := MAP_FAILED\<rparr>)"
    using size by (auto simp: spares_def lost_memory_def others_def)
qed

lemma extend_like:
  "like {extension_failed} (\<lambda>f. theCurrentDataSize f \<noteq> 0) (placed_extend E pick) (extend_memory E)
     (\<lambda>f. theCurrentDataSize f \<noteq> 0)"
proof (rule likeI, goal_cases)
  case (1 x f s)
  then have fx: "the_file x = f\<lparr>theData := NoMapping\<rparr>" by (simp add: stands_for_def)
  let ?n = "c_size_t (theCurrentDataSize f + theChunkSize f)"
  obtain b w where c: "remap_memory E (theCurrentDataSize f) ?n (world s) = (b, w)"
    by (cases "remap_memory E (theCurrentDataSize f) ?n (world s)")
  note lose = lose_step [OF 1]
  show ?case
  proof (cases "the_pointer x")
    case (At a)
    obtain bs where bs: "map_of (the_space x) a = Some bs" "int (length bs) = theCurrentDataSize f" "theData f = Mapped bs"
      by (rule has_region [OF 1 At])
    show ?thesis
    proof (cases b)
      case True
      then have n: "0 < ?n" using remap_positive c by simp
      show ?thesis
        using remap_step(1) [OF 1 At n, of bs] remap_step(2) [OF 1 At n, where X = "{extension_failed}" and u = "()" and bs = bs]
          c True n fx bs At
        by (simp add: placed_extend_def extend_memory_def file_set_def bind_run comp_simps c_call_def Let_def region_at_def)
          (simp add: kernel_remap_def Let_def)
    next
      case False
      then show ?thesis using lose c fx bs At
        by (simp add: placed_extend_def extend_memory_def bind_run comp_simps c_call_def Let_def region_at_def)
    qed
  next
    case Null
    with 1 show ?thesis by (simp add: stands_for_def)
  next
    case MAP_FAILED
    then have "theData f = MapFailed" using 1 by (simp add: stands_for_def)
    then show ?thesis using lose c fx MAP_FAILED
      by (simp add: placed_extend_def extend_memory_def bind_run comp_simps c_call_def Let_def region_at_def)
  qed
qed

lemma extend_loop_turn_like:
  assumes "like {extension_failed} (\<lambda>f. theCurrentDataSize f \<noteq> 0) k k' (\<lambda>f. theCurrentDataSize f \<noteq> 0)"
  shows "like {extension_failed} (\<lambda>f'. f' = f \<and> theCurrentDataSize f \<noteq> 0)
      (if theCurrentDataSize f < target then bind (placed_extend E pick) (\<lambda>_. k) else ret ())
      (if theCurrentDataSize f < target then bind (extend_memory E) (\<lambda>_. k') else ret ())
      (\<lambda>f. theCurrentDataSize f \<noteq> 0)"
  by (intro like_if like_weaken [OF like_bind [OF extend_like assms]] like_weaken [OF like_ret]) auto

lemma extend_loop_like:
  "like {extension_failed} (\<lambda>f. theCurrentDataSize f \<noteq> 0) (placed_extend_loop E pick fuel target)
     (extend_loop E fuel target) (\<lambda>f. theCurrentDataSize f \<noteq> 0)"
proof (induction fuel)
  case 0
  show ?case by (simp add: like_fault)
next
  case (Suc fuel)
  show ?case
    by (simp only: placed_extend_loop.simps extend_loop.simps)
      (rule like_get, use extend_loop_turn_like [OF Suc.IH] in simp)
qed

lemma copy_like:
  "like X (\<lambda>f. theCurrentDataSize f \<noteq> 0) (placed_copy data offset) (copy_in data offset)
     (\<lambda>f. theCurrentDataSize f \<noteq> 0)"
proof (rule likeI, goal_cases)
  case (1 x f s)
  have fx: "the_file x = f\<lparr>theData := NoMapping\<rparr>" using 1 by (simp add: stands_for_def)
  show ?case
  proof (cases "the_pointer x")
    case (At a)
    obtain bs where bs: "map_of (the_space x) a = Some bs" "int (length bs) = theCurrentDataSize f" "theData f = Mapped bs"
      and o: "owned x = {a}" "others x = dom (map_of (the_space x)) - {a}"
      by (rule has_region [OF 1 At])
    let ?bs = "take (nat offset) bs @ data @ drop (nat offset + length data) bs"
    let ?x = "kernel_store ?bs x"
    show ?thesis
    proof (cases "0 \<le> offset \<and> nat offset + length data \<le> length bs")
      case True
      then have "stands_for ?x (f\<lparr>theData := Mapped ?bs\<rparr>)"
        using 1 At bs fx by (auto simp: stands_for_def kernel_store_def update_conv')
      moreover have "others ?x = others x" "lost_memory ?x = lost_memory x"
        using 1 At o bs(1) fx by (auto simp: others_def owned_def kernel_store_def update_conv' lost_memory_def)
      then have "spares X x (Ret ()) ?x"
        using At o by (auto simp: spares_def kernel_store_def update_conv')
      ultimately show ?thesis using True 1(2) At bs
        by (simp add: placed_copy_def copy_in_def bind_run comp_simps region_at_def)
    next
      case False
      then show ?thesis using At bs
        by (auto simp: placed_copy_def copy_in_def bind_run comp_simps region_at_def)
    qed
  qed (use 1 in \<open>auto simp: placed_copy_def copy_in_def bind_run comp_simps region_at_def stands_for_def\<close>)
qed

lemma free_like: "like X P placed_free free_memory (\<lambda>f. theCurrentDataSize f = 0)"
proof (rule likeI, goal_cases)
  case (1 x f s)
  have fx: "the_file x = f\<lparr>theData := NoMapping\<rparr>" using 1 by (simp add: stands_for_def)
  show ?case
  proof (cases "theCurrentDataSize f = 0")
    case True
    then show ?thesis using 1 fx
      by (auto simp: placed_free_def free_memory_def bind_run comp_simps intro: spares_refl)
  next
    case False
    let ?f = "(the_file x)\<lparr>theWritten := 0, theHasChanges := False, theCurrentDataSize := 0\<rparr>"
    show ?thesis
    proof (cases "the_pointer x")
      case (At a)
      obtain bs where bs: "map_of (the_space x) a = Some bs" "int (length bs) = theCurrentDataSize f" "theData f = Mapped bs"
        and o: "owned x = {a}" "others x = dom (map_of (the_space x)) - {a}"
        by (rule has_region [OF 1(1) False At])
      let ?x = "x\<lparr>the_space := AList.delete a (the_space x), the_file := ?f\<rparr>"
      have "others ?x = others x" using At o by (auto simp: others_def owned_def delete_conv')
      then have "spares X x (Ret ()) ?x" using o by (auto simp: spares_def lost_memory_def delete_conv')
      then show ?thesis using False At bs fx
        by (simp add: placed_free_def free_memory_def file_set_def kernel_unmap_def bind_run comp_simps region_at_def stands_for_def)
    next
      case MAP_FAILED
      then have "spares X x (Ret ()) (x\<lparr>the_file := ?f\<rparr>)"
        by (simp add: spares_def others_def owned_def lost_memory_def)
      then show ?thesis using False MAP_FAILED fx
        by (simp add: placed_free_def free_memory_def file_set_def bind_run comp_simps region_at_def stands_for_def)
    qed (use 1 False in \<open>simp add: stands_for_def\<close>)
  qed
qed

lemma begin_like:
  "like {extension_failed} (\<lambda>f'. f' = f) (if theCurrentDataSize f = 0 then placed_init E pick else ret ())
     (if theCurrentDataSize f = 0 then init_memory E else ret ()) (\<lambda>f. theCurrentDataSize f \<noteq> 0)"
  by (intro like_if like_weaken [OF init_like] like_weaken [OF like_ret]) auto

lemma note_like:
  "like X (\<lambda>f. theCurrentDataSize f \<noteq> 0)
     (bind (file_set (\<lambda>f. f\<lparr>theHasChanges := True\<rparr>)) (\<lambda>_.
      bind (file_set (\<lambda>f. f\<lparr>theWritten := c_size_t (theWritten f + n)\<rparr>)) (\<lambda>_. ret n)))
     (bind (this_set (\<lambda>f. f\<lparr>theHasChanges := True\<rparr>)) (\<lambda>_.
      bind (this_set (\<lambda>f. f\<lparr>theWritten := c_size_t (theWritten f + n)\<rparr>)) (\<lambda>_. ret n)))
     (\<lambda>f. theCurrentDataSize f \<noteq> 0)"
  by (intro like_bind [where Q = "\<lambda>f. theCurrentDataSize f \<noteq> 0"] like_set like_ret) simp_all

lemma write_rest_like:
  "like {extension_failed} (\<lambda>f'. f' = f)
      (bind (if theCurrentDataSize f = 0 then placed_init E pick else ret ()) (\<lambda>_.
       bind (placed_extend_loop E pick fuel target) (\<lambda>_.
       bind (placed_copy data offset) (\<lambda>_.
       bind (file_set (\<lambda>f. f\<lparr>theHasChanges := True\<rparr>)) (\<lambda>_.
       bind (file_set (\<lambda>f. f\<lparr>theWritten := c_size_t (theWritten f + sz)\<rparr>)) (\<lambda>_. ret sz))))))
      (bind (if theCurrentDataSize f = 0 then init_memory E else ret ()) (\<lambda>_.
       bind (extend_loop E fuel target) (\<lambda>_.
       bind (copy_in data offset) (\<lambda>_.
       bind (this_set (\<lambda>f. f\<lparr>theHasChanges := True\<rparr>)) (\<lambda>_.
       bind (this_set (\<lambda>f. f\<lparr>theWritten := c_size_t (theWritten f + sz)\<rparr>)) (\<lambda>_. ret sz))))))
      (\<lambda>f. theCurrentDataSize f \<noteq> 0)"
  by (intro like_bind [OF begin_like] like_bind [OF extend_loop_like] like_bind [OF copy_like] note_like)

lemma size_like:
  "like X (\<lambda>f. True) (file_set (\<lambda>f. if theChunkSize f = 0 then f\<lparr>theChunkSize := n\<rparr> else f))
      (this_set (\<lambda>f. if theChunkSize f = 0 then f\<lparr>theChunkSize := n\<rparr> else f)) (\<lambda>f. True)"
  by (rule like_set) simp_all

lemma write_like:
  "like {extension_failed} (\<lambda>f. True) (placed_write E pick data offset) (file_write E data offset) (\<lambda>f. True)"
  unfolding placed_write_def file_write_def Let_def
proof (rule like_bind [OF size_like], rule like_get, goal_cases)
  case (1 a f)
  have f: "theWritten (f\<lparr>theData := NoMapping\<rparr>) = theWritten f"
    "theCurrentDataSize (f\<lparr>theData := NoMapping\<rparr>) = theCurrentDataSize f" by simp_all
  show ?case unfolding f
    by (rule like_if, rule like_throw, simp, rule like_weaken [OF write_rest_like]) simp_all
qed

text \<open>Storing and destroying leave nothing over, whatever the database throws.\<close>

lemma gridfile_like: "like {} P (on_file (gridfile E)) (gridfile E) (\<lambda>f. True)"
proof (rule likeI, goal_cases)
  case (1 x f s)
  obtain r f' s' where g: "gridfile E (f, s) = (r, f', s')" by (cases "gridfile E (f, s)")
  then obtain h where f': "f' = f\<lparr>theGridFile := h\<rparr>" using gridfile_frame by blast
  have fx: "the_file x = f\<lparr>theData := NoMapping\<rparr>" using 1 by (simp add: stands_for_def)
  have "gridfile E (the_file x, s) = (r, f'\<lparr>theData := NoMapping\<rparr>, s')"
    using g fx by (auto simp: gridfile_def bind_run comp_simps split: option.splits prod.splits outcome.splits)
  then have "on_file (gridfile E) (x, s) = (r, x\<lparr>the_file := f'\<lparr>theData := NoMapping\<rparr>\<rparr>, s')"
    by (simp add: on_file_def)
  moreover have "stands_for (x\<lparr>the_file := f'\<lparr>theData := NoMapping\<rparr>\<rparr>) f'"
    using 1 by (simp add: stands_for_def f' split: address.splits if_splits)
  moreover have "spares {} x r (x\<lparr>the_file := f'\<lparr>theData := NoMapping\<rparr>\<rparr>)"
    by (simp add: spares_def others_def owned_def lost_memory_def f' fx split: address.split)
  ultimately show ?case using g by blast
qed

lemma bytes_like:
  assumes "stands_for x f"
  shows "placed_bytes (the_pointer x) (the_space x) (theWritten (the_file x)) = mapped_bytes (theData f) (theWritten f)"
  using assms
  by (auto simp: stands_for_def placed_bytes_def mapped_bytes_def region_at_def split: if_splits address.splits)

lemma store_rest_like:
  "like {} P (bind (outside m) (\<lambda>_. bind placed_free (\<lambda>_.
      bind (file_set (\<lambda>f. f\<lparr>theFileLength := theWritten f\<rparr>)) (\<lambda>_. outside k))))
     (bind (outside m) (\<lambda>_. bind free_memory (\<lambda>_.
      bind (this_set (\<lambda>f. f\<lparr>theFileLength := theWritten f\<rparr>)) (\<lambda>_. outside k)))) (\<lambda>f. True)"
  by (intro like_bind [OF like_outside] like_bind [OF free_like]
      like_bind [OF like_set [where Q = "\<lambda>f. True"]] like_outside) simp_all

lemma of_outcome_Ret: "of_outcome (Ret a) = ret a"
  by (simp add: fun_eq_iff comp_simps)

lemma store_data_like:
  "like {} P (bind this_get (\<lambda>x.
      bind (of_outcome (placed_bytes (the_pointer x) (the_space x) (theWritten (the_file x)))) (\<lambda>data.
      bind (outside (call (store_file E data (thePath (the_file x)) ct))) (\<lambda>_.
      bind placed_free (\<lambda>_.
      bind (file_set (\<lambda>f. f\<lparr>theFileLength := theWritten f\<rparr>)) (\<lambda>_. outside (synchonizeUpdate E)))))))
    (bind this_get (\<lambda>f.
      bind (of_outcome (mapped_bytes (theData f) (theWritten f))) (\<lambda>data.
      bind (outside (call (store_file E data (thePath f) ct))) (\<lambda>_.
      bind free_memory (\<lambda>_.
      bind (this_set (\<lambda>f. f\<lparr>theFileLength := theWritten f\<rparr>)) (\<lambda>_. outside (synchonizeUpdate E)))))))
    (\<lambda>f. True)"
proof (rule likeI, goal_cases)
  case (1 x f s)
  note b = bytes_like [OF 1(1)]
  have path: "thePath (the_file x) = thePath f" using 1 by (simp add: stands_for_def)
  show ?case
  proof (cases "mapped_bytes (theData f) (theWritten f)")
    case (Ret data)
    note rest = store_rest_like [where P = P and m = "call (store_file E data (thePath f) ct)" and k = "synchonizeUpdate E",
        unfolded like_def, rule_format, OF 1, of s]
    show ?thesis using rest Ret b path by (simp add: bind_run [of this_get] this_run of_outcome_Ret bind_ret)
  qed (use 1 b in \<open>auto simp: bind_run comp_simps intro: spares_refl\<close>)
qed

lemma store_like: "like {} (\<lambda>f. True) (placed_store E) (file_store E) (\<lambda>f. True)"
  unfolding placed_store_def file_store_def
proof (rule like_bind [OF gridfile_like], goal_cases)
  case (1 g)
  show ?case
    by (cases "gf_content_type g") (simp_all add: getter_simps comp_simps like_throw store_data_like)
qed

lemma destroy_like:
  "like {} (\<lambda>f. True) placed_destroy (bind free_memory (\<lambda>_. outside (modify drop_connection)))
    (\<lambda>f. theCurrentDataSize f = 0)"
  unfolding placed_destroy_def by (intro like_bind [OF free_like] like_outside) (simp add: comp_simps)

end

end
