(* ===== verification/Memory_Theorems.thy ===== *)
theory Memory_Theorems
  imports File_Memory Attribute_Theorems
begin

text \<open>
  Any number of files in one address space: they are made, written, stored and destroyed in any
  order. They behave as the separate objects of theory File_Entry, and when all are destroyed the
  address space is empty, unless the kernel refused to extend the memory of one.
\<close>

section \<open>Files in one address space\<close>

text \<open>What happens to the files: those that were destroyed are \<open>None\<close>.\<close>

datatype file_event = Construct string | WriteAt nat bytes int | StoreFile nat | Destroy nat

datatype event_result =
    Constructed "exn option" | Wrote "exn + int option" | Stored "exn + unit option" | Destroyed

text \<open>The caller of a member function goes on after an exception.\<close>

definition attempt :: "('s, 'a) comp \<Rightarrow> ('s, exn + 'a) comp" where
  "attempt m = (\<lambda>s. case m s of
     (Ret a, s') \<Rightarrow> (Ret (Inr a), s')
   | (Throw e, s') \<Rightarrow> (Ret (Inl e), s')
   | (Fault x, s') \<Rightarrow> (Fault x, s')
   | (Exit n, s') \<Rightarrow> (Exit n, s'))"

type_synonym placed_files = "(file_obj \<times> address) option list \<times> space"

definition placed_at :: "space \<Rightarrow> file_obj \<times> address \<Rightarrow> placed" where
  "placed_at k q = \<lparr>the_file = fst q, the_pointer = snd q, the_space = k\<rparr>"

definition in_space ::
  "nat \<Rightarrow> ('w, 'x, 'a) placed_comp \<Rightarrow> (placed_files \<times> ('w, 'x) process_scheme, 'a option) comp" where
  "in_space i m = (\<lambda>((fs, k), s).
     if i < length fs then (case fs ! i of
         None \<Rightarrow> (Ret None, (fs, k), s)
       | Some q \<Rightarrow> (case m (placed_at k q, s) of (r, x, s') \<Rightarrow>
           (map_outcome Some r, (fs[i := Some (the_file x, the_pointer x)], the_space x), s')))
     else (Ret None, (fs, k), s))"

definition placed_event ::
  "'w env \<Rightarrow> (space \<Rightarrow> nat) \<Rightarrow> file_event \<Rightarrow>
   (placed_files \<times> ('w, 'x) process_scheme, event_result) comp" where
  "placed_event E pick ev = (case ev of
     Construct p \<Rightarrow>
       bind (attempt (outside (new_file E p))) (\<lambda>v. case v of
           Inl e \<Rightarrow> ret (Constructed (Some e))
         | Inr f \<Rightarrow> bind (this_set (\<lambda>(fs, k). (fs @ [Some (f, Null)], k))) (\<lambda>_. ret (Constructed None)))
   | WriteAt i data offset \<Rightarrow>
       bind (attempt (in_space i (placed_write E pick data offset))) (\<lambda>v. ret (Wrote v))
   | StoreFile i \<Rightarrow> bind (attempt (in_space i (placed_store E))) (\<lambda>v. ret (Stored v))
   | Destroy i \<Rightarrow>
       bind (in_space i placed_destroy) (\<lambda>_.
       bind (this_set (\<lambda>(fs, k). (fs[i := None], k))) (\<lambda>_. ret Destroyed)))"

text \<open>The same events for objects as theory File_Entry has them, each with its own contents.\<close>

definition in_list ::
  "nat \<Rightarrow> (file_obj \<times> ('w, 'x) process_scheme, 'a) comp \<Rightarrow>
   (file_obj option list \<times> ('w, 'x) process_scheme, 'a option) comp" where
  "in_list i m = (\<lambda>(fs, s).
     if i < length fs then (case fs ! i of
         None \<Rightarrow> (Ret None, fs, s)
       | Some f \<Rightarrow> (case m (f, s) of (r, f', s') \<Rightarrow> (map_outcome Some r, fs[i := Some f'], s')))
     else (Ret None, fs, s))"

definition object_event ::
  "'w env \<Rightarrow> file_event \<Rightarrow> (file_obj option list \<times> ('w, 'x) process_scheme, event_result) comp" where
  "object_event E ev = (case ev of
     Construct p \<Rightarrow>
       bind (attempt (outside (new_file E p))) (\<lambda>v. case v of
           Inl e \<Rightarrow> ret (Constructed (Some e))
         | Inr f \<Rightarrow> bind (this_set (\<lambda>fs. fs @ [Some f])) (\<lambda>_. ret (Constructed None)))
   | WriteAt i data offset \<Rightarrow> bind (attempt (in_list i (file_write E data offset))) (\<lambda>v. ret (Wrote v))
   | StoreFile i \<Rightarrow> bind (attempt (in_list i (file_store E))) (\<lambda>v. ret (Stored v))
   | Destroy i \<Rightarrow>
       bind (in_list i (bind free_memory (\<lambda>_. outside (modify drop_connection)))) (\<lambda>_.
       bind (this_set (\<lambda>fs. fs[i := None])) (\<lambda>_. ret Destroyed)))"

section \<open>Owners\<close>

definition owned_by :: "(file_obj \<times> address) option list \<Rightarrow> nat \<Rightarrow> nat set" where
  "owned_by fs i = (case fs ! i of None \<Rightarrow> {} | Some q \<Rightarrow> owned (placed_at [] q))"

text \<open>The regions that belong to no file.\<close>

definition stray :: "placed_files \<Rightarrow> nat set" where
  "stray c = dom (map_of (snd c)) - (\<Union>i < length (fst c). owned_by (fst c) i)"

definition separate :: "(file_obj \<times> address) option list \<Rightarrow> bool" where
  "separate fs \<longleftrightarrow> (\<forall>i < length fs. \<forall>j < length fs. i \<noteq> j \<longrightarrow> owned_by fs i \<inter> owned_by fs j = {})"

definition ruined :: "(file_obj \<times> address) option list \<Rightarrow> bool" where
  "ruined fs \<longleftrightarrow> (\<exists>q. Some q \<in> set fs \<and> lost_memory (placed_at [] q))"

definition alike :: "placed_files \<Rightarrow> file_obj option list \<Rightarrow> bool" where
  "alike c os \<longleftrightarrow> list_all2 (rel_option (\<lambda>q f. stands_for (placed_at (snd c) q) f)) (fst c) os \<and>
     separate (fst c) \<and> (ruined (fst c) \<longrightarrow> stray c \<noteq> {})"

lemma owned_placed: "owned (placed_at k q) = owned (placed_at [] q)"
  by (simp add: owned_def placed_at_def split: address.split)

lemma placed_at_self [simp]: "placed_at (the_space x) (the_file x, the_pointer x) = x"
  by (cases x) (simp add: placed_at_def)

lemma lost_placed: "lost_memory (placed_at k q) = lost_memory (placed_at [] q)"
  by (simp add: lost_memory_def placed_at_def)

text \<open>A file only looks at its own region.\<close>

lemma stands_for_agree:
  assumes "stands_for (placed_at k q) f" "\<And>a. a \<in> owned (placed_at [] q) \<Longrightarrow> map_of k' a = map_of k a"
  shows "stands_for (placed_at k' q) f"
proof -
  have "\<And>a. snd q = At a \<Longrightarrow> theCurrentDataSize f \<noteq> 0 \<Longrightarrow> map_of k' a = map_of k a"
    using assms by (auto simp: stands_for_def owned_def placed_at_def)
  with assms(1) show ?thesis by (auto simp: stands_for_def placed_at_def split: address.splits if_splits)
qed

lemma stands_for_owned: "stands_for (placed_at k q) f \<Longrightarrow> owned (placed_at [] q) \<subseteq> dom (map_of k)"
  by (auto simp: stands_for_def owned_def placed_at_def split: address.splits if_splits)

lemma alike_nth:
  assumes "alike (fs, k) os" "i < length fs"
  shows "rel_option (\<lambda>q f. stands_for (placed_at k q) f) (fs ! i) (os ! i)"
  using assms by (simp add: alike_def list_all2_conv_all_nth)

text \<open>The regions of the other files are among those that an operation of one file spares.\<close>

lemma owned_by_others:
  assumes c: "alike (fs, k) os" and i: "i < length fs" "fs ! i = Some q" and j: "j < length fs" "j \<noteq> i"
  shows "owned_by fs j \<subseteq> others (placed_at k q)"
proof
  fix a assume a: "a \<in> owned_by fs j"
  then obtain p where p: "fs ! j = Some p" "a \<in> owned (placed_at [] p)" by (auto simp: owned_by_def split: option.splits)
  obtain g where "stands_for (placed_at k p) g" using alike_nth [OF c j(1)] p(1) by (cases "os ! j") auto
  then have "a \<in> dom (map_of k)" using p(2) stands_for_owned by blast
  moreover have "owned_by fs i \<inter> owned_by fs j = {}" using c i(1) j by (simp add: alike_def separate_def)
  then have "a \<notin> owned (placed_at [] q)" using a i(2) by (auto simp: owned_by_def [of fs i])
  ultimately show "a \<in> others (placed_at k q)" by (simp add: others_def owned_placed [of k q]) (simp add: placed_at_def)
qed

lemma owned_by_update:
  "j < length fs \<Longrightarrow> owned_by (fs[i := Some q]) j = (if j = i then owned (placed_at [] q) else owned_by fs j)"
  by (simp add: owned_by_def nth_list_update)

lemma stray_others:
  assumes "i < length fs" "fs ! i = Some q"
  shows "stray (fs, k) = others (placed_at k q) - (\<Union>j \<in> {..<length fs} - {i}. owned_by fs j)"
proof -
  have "(\<Union>j < length fs. owned_by fs j) = owned (placed_at [] q) \<union> (\<Union>j \<in> {..<length fs} - {i}. owned_by fs j)"
    using assms by (auto simp: owned_by_def)
  moreover have "the_space (placed_at k q) = k" by (simp add: placed_at_def)
  ultimately show ?thesis unfolding stray_def others_def owned_placed [of k q] by auto
qed

lemma update_alike:
  assumes c: "alike (fs, k) os" and i: "i < length fs" "fs ! i = Some q"
    and sp: "spares X (placed_at k q) r x'" and st: "stands_for x' f'"
  shows "list_all2 (rel_option (\<lambda>q f. stands_for (placed_at (the_space x') q) f))
    (fs[i := Some (the_file x', the_pointer x')]) (os[i := Some f'])"
proof -
  have len: "length os = length fs" using c by (auto simp: alike_def dest: list_all2_lengthD)
  have "rel_option (\<lambda>q f. stands_for (placed_at (the_space x') q) f) (fs ! j) (os ! j)" if j: "j < length fs" "j \<noteq> i" for j
  proof (cases "fs ! j")
    case None
    then show ?thesis using alike_nth [OF c j(1)] by simp
  next
    case (Some p)
    then obtain g where g: "os ! j = Some g" "stands_for (placed_at k p) g" using alike_nth [OF c j(1)] by (cases "os ! j") auto
    have "map_of (the_space x') a = map_of k a" if "a \<in> owned (placed_at [] p)" for a
    proof -
      have "a \<in> others (placed_at k q)" using owned_by_others [OF c i j] that Some by (auto simp: owned_by_def)
      then show ?thesis using sp by (simp add: spares_def) (simp add: placed_at_def)
    qed
    with g(2) have "stands_for (placed_at (the_space x') p) g" by (rule stands_for_agree)
    with Some g show ?thesis by simp
  qed
  then show ?thesis using len st i by (auto simp: list_all2_conv_all_nth nth_list_update)
qed

lemma update_separate:
  assumes c: "alike (fs, k) os" and i: "i < length fs" "fs ! i = Some q"
    and sp: "spares X (placed_at k q) r x'"
  shows "separate (fs[i := Some (the_file x', the_pointer x')])"
proof -
  have o: "owned (placed_at [] (the_file x', the_pointer x')) = owned x'"
    by (simp add: owned_def placed_at_def split: address.split)
  have "owned x' \<inter> owned_by fs j = {}" if "j < length fs" "j \<noteq> i" for j
    using owned_by_others [OF c i that] sp by (auto simp: spares_def others_def)
  then show ?thesis
    using c i by (auto simp: separate_def alike_def owned_by_update o)
qed

lemma update_stray:
  assumes c: "alike (fs, k) os" and i: "i < length fs" "fs ! i = Some q"
    and sp: "spares X (placed_at k q) r x'"
  defines "fs' \<equiv> fs[i := Some (the_file x', the_pointer x')]"
  shows "stray (fs', the_space x') = {} \<longleftrightarrow> stray (fs, k) = {} \<and> \<not> (\<exists>e \<in> X. r = Throw e)"
    and "ruined fs' \<Longrightarrow> stray (fs', the_space x') \<noteq> {}"
proof -
  let ?U = "\<Union>j \<in> {..<length fs} - {i}. owned_by fs j" and ?x = "placed_at k q"
  have "stray (fs', the_space x') = others x' - (\<Union>j \<in> {..<length fs'} - {i}. owned_by fs' j)"
    using stray_others [of i fs' "(the_file x', the_pointer x')" "the_space x'"] i
    by (simp add: fs'_def)
  moreover have "(\<Union>j \<in> {..<length fs'} - {i}. owned_by fs' j) = ?U" by (auto simp: fs'_def owned_by_update)
  ultimately have new: "stray (fs', the_space x') = others x' - ?U" by simp
  have old: "stray (fs, k) = others ?x - ?U" by (rule stray_others [OF i])
  have U: "?U \<subseteq> others ?x" using owned_by_others [OF c i] by auto
  have old_ruined: "ruined fs \<Longrightarrow> stray (fs, k) \<noteq> {}" using c by (simp add: alike_def)
  have "Some q \<in> set fs" using i nth_mem by metis
  then have lost: "lost_memory ?x \<Longrightarrow> stray (fs, k) \<noteq> {}"
    using old_ruined lost_placed [of k q] unfolding ruined_def by blast
  have rest: "ruined fs" if bad: "ruined fs'" "\<not> lost_memory x'"
  proof -
    obtain p where p: "Some p \<in> set fs'" "lost_memory (placed_at [] p)" using bad(1) unfolding ruined_def by blast
    have "lost_memory (placed_at [] (the_file x', the_pointer x')) = lost_memory x'"
      using lost_placed [of "the_space x'" "(the_file x', the_pointer x')"] by simp
    with p bad(2) have "p \<noteq> (the_file x', the_pointer x')" by blast
    with p(1) have "Some p \<in> set fs" using set_update_subset_insert [of fs i] unfolding fs'_def by fastforce
    with p(2) show ?thesis unfolding ruined_def by blast
  qed
  have grow: "others ?x \<subseteq> others x'" using sp by (simp add: spares_def)
  show 1: "stray (fs', the_space x') = {} \<longleftrightarrow> stray (fs, k) = {} \<and> \<not> (\<exists>e \<in> X. r = Throw e)"
  proof (cases "\<exists>e \<in> X. r = Throw e")
    case True
    then have "lost_memory ?x \<or> others x' \<noteq> others ?x" using sp by (simp add: spares_def)
    then have "stray (fs', the_space x') \<noteq> {}" using lost grow U unfolding new old by blast
    with True show ?thesis by blast
  next
    case False
    then have "others x' = others ?x" using sp by (simp add: spares_def)
    with False show ?thesis unfolding new old by simp
  qed
  show "ruined fs' \<Longrightarrow> stray (fs', the_space x') \<noteq> {}"
  proof (cases "\<exists>e \<in> X. r = Throw e")
    case False
    assume "ruined fs'"
    then have "lost_memory ?x \<or> ruined fs" using rest sp False by (auto simp: spares_def)
    with lost old_ruined 1 show ?thesis by blast
  qed (use 1 in blast)
qed

text \<open>An operation of one file, seen from all.\<close>

lemma in_space_like:
  assumes m: "like X (\<lambda>f. True) m m' Q" and c: "alike (fs, k) os"
  shows "\<exists>r fs' k' os' s'. in_space i m ((fs, k), s) = (r, (fs', k'), s') \<and> in_list i m' (os, s) = (r, os', s') \<and>
    (goes_on r \<longrightarrow> alike (fs', k') os' \<and>
      (stray (fs', k') = {} \<longleftrightarrow> stray (fs, k) = {} \<and> \<not> (\<exists>e \<in> X. r = Throw e))) \<and>
    (\<forall>a. r = Ret a \<longrightarrow> i < length os' \<longrightarrow> os' ! i = None \<or> (\<exists>f. os' ! i = Some f \<and> Q f))"
proof (cases "i < length fs \<and> fs ! i \<noteq> None")
  case False
  have len: "length os = length fs" using c by (auto simp: alike_def dest: list_all2_lengthD)
  have none: "fs ! i = None" if "i < length fs" using False that by blast
  have gone: "os ! i = None" if "i < length fs" using alike_nth [OF c that] none [OF that] by simp
  with none have "in_space i m ((fs, k), s) = (Ret None, (fs, k), s)" "in_list i m' (os, s) = (Ret None, os, s)"
    using False len by (auto simp: in_space_def in_list_def)
  then show ?thesis using c gone len by auto
next
  case True
  then obtain q where i: "i < length fs" "fs ! i = Some q" by auto
  obtain f where f: "os ! i = Some f" "stands_for (placed_at k q) f" using alike_nth [OF c i(1)] i(2) by (cases "os ! i") auto
  have len: "length os = length fs" using c by (auto simp: alike_def dest: list_all2_lengthD)
  obtain r x' f' s' where 1: "m (placed_at k q, s) = (r, x', s')" "m' (f, s) = (r, f', s')"
    "goes_on r \<Longrightarrow> stands_for x' f'" "goes_on r \<Longrightarrow> spares X (placed_at k q) r x'" "\<And>a. r = Ret a \<Longrightarrow> Q f'"
    using likeD [OF m f(2), of s] by metis
  let ?r = "map_outcome Some r" and ?fs = "fs[i := Some (the_file x', the_pointer x')]"
  have "in_space i m ((fs, k), s) = (?r, (?fs, the_space x'), s')" "in_list i m' (os, s) = (?r, os[i := Some f'], s')"
    using i f len 1(1,2) by (simp_all add: in_space_def in_list_def)
  moreover have "alike (?fs, the_space x') (os[i := Some f']) \<and>
      (stray (?fs, the_space x') = {} \<longleftrightarrow> stray (fs, k) = {} \<and> \<not> (\<exists>e \<in> X. ?r = Throw e))" if "goes_on ?r"
  proof -
    have g: "goes_on r" using that by (cases r) simp_all
    have t: "?r = Throw e \<longleftrightarrow> r = Throw e" for e by (cases r) simp_all
    note st = 1(3) [OF g] and sp = 1(4) [OF g]
    show ?thesis using update_alike [OF c i sp st] update_separate [OF c i sp] update_stray [OF c i sp]
      by (simp add: alike_def t)
  qed
  moreover have "os[i := Some f'] ! i = None \<or> (\<exists>f. os[i := Some f'] ! i = Some f \<and> Q f)" if "?r = Ret a" for a
    using that 1(5) i len by (cases r) simp_all
  ultimately show ?thesis by blast
qed

text \<open>A file goes, and its slot stays empty; a new one has no memory.\<close>

lemma owned_by_gone: "owned_by (fs[i := None]) j = (if j = i \<and> i < length fs then {} else owned_by fs j)"
  by (cases "i < length fs") (simp_all add: owned_by_def nth_list_update list_update_beyond)

lemma remove_alike:
  assumes c: "alike (fs, k) os"
    and e: "i < length os \<Longrightarrow> os ! i = None \<or> (\<exists>f. os ! i = Some f \<and> theCurrentDataSize f = 0)"
  shows "alike (fs[i := None], k) (os[i := None])" "stray (fs[i := None], k) = stray (fs, k)"
proof -
  have len: "length os = length fs" using c by (auto simp: alike_def dest: list_all2_lengthD)
  have "owned_by fs i = {}" if i: "i < length fs"
  proof (cases "fs ! i")
    case (Some q)
    then show ?thesis using alike_nth [OF c i] e i len
      by (cases "os ! i") (auto simp: owned_by_def owned_def stands_for_def placed_at_def split: address.split)
  qed (simp add: owned_by_def)
  then have o: "owned_by (fs[i := None]) j = owned_by fs j" for j by (auto simp: owned_by_gone)
  show s: "stray (fs[i := None], k) = stray (fs, k)" by (simp add: stray_def o)
  have "ruined (fs[i := None]) \<Longrightarrow> ruined fs"
    using set_update_subset_insert [of fs i None] unfolding ruined_def by blast
  moreover have "list_all2 (rel_option (\<lambda>q f. stands_for (placed_at k q) f)) (fs[i := None]) (os[i := None])"
    using c by (intro list_all2_update_cong) (simp_all add: alike_def)
  ultimately show "alike (fs[i := None], k) (os[i := None])"
    using c s by (auto simp: alike_def separate_def o)
qed

lemma append_alike:
  assumes c: "alike (fs, k) os" and f: "f = file_of_entry e"
  shows "alike (fs @ [Some (f, Null)], k) (os @ [Some f])" "stray (fs @ [Some (f, Null)], k) = stray (fs, k)"
proof -
  let ?fs = "fs @ [Some (f, Null)]"
  have o: "owned_by ?fs j = (if j < length fs then owned_by fs j else {})" if "j < length ?fs" for j
    using that by (auto simp: owned_by_def nth_append owned_def placed_at_def)
  show s: "stray (?fs, k) = stray (fs, k)" by (auto simp: stray_def o split: if_splits)
  have n: "stands_for (placed_at k (f, Null)) f" "\<not> lost_memory (placed_at [] (f, Null))"
    by (simp_all add: f stands_for_def lost_memory_def placed_at_def file_of_entry_def)
  have "ruined ?fs = ruined fs" using n(2) unfolding ruined_def by auto
  moreover have "separate ?fs" using c by (auto simp: alike_def separate_def o)
  ultimately show "alike (?fs, k) (os @ [Some f])"
    using c s n(1) by (simp add: alike_def list_all2_appendI)
qed

lemma new_file_made: "new_file E p s = (Ret f, s') \<Longrightarrow> \<exists>e. f = file_of_entry e"
  by (auto simp: new_file_def bind_run comp_simps split: prod.splits outcome.splits)

section \<open>Any sequence of events\<close>

context address_space
begin

lemma event_like:
  assumes c: "alike (fs, k) os"
  shows "\<exists>r fs' k' os' s'. placed_event E pick ev ((fs, k), s) = (r, (fs', k'), s') \<and>
    object_event E ev (os, s) = (r, os', s') \<and>
    (goes_on r \<longrightarrow> alike (fs', k') os' \<and>
      (stray (fs', k') = {} \<longleftrightarrow> stray (fs, k) = {} \<and> r \<noteq> Ret (Wrote (Inl extension_failed))))"
proof (cases ev)
  case (Construct p)
  obtain r t where r: "new_file E p s = (r, t)" by (cases "new_file E p s")
  show ?thesis
  proof (cases r)
    case (Ret f)
    then obtain e where "f = file_of_entry e" using r new_file_made by blast
    from append_alike [OF c this] show ?thesis using Ret r
      by (simp add: Construct placed_event_def object_event_def attempt_def bind_run comp_simps)
  qed (use r c in \<open>simp_all add: Construct placed_event_def object_event_def attempt_def bind_run comp_simps\<close>)
next
  case (WriteAt i data off)
  from in_space_like [OF write_like [of data off] c, of i s]
  obtain r fs' k' os' s' where 1: "in_space i (placed_write E pick data off) ((fs, k), s) = (r, (fs', k'), s')"
    "in_list i (file_write E data off) (os, s) = (r, os', s')"
    "goes_on r \<longrightarrow> alike (fs', k') os' \<and>
      (stray (fs', k') = {} \<longleftrightarrow> stray (fs, k) = {} \<and> \<not> (\<exists>e \<in> {extension_failed}. r = Throw e))" by blast
  then show ?thesis
    by (cases r) (simp_all add: WriteAt placed_event_def object_event_def attempt_def bind_run comp_simps)
next
  case (StoreFile i)
  from in_space_like [OF store_like c, of i s]
  obtain r fs' k' os' s' where 1: "in_space i (placed_store E) ((fs, k), s) = (r, (fs', k'), s')"
    "in_list i (file_store E) (os, s) = (r, os', s')"
    "goes_on r \<longrightarrow> alike (fs', k') os' \<and>
      (stray (fs', k') = {} \<longleftrightarrow> stray (fs, k) = {} \<and> \<not> (\<exists>e \<in> {}. r = Throw e))" by blast
  then show ?thesis
    by (cases r) (simp_all add: StoreFile placed_event_def object_event_def attempt_def bind_run comp_simps)
next
  case (Destroy i)
  from in_space_like [OF destroy_like c, of i s]
  obtain r fs' k' os' s' where 1: "in_space i placed_destroy ((fs, k), s) = (r, (fs', k'), s')"
    "in_list i (bind free_memory (\<lambda>_. outside (modify drop_connection))) (os, s) = (r, os', s')"
    "goes_on r \<longrightarrow> alike (fs', k') os' \<and>
      (stray (fs', k') = {} \<longleftrightarrow> stray (fs, k) = {} \<and> \<not> (\<exists>e \<in> {}. r = Throw e))"
    "\<forall>a. r = Ret a \<longrightarrow> i < length os' \<longrightarrow> os' ! i = None \<or> (\<exists>f. os' ! i = Some f \<and> theCurrentDataSize f = 0)"
    by blast
  show ?thesis
  proof (cases r)
    case (Ret a)
    then have "alike (fs', k') os'" using 1(3) by simp
    from remove_alike [OF this] show ?thesis using 1 Ret
      by (simp add: Destroy placed_event_def object_event_def bind_run [of "in_space _ _"] bind_run [of "in_list _ _"]
          bind_run [of "this_set _"] this_run comp_run)
  qed (use 1 in \<open>simp_all add: Destroy placed_event_def object_event_def
      bind_run [of "in_space _ _"] bind_run [of "in_list _ _"]\<close>)
qed

lemma events_like:
  assumes "alike (fs, k) os"
  shows "\<exists>r fs' k' os' s'. perform_all (placed_event E pick) evs ((fs, k), s) = (r, (fs', k'), s') \<and>
    perform_all (object_event E) evs (os, s) = (r, os', s') \<and>
    (\<forall>rs. r = Ret rs \<longrightarrow> alike (fs', k') os' \<and>
      (stray (fs', k') = {} \<longleftrightarrow> stray (fs, k) = {} \<and> Wrote (Inl extension_failed) \<notin> set rs))"
  using assms
proof (induction evs arbitrary: fs k os s)
  case Nil
  then show ?case by (simp add: comp_simps)
next
  case (Cons ev evs)
  from event_like [OF Cons.prems, of ev s]
  obtain r fs1 k1 os1 s1 where 1: "placed_event E pick ev ((fs, k), s) = (r, (fs1, k1), s1)"
    "object_event E ev (os, s) = (r, os1, s1)"
    "goes_on r \<longrightarrow> alike (fs1, k1) os1 \<and>
      (stray (fs1, k1) = {} \<longleftrightarrow> stray (fs, k) = {} \<and> r \<noteq> Ret (Wrote (Inl extension_failed)))" by blast
  show ?case
  proof (cases r)
    case (Ret v)
    with 1(3) have c1: "alike (fs1, k1) os1"
      "stray (fs1, k1) = {} \<longleftrightarrow> stray (fs, k) = {} \<and> v \<noteq> Wrote (Inl extension_failed)" by simp_all
    from Cons.IH [OF c1(1), of s1] obtain q fs2 k2 os2 s2 where
      2: "perform_all (placed_event E pick) evs ((fs1, k1), s1) = (q, (fs2, k2), s2)"
        "perform_all (object_event E) evs (os1, s1) = (q, os2, s2)"
        "\<forall>rs. q = Ret rs \<longrightarrow> alike (fs2, k2) os2 \<and>
          (stray (fs2, k2) = {} \<longleftrightarrow> stray (fs1, k1) = {} \<and> Wrote (Inl extension_failed) \<notin> set rs)" by blast
    show ?thesis using 1(1,2) 2 c1(2) by (cases q) (auto simp: Ret bind_run comp_simps)
  qed (use 1(1,2) in \<open>simp_all add: bind_run\<close>)
qed

end

lemma alike_nothing: "alike ([], []) []" "stray ([], []) = {}"
  by (simp_all add: alike_def separate_def ruined_def stray_def)

lemma all_gone: "\<forall>x \<in> set fs. x = None \<Longrightarrow> stray (fs, k) = {} \<longleftrightarrow> k = []"
proof -
  assume "\<forall>x \<in> set fs. x = None"
  then have "fs ! i = None" if "i < length fs" for i using that nth_mem by blast
  then have "owned_by fs i = {}" if "i < length fs" for i using that by (simp add: owned_by_def)
  then have "stray (fs, k) = dom (map_of k)" by (simp add: stray_def)
  then show ?thesis by (cases k) (auto simp: dom_map_of_conv_image_fst)
qed

section \<open>What holds\<close>

text \<open>The kernel of the demonstration: it chooses an address above all in use, and refuses to extend a
  region past a limit.\<close>

definition next_address :: "space \<Rightarrow> nat" where
  "next_address k = Suc (sum_list (map fst k))"

definition limited_env :: "int \<Rightarrow> ref_world env" where
  "limited_env limit = (ref_env [])\<lparr>config := (config (ref_env []))\<lparr>mongo_chunk_size := 4\<rparr>,
     remap_memory := \<lambda>_ n w. (0 < n \<and> n \<le> limit, w)\<rparr>"

lemma next_address_fresh: "next_address k \<notin> dom (map_of k)"
proof
  assume "next_address k \<in> dom (map_of k)"
  then have "next_address k \<in> set (map fst k)" by (simp add: dom_map_of_conv_image_fst)
  then have "next_address k \<le> sum_list (map fst k)" by (rule member_le_sum_list) simp
  then show False by (simp add: next_address_def)
qed

interpretation limited: address_space "limited_env limit" next_address for limit
  by unfold_locales (simp_all add: next_address_fresh limited_env_def ref_env_def)

text \<open>C13: Files that share one address space behave, event by event, like separate objects each with its
  own contents: the same results, exceptions and faults, the same process. So no event of one file
  changes the bytes of another, although regions move and addresses are used again.\<close>

theorem shared_memory_refines:
  assumes "\<And>k. pick k \<notin> dom (map_of k)"
    and "\<And>n w w'. map_memory E n w = (True, w') \<Longrightarrow> 0 < n"
    and "\<And>n n' w w'. remap_memory E n n' w = (True, w') \<Longrightarrow> 0 < n'"
  shows "\<exists>r fs k os s'. perform_all (placed_event E pick) evs (([], []), s) = (r, (fs, k), s') \<and>
    perform_all (object_event E) evs ([], s) = (r, os, s') \<and>
    (\<forall>rs. r = Ret rs \<longrightarrow> list_all2 (rel_option (\<lambda>q f. stands_for (placed_at k q) f)) fs os)"
proof -
  have "address_space E pick" using assms by unfold_locales
  from address_space.events_like [OF this alike_nothing(1), of evs s] show ?thesis by (auto simp: alike_def)
qed

theorem shared_memory_refines_witness:
  "\<exists>r fs k os s'. perform_all (placed_event (limited_env 8) next_address)
      [Construct ''/a'', Construct ''/b'', WriteAt 0 ''hello'' 0, WriteAt 1 ''x'' 0, Destroy 0] (([], []), demo) =
      (r, (fs, k), s') \<and>
    perform_all (object_event (limited_env 8))
      [Construct ''/a'', Construct ''/b'', WriteAt 0 ''hello'' 0, WriteAt 1 ''x'' 0, Destroy 0] ([], demo) = (r, os, s') \<and>
    (\<forall>rs. r = Ret rs \<longrightarrow> list_all2 (rel_option (\<lambda>q f. stands_for (placed_at k q) f)) fs os)"
  by (rule shared_memory_refines)
    (simp_all add: limited.pick_fresh limited.map_positive limited.remap_positive)

text \<open>C32: When every file that was made has been destroyed, all memory is back with the kernel exactly if no
  write failed because its memory could not be extended: then the pointer was overwritten before it
  was tested, and the old region is never released.\<close>

theorem memory_is_released:
  assumes "\<And>k. pick k \<notin> dom (map_of k)"
    and "\<And>n w w'. map_memory E n w = (True, w') \<Longrightarrow> 0 < n"
    and "\<And>n n' w w'. remap_memory E n n' w = (True, w') \<Longrightarrow> 0 < n'"
    and "perform_all (placed_event E pick) evs (([], []), s) = (Ret rs, (fs, k), s')"
    and "\<forall>x \<in> set fs. x = None"
  shows "k = [] \<longleftrightarrow>
    Wrote (Inl (StdException ''Extending virtual memory by the kernel failed.'')) \<notin> set rs"
proof -
  have "address_space E pick" using assms(1-3) by unfold_locales
  from address_space.events_like [OF this alike_nothing(1), of evs s] assms(4) all_gone [OF assms(5)]
  show ?thesis by (auto simp: alike_nothing(2))
qed

lemma extend_loop_6:
  "placed_extend_loop E pick 6 target = bind file_get (\<lambda>f. if theCurrentDataSize f < target
     then bind (placed_extend E pick) (\<lambda>_. placed_extend_loop E pick 5 target) else ret ())"
  using placed_extend_loop.simps(2) [of E pick 5 target] by simp

theorem memory_is_released_witness:
  "\<exists>rs fs k s'. perform_all (placed_event (limited_env 4) next_address)
      [Construct ''/a'', WriteAt 0 ''hello'' 0, Destroy 0] (([], []), demo) = (Ret rs, (fs, k), s') \<and> k \<noteq> []"
proof -
  let ?e = "Wrote (Inl (StdException ''Extending virtual memory by the kernel failed.''))"
  have casts: "c_size_t n = n" if "n \<in> {0, 4, 5, 8}" for n using that by (auto intro!: c_size_t_id)
  have "\<exists>k s'. perform_all (placed_event (limited_env 4) next_address)
      [Construct ''/a'', WriteAt 0 ''hello'' 0, Destroy 0] (([], []), demo) =
      (Ret [Constructed None, ?e, Destroyed], ([None], k), s')"
    by (simp add: placed_event_def attempt_def new_file_def new_entry_def connection_string_def limited_env_def
        ref_env_def bind_run comp_simps call_def on_throw_def in_space_def placed_at_def placed_write_def Let_def
        placed_init_def placed_extend_def placed_destroy_def placed_free_def file_get_def file_set_def kernel_map_def
        region_at_def c_call_def casts file_of_entry_def zeros_def next_address_def extend_loop_6)
  then obtain k s' where run: "perform_all (placed_event (limited_env 4) next_address)
      [Construct ''/a'', WriteAt 0 ''hello'' 0, Destroy 0] (([], []), demo) =
      (Ret [Constructed None, ?e, Destroyed], ([None], k), s')" by blast
  from memory_is_released [OF limited.pick_fresh limited.map_positive limited.remap_positive run] have "k \<noteq> []" by simp
  with run show ?thesis by blast
qed

end
