(* ===== verification/Spec2Isabelle.thy ===== *)
theory Spec2Isabelle
  imports Refinement_Theorems Session_Theorems Handle_Theorems File_Theorems Directory_Theorems Proc_Theorems
    Startup_Theorems Concurrency_Theorems Cache_Race Memory_Theorems
begin

text \<open>
  gridfs-fuse mounts a MongoDB GridFS collection as a file system. This development models the
  C++ sources below src/src, src/include and src/bin and proves what makes them correct.

  \<^bold>\<open>The program.\<close> The process starts in bin/main.cpp: \<open>Fuse::init\<close> (gridfs_fuse.cpp) reads the
  options and registers the callbacks, \<open>createRootDir\<close> makes the root, and \<open>fuse_main\<close> serves the
  requests of the kernel. Each request runs one callback of filesystem_operations.cpp. A callback
  builds a \<open>FilesystemEntry\<close>, \<open>Directory\<close>, \<open>File\<close>, \<open>Symlink\<close> or \<open>Proc\<close> for its path, calls a member
  function, and turns errors into negative numbers. An entry holds a pooled connection to the
  database and the GridFS object of its path; its attributes are a text in the content type
  of the newest document with that name. Attributes are cached in memcached. Open files and
  directories are \<open>FileInfo\<close> objects whose address travels through the kernel as a handle.

  \<^bold>\<open>How it is modelled.\<close> A callback is a computation over the state of the process. Its outcome is a
  value, a C++ exception, the end of the process, or a fault: what the language leaves undefined or
  traps, such as a null dereference, memory freed before, an uninitialised value or an assertion.
  The state has the outside world (of any type), the counts of connections and cache handles taken,
  and the table of heap objects behind the handles. Integers keep the width of their C type: words
  for modes and ids, and casts written out for sizes and offsets. MongoDB, libmemcached, the kernel
  and the clock are the fields of the record \<open>env\<close>: any functions at all, or, where a lemma needs
  more, functions that obey the laws of the locale \<open>backend\<close> or \<open>mounted\<close>.

  \<^bold>\<open>Theories and sources.\<close>
  \<^item> Prelude: computations, exceptions, destructors, casts; CLib: decimal output, \<open>atoi\<close>,
    \<open>strtok\<close>, \<open>c_str\<close>; Pcre: the part of Perl regular expressions that the sources use.
  \<^item> Externals: the record \<open>env\<close> of the outside world; Backend: documents, and the laws of the
    database and the cache as a locale.
  \<^item> Content_Type, Filesystem_Entry: filesystem_entry.cpp; Directory: directory.cpp; File_Entry: file.cpp
    with lock.h; Symlink: symlink.cpp; Proc: proc.h and proc.cpp; Attr_Cache: class \<open>Memcache\<close> of
    gridfs_fuse.cpp; File_Info: fileinfo.h and fileinfo.cpp.
  \<^item> Operations: filesystem_operations.cpp, one definition for each callback (\<open>gridfs_getattr\<close> for
    \<open>getattr\<close> and so on); Session: the requests of the kernel as a step relation over them;
    Fuse_Main: gridfs_fuse.cpp, auth_hook.cpp and main.cpp.
  \<^item> Shared_Reads, Shared_Correct: \<open>File::read\<close> of file.cpp and the lock of lock.h, cut into the steps
    between which another thread that reads through the same handle can run, from the first load of
    the two sizes on; Lazy_Load: the same for \<open>FilesystemEntry::gridfile\<close> and the \<open>auto_ptr\<close> behind it.
  \<^item> File_Memory: the functions of file.cpp that touch memory, and the destructor, once more over an
    address space with \<open>mmap\<close>, \<open>mremap\<close> and \<open>munmap\<close>, where \<open>theData\<close> is an address and not a content.

  \<^bold>\<open>What is proved.\<close>
  \<^item> File_Correct, File_Write: reading against a content cut into chunks, writing as an append
    to a buffer; Callbacks, Path_Callbacks, Open_Files, Open_Dirs: each callback under the laws, on every branch.
  \<^item> Abstract_Fs is a file system as users see it, a map from paths to attributes and contents;
    Refinement shows, through the locale \<open>simulation\<close>, that the callbacks implement it. Shared_Files
    adds open files with close-to-open consistency, for requests through several handles in any
    order, and Shared_Dirs open directories, whose listings the locale \<open>listing\<close> makes visible; the
    locale \<open>relational\<close> carries the refinement. Refinement_Theorems states this
    for one operation, for every sequence, and for the interleaved requests; Handle_Theorems shows
    what the rules of that file system exclude and what they put up with.
  \<^item> Resources (locales \<open>stack_frame\<close>, \<open>handle_frame\<close>, \<open>resource_frame\<close> and \<open>closing_frame\<close>), Session: connections,
    cache handles and heap objects stay balanced, with no law about the servers; Session_Objects: a session
    with its answers, and which objects it leaves on the heap; Typed_Files, Answers: the fields of a file
    stay inside their types, no buffer is overrun and none is lost unless the kernel refuses to extend
    one, and each answer has the form and the size that FUSE promises to the kernel; Memory_Safety: no handle is followed after its object was deleted; Loops_End: the
    loops of \<open>File\<close> end; Session_Theorems states these for sessions from the mount on.
  \<^item> Attribute_Theorems, File_Theorems, Directory_Theorems, Proc_Theorems, Startup_Theorems: round trips,
    effects, errors and bounds of each part. Some state what the code does wrong: it dies on a content
    type of another client, reads the wrong bytes at 4 GiB, or loses a connection when \<open>create\<close>
    finds the file in place.
  \<^item> Concurrency_Theorems, Cache_Race: under every schedule at most one thread is inside the lock, and
    once the \<open>GridFile\<close> is fetched readers of one handle get the bytes that each would get alone, also when
    they are the first to load the sizes; two threads that meet before the first fetch of the \<open>GridFile\<close>,
    which \<open>open\<close> makes only in a build with assertions, use a deleted object; a \<open>getattr\<close> that another
    request overtakes leaves old attributes in the cache.
  \<^item> Memory_Theorems: files in one address space behave as the separate objects of File_Entry (a
    simulation, in the locale \<open>address_space\<close>), and when all are destroyed the memory is back with the
    kernel unless an extension failed; Startup_Theorems shows the same of the handles of libmemcached.
  \<^item> Ref_World: one concrete world that satisfies all the laws; every locale is interpreted on it or
    on the model itself, and the properties are applied there.

  \<^bold>\<open>Fuel.\<close> Two loops have fuel. \<open>extend_loop\<close> grows a buffer by a positive chunk size until it covers
  \<open>offset + size\<close>, so \<open>offset + size + 1\<close> turns are enough; \<open>read_loop\<close> reads at least one byte in
  each turn, so \<open>size + 1\<close> turns are enough. Loops_End proves both: no run with sensible sizes
  ends in \<open>NoFuel\<close>.

  \<^bold>\<open>Bounds.\<close> A content is shorter than \<open>2 ^ 31\<close> bytes and a time fits 32 bits where the theorems about
  reading and attributes say so: beyond, the casts of the code wrap, and other theorems show how.
  A request that is \<open>sane\<close> has an offset and a size that are not negative, their sum below \<open>2 ^ 63\<close>.
  A path with an opening brace is excluded from listing and \<open>rmdir\<close>, as it is not quoted.

  \<^bold>\<open>Not modelled.\<close> Threads, beyond the cases above: elsewhere a callback runs as one step, so races
  between a write and a read of one handle are not covered. Messages to the log and to the terminal.
  Pages: a region of memory has the length that was asked for. How \<open>fuse_opt_parse\<close>
  splits the command line: it is the sequence of templates and switches of the table \<open>Fuse::opts\<close> that it meets,
  with their values, and what each sets or calls is the table of the model. The build files, packaging and
  shell tests.
\<close>

end
